(* ===== verification/Prelude.thy ===== *)
theory Prelude
  imports Main "HOL-Library.Word"
begin

text \<open>
  Shared ground of the development: the two rewrite collections the component theories
  feed, and the facts about fixed-size C arrays they have in common.

  A C array of \<open>N\<close> elements with a counter of the elements in use is a HOL list of length
  \<open>N\<close> next to a \<open>nat\<close>; the elements in use are \<open>take count array\<close>.  The programs of
  the course work on such arrays in four ways only, and each has one definition here:
  a linear search from index 0 (\<open>scan\<close>), a block move (\<open>memmove_elems\<close>), the shift loop
  that closes a gap (\<open>shift_down\<close>), and the move of the last element into a gap
  (\<open>swap_remove\<close>).  The lemmas say what each does to the elements in use.
\<close>

named_theorems array_simps \<open>what the array operations do to the elements in use\<close>
named_theorems step_defs \<open>definitions of the operations of a component\<close>

subsection \<open>Linear search\<close>

text \<open>
  \<^verbatim>\<open>for (i = 0; i < n; ++i) if (P(a[i])) return i; return -1;\<close>
  The answer -1 is \<open>None\<close>.
\<close>

function scan :: "('a \<Rightarrow> bool) \<Rightarrow> nat \<Rightarrow> nat \<Rightarrow> 'a list \<Rightarrow> nat option" where
  "scan P i n a =
     (if i < n then (if P (a ! i) then Some i else scan P (Suc i) n a) else None)"
  by pat_completeness auto
termination
  by (relation "measure (\<lambda>(P, i, n, a). n - i)") auto

declare scan.simps [simp del]

lemma scan_stop [simp]: "n \<le> i \<Longrightarrow> scan P i n a = None"
  by (simp add: scan.simps)

lemma scan_None_from:
  "scan P i n a = None \<longleftrightarrow> (\<forall>j. i \<le> j \<and> j < n \<longrightarrow> \<not> P (a ! j))"
proof (induction P i n a rule: scan.induct)
  case (1 P i n a)
  have split: "(\<forall>j. i \<le> j \<and> j < n \<longrightarrow> \<not> P (a ! j)) \<longleftrightarrow>
      (i < n \<longrightarrow> \<not> P (a ! i)) \<and> (\<forall>j. Suc i \<le> j \<and> j < n \<longrightarrow> \<not> P (a ! j))"
    by (metis Suc_leD Suc_leI le_neq_implies_less order_refl)
  show ?case
  proof (cases "i < n \<and> \<not> P (a ! i)")
    case True
    with "1.IH" show ?thesis by (simp only: split) (simp add: scan.simps [of P i n a])
  next
    case False
    then show ?thesis by (auto simp: scan.simps [of P i n a])
  qed
qed

lemma scan_Some_from:
  "scan P i n a = Some k \<Longrightarrow> i \<le> k \<and> k < n \<and> P (a ! k) \<and> (\<forall>j. i \<le> j \<and> j < k \<longrightarrow> \<not> P (a ! j))"
proof (induction P i n a rule: scan.induct)
  case (1 P i n a)
  show ?case
  proof (cases "i < n \<and> \<not> P (a ! i)")
    case True
    with "1.prems" have "scan P (Suc i) n a = Some k" by (simp add: scan.simps [of P i n a])
    with "1.IH" True have "Suc i \<le> k \<and> k < n \<and> P (a ! k) \<and>
        (\<forall>j. Suc i \<le> j \<and> j < k \<longrightarrow> \<not> P (a ! j))" by blast
    with True show ?thesis by (metis Suc_leD Suc_leI le_neq_implies_less)
  next
    case False
    with "1.prems" show ?thesis by (auto simp: scan.simps [of P i n a] split: if_splits)
  qed
qed

lemma scan_None: "scan P 0 n a = None \<longleftrightarrow> (\<forall>j < n. \<not> P (a ! j))"
  by (simp add: scan_None_from)

lemma scan_SomeD: "scan P 0 n a = Some k \<Longrightarrow> k < n \<and> P (a ! k) \<and> (\<forall>j < k. \<not> P (a ! j))"
  by (drule scan_Some_from) simp

lemma scan_None_set:
  "n \<le> length a \<Longrightarrow> scan P 0 n a = None \<longleftrightarrow> (\<forall>x \<in> set (take n a). \<not> P x)"
  by (fastforce simp: scan_None in_set_conv_nth)

lemma scan_Some_set:
  "n \<le> length a \<Longrightarrow> (\<exists>k. scan P 0 n a = Some k) \<longleftrightarrow> (\<exists>x \<in> set (take n a). P x)"
  using scan_None_set [of n a P] by auto

lemma scan_cong:
  assumes "\<forall>j < n. P (a ! j) = Q (b ! j)"
  shows "scan P i n a = scan Q i n b"
  using assms
proof (induction P i n a rule: scan.induct)
  case (1 P i n a)
  then show ?case by (cases "i < n") (simp_all add: scan.simps [of P i n a] scan.simps [of Q i n b])
qed

lemma scan_unique:
  assumes "distinct (map f (take n a))" "n \<le> length a" "k < n" "f (a ! k) = x"
  shows "scan (\<lambda>y. f y = x) 0 n a = Some k"
proof (cases "scan (\<lambda>y. f y = x) 0 n a")
  case None
  with assms(3,4) show ?thesis by (auto simp: scan_None)
next
  case (Some i)
  from scan_SomeD [OF Some] have i: "i < n" "f (a ! i) = x" by auto
  have "map f (take n a) ! i = map f (take n a) ! k"
    using i assms by simp
  with assms(1-3) i(1) have "i = k"
    by (subst (asm) nth_eq_iff_index_eq) auto
  with Some show ?thesis by simp
qed

subsection \<open>Block moves, gaps, appends\<close>

definition remove_nth :: "nat \<Rightarrow> 'a list \<Rightarrow> 'a list" where
  "remove_nth i xs = take i xs @ drop (Suc i) xs"

text \<open>\<^verbatim>\<open>memmove(&a[dst], &a[src], k * sizeof(a[0]))\<close>\<close>

definition memmove_elems :: "nat \<Rightarrow> nat \<Rightarrow> nat \<Rightarrow> 'a list \<Rightarrow> 'a list" where
  "memmove_elems dst src k a = take dst a @ take k (drop src a) @ drop (dst + k) a"

text \<open>\<^verbatim>\<open>for (; i < n - 1; ++i) a[i] = a[i + 1];\<close>\<close>

function shift_down :: "nat \<Rightarrow> nat \<Rightarrow> 'a list \<Rightarrow> 'a list" where
  "shift_down i n a = (if i < n - 1 then shift_down (Suc i) n (a[i := a ! Suc i]) else a)"
  by pat_completeness auto
termination
  by (relation "measure (\<lambda>(i, n, a). n - i)") auto

declare shift_down.simps [simp del]

text \<open>\<^verbatim>\<open>a[i] = a[n - 1];\<close>\<close>

definition swap_remove :: "nat \<Rightarrow> nat \<Rightarrow> 'a list \<Rightarrow> 'a list" where
  "swap_remove i n a = a[i := a ! (n - 1)]"

lemma length_remove_nth [simp]: "i < length xs \<Longrightarrow> length (remove_nth i xs) = length xs - 1"
  by (simp add: remove_nth_def)

lemma length_memmove_elems [simp]:
  "src + k \<le> length a \<Longrightarrow> dst + k \<le> length a \<Longrightarrow> length (memmove_elems dst src k a) = length a"
  by (simp add: memmove_elems_def)

lemma take_memmove_gap [array_simps]:
  "i < n \<Longrightarrow> n \<le> length a \<Longrightarrow>
   take (n - 1) (memmove_elems i (Suc i) (n - i - 1) a) = remove_nth i (take n a)"
  by (cases "i = n - 1") (auto simp: memmove_elems_def remove_nth_def take_drop min_def)

lemma shift_down_memmove:
  "i < n \<Longrightarrow> n \<le> length a \<Longrightarrow> shift_down i n a = memmove_elems i (Suc i) (n - i - 1) a"
proof (induction i n a rule: shift_down.induct)
  case (1 i n a)
  show ?case
  proof (cases "i < n - 1")
    case True
    have len: "n \<le> length (a[i := a ! Suc i])" using "1.prems" by simp
    have "shift_down i n a = memmove_elems (Suc i) (Suc (Suc i)) (n - Suc i - 1) (a[i := a ! Suc i])"
      using "1.IH" [OF True _ len] True by (simp add: shift_down.simps [of i n a])
    also have "\<dots> = memmove_elems i (Suc i) (n - i - 1) a"
    proof -
      obtain k where k: "n - i - 1 = Suc k" using True by (cases "n - i - 1") auto
      then have k': "n - Suc i - 1 = k" by simp
      have "Suc i < length a" using True "1.prems" by simp
      then have "drop (Suc i) a = a ! Suc i # drop (Suc (Suc i)) a"
        by (rule Cons_nth_drop_Suc [symmetric])
      then show ?thesis using \<open>Suc i < length a\<close> unfolding k k'
        by (simp add: memmove_elems_def take_Suc_conv_app_nth)
    qed
    finally show ?thesis .
  next
    case False
    with "1.prems" have "n - i - 1 = 0" by simp
    with False show ?thesis by (simp add: shift_down.simps [of i n a] memmove_elems_def)
  qed
qed

lemma length_shift_down [simp]: "length (shift_down i n a) = length a"
  by (induction i n a rule: shift_down.induct) (subst shift_down.simps, simp)

lemma take_shift_down [array_simps]:
  "i < n \<Longrightarrow> n \<le> length a \<Longrightarrow> take (n - 1) (shift_down i n a) = remove_nth i (take n a)"
  by (simp only: shift_down_memmove take_memmove_gap)

lemma length_swap_remove [simp]: "length (swap_remove i n a) = length a"
  by (simp add: swap_remove_def)

lemma take_append_slot [array_simps]:
  "n < length a \<Longrightarrow> take (Suc n) (a[n := x]) = take n a @ [x]"
  by (simp add: take_Suc_conv_app_nth)

lemma remove_nth_map: "map f (remove_nth i xs) = remove_nth i (map f xs)"
  by (simp add: remove_nth_def take_map drop_map)

lemma set_remove_nth_distinct:
  assumes "distinct xs" "i < length xs"
  shows "set (remove_nth i xs) = set xs - {xs ! i}"
proof -
  have xs: "xs = take i xs @ xs ! i # drop (Suc i) xs" using assms(2) by (rule id_take_nth_drop)
  have "distinct (take i xs @ xs ! i # drop (Suc i) xs)" using assms(1) xs by simp
  then have "xs ! i \<notin> set (take i xs @ drop (Suc i) xs)" by auto
  moreover have "set xs = insert (xs ! i) (set (take i xs @ drop (Suc i) xs))"
    by (subst xs) auto
  ultimately show ?thesis by (auto simp: remove_nth_def)
qed

lemma distinct_remove_nth [simp]: "distinct xs \<Longrightarrow> distinct (remove_nth i xs)"
proof (cases "i < length xs")
  case True
  assume "distinct xs"
  then have "distinct (take i xs @ xs ! i # drop (Suc i) xs)"
    using id_take_nth_drop [OF True] by simp
  then show ?thesis by (simp add: remove_nth_def)
qed (simp add: remove_nth_def)

lemma filter_gap:
  "distinct (map f (as @ y # bs)) \<Longrightarrow> filter (\<lambda>x. f x \<noteq> f y) (as @ y # bs) = as @ bs"
  by (induction as) (auto simp: filter_id_conv intro: rev_image_eqI)

lemma filter_hit:
  "distinct (map f (as @ y # bs)) \<Longrightarrow> filter (\<lambda>x. f x = f y) (as @ y # bs) = [y]"
  by (induction as) (auto simp: filter_empty_conv intro: rev_image_eqI)

lemma filter_unique:
  assumes "distinct (map f xs)" "i < length xs"
  shows "filter (\<lambda>x. f x = f (xs ! i)) xs = [xs ! i]"
proof -
  have "xs = take i xs @ xs ! i # drop (Suc i) xs" using assms(2) by (rule id_take_nth_drop)
  with assms(1) filter_hit [of f "take i xs" "xs ! i" "drop (Suc i) xs"] show ?thesis by metis
qed

lemma remove_nth_filter:
  assumes "distinct (map f xs)" "i < length xs"
  shows "remove_nth i xs = filter (\<lambda>x. f x \<noteq> f (xs ! i)) xs"
proof -
  have xs: "xs = take i xs @ xs ! i # drop (Suc i) xs" using assms(2) by (rule id_take_nth_drop)
  with assms(1) filter_gap [of f "take i xs" "xs ! i" "drop (Suc i) xs"] show ?thesis
    unfolding remove_nth_def by metis
qed

lemma set_remove_nth_subset: "set (remove_nth i xs) \<subseteq> set xs"
  by (auto simp: remove_nth_def dest: in_set_takeD in_set_dropD)

text \<open>What moving the last element into the gap leaves in use: the same elements as
  \<open>remove_nth\<close>, in another order.\<close>

lemma mset_swap_remove:
  assumes "i < n" "n \<le> length a"
  shows "set (take (n - 1) (swap_remove i n a)) \<union> {a ! i} = set (take n a)"
proof -
  have set_take: "set (take m b) = (\<lambda>j. b ! j) ` {..<m}" if "m \<le> length b" for m and b :: "'a list"
    using that nth_image [of m b] by (simp add: lessThan_atLeast0)
  have "set (take (n - 1) (swap_remove i n a)) = (\<lambda>j. if j = i then a ! (n - 1) else a ! j) ` {..<n - 1}"
    using assms by (subst set_take) (auto simp: swap_remove_def nth_list_update)
  moreover have "set (take n a) = (\<lambda>j. a ! j) ` {..<n}"
    using assms(2) by (rule set_take)
  moreover have "(\<lambda>j. if j = i then a ! (n - 1) else a ! j) ` {..<n - 1} \<union> {a ! i} = (\<lambda>j. a ! j) ` {..<n}"
    (is "?L \<union> _ = ?R")
  proof (intro equalityI subsetI)
    fix x assume "x \<in> ?R"
    then obtain j where j: "j < n" "x = a ! j" by auto
    consider "j = i" | "j \<noteq> i" "j < n - 1" | "j \<noteq> i" "j = n - 1" "i < n - 1"
      using j(1) assms(1) by linarith
    then show "x \<in> ?L \<union> {a ! i}"
      using j(2) by cases (auto intro: rev_image_eqI)
  qed (use assms(1) in \<open>auto split: if_splits\<close>)
  ultimately show ?thesis by simp
qed

lemma distinct_swap_remove:
  assumes "distinct (map f (take n a))" "i < n" "n \<le> length a"
  shows "distinct (map f (take (n - 1) (swap_remove i n a)))"
proof -
  have inj: "f (a ! j) = f (a ! k) \<longleftrightarrow> j = k" if "j < n" "k < n" for j k
    using assms(1,3) that nth_eq_iff_index_eq [of "map f (take n a)" j k] by simp
  show ?thesis
    using assms(2,3) by (auto simp: distinct_conv_nth swap_remove_def nth_list_update inj)
qed

lemma set_swap_remove_distinct:
  assumes "distinct (map f (take n a))" "i < n" "n \<le> length a"
  shows "f ` set (take (n - 1) (swap_remove i n a)) = f ` set (take n a) - {f (a ! i)}"
proof -
  have inj: "f (a ! j) = f (a ! k) \<longleftrightarrow> j = k" if "j < n" "k < n" for j k
    using assms(1,3) that nth_eq_iff_index_eq [of "map f (take n a)" j k] by simp
  have ne: "f (a ! i) \<noteq> f (swap_remove i n a ! j)" if "j < n - 1" for j
    using that assms(2,3) inj [of i "n - 1"] inj [of i j]
    by (cases "j = i") (auto simp: swap_remove_def)
  have "f (a ! i) \<notin> f ` set (take (n - 1) (swap_remove i n a))"
    using ne assms(2,3) by (fastforce simp: in_set_conv_nth)
  then show ?thesis
    using mset_swap_remove [OF assms(2,3)] by blast
qed

text \<open>\<^verbatim>\<open>for (; i < n; ++i) dst[i] = f(src[i]);\<close>\<close>

function copy_elems :: "('a \<Rightarrow> 'b) \<Rightarrow> nat \<Rightarrow> nat \<Rightarrow> 'a list \<Rightarrow> 'b list \<Rightarrow> 'b list" where
  "copy_elems f i n src dst =
     (if i < n then copy_elems f (Suc i) n src (dst[i := f (src ! i)]) else dst)"
  by pat_completeness auto
termination
  by (relation "measure (\<lambda>(f, i, n, src, dst). n - i)") auto

declare copy_elems.simps [simp del]

lemma length_copy_elems [simp]: "length (copy_elems f i n src dst) = length dst"
  by (induction f i n src dst rule: copy_elems.induct) (subst copy_elems.simps, simp)

lemma copy_elems_nth:
  "n \<le> length dst \<Longrightarrow> j < length dst \<Longrightarrow>
   copy_elems f i n src dst ! j = (if i \<le> j \<and> j < n then f (src ! j) else dst ! j)"
proof (induction f i n src dst rule: copy_elems.induct)
  case (1 f i n src dst)
  show ?case
  proof (cases "i < n")
    case True
    with 1 show ?thesis
      by (subst copy_elems.simps) (auto simp: nth_list_update Suc_le_eq le_less)
  next
    case False
    then show ?thesis by (subst copy_elems.simps) auto
  qed
qed

lemma take_copy_elems [array_simps]:
  "n \<le> length dst \<Longrightarrow> n \<le> length src \<Longrightarrow> take n (copy_elems f 0 n src dst) = map f (take n src)"
  by (rule nth_equalityI) (auto simp: copy_elems_nth)

subsection \<open>A bounded history\<close>

text \<open>
  The histories of the chat programs keep the last \<open>cap\<close> lines: a line is appended while
  there is room, and afterwards the oldest line makes place for it.
\<close>

definition push_capped :: "nat \<Rightarrow> 'a \<Rightarrow> 'a list \<Rightarrow> 'a list" where
  "push_capped cap x xs = (if length xs < cap then xs @ [x] else tl xs @ [x])"

lemma length_push_capped [simp]:
  "0 < cap \<Longrightarrow> length xs \<le> cap \<Longrightarrow> length (push_capped cap x xs) = min cap (Suc (length xs))"
  by (auto simp: push_capped_def)

lemma set_push_capped: "set (push_capped n x xs) \<subseteq> insert x (set xs)"
  by (cases xs) (auto simp: push_capped_def)

lemma memmove_history:
  assumes "length a = cap" "0 < cap"
  shows "(memmove_elems 0 1 (cap - 1) a)[cap - 1 := x] = tl a @ [x]"
proof -
  obtain b where b: "drop (cap - 1) a = [b]"
    using assms by (metis Suc_diff_1 cancel_comm_monoid_add_class.diff_cancel
      drop_all Cons_nth_drop_Suc diff_less less_one order_refl)
  have "memmove_elems 0 1 (cap - 1) a = tl a @ [b]"
    using assms b by (simp add: memmove_elems_def drop_Suc)
  then show ?thesis using assms by (simp add: list_update_append)
qed

text \<open>After any number of pushes the history is the last \<open>cap\<close> elements ever pushed.\<close>

definition last_n :: "nat \<Rightarrow> 'a list \<Rightarrow> 'a list" where
  "last_n n xs = drop (length xs - n) xs"

lemma push_capped_last_n:
  assumes "0 < cap"
  shows "push_capped cap x (last_n cap xs) = last_n cap (xs @ [x])"
proof (cases "length xs < cap")
  case True
  then show ?thesis by (auto simp: push_capped_def last_n_def)
next
  case False
  then have "length (last_n cap xs) = cap" by (simp add: last_n_def)
  moreover have "tl (last_n cap xs) = drop (Suc (length xs - cap)) xs"
    by (simp add: last_n_def tl_drop drop_Suc)
  moreover have "Suc (length xs) - cap = Suc (length xs - cap)" using False by simp
  moreover have "Suc (length xs - cap) \<le> length xs" using False assms by simp
  ultimately show ?thesis by (simp add: push_capped_def last_n_def)
qed

lemma fold_push_capped:
  "0 < cap \<Longrightarrow> fold (push_capped cap) ys (last_n cap xs) = last_n cap (xs @ ys)"
proof (induction ys arbitrary: xs)
  case (Cons y ys)
  then show ?case using Cons.IH [of "xs @ [y]"] by (simp add: push_capped_last_n)
qed simp

text \<open>A search result as the \<^verbatim>\<open>int\<close> the C functions return.\<close>

definition index_of :: "nat option \<Rightarrow> int" where
  "index_of r = (case r of None \<Rightarrow> -1 | Some i \<Rightarrow> int i)"

lemma index_of_simps [simp]: "index_of None = -1" "index_of (Some i) = int i"
  by (simp_all add: index_of_def)

lemma index_of_eq_minus1 [simp]: "index_of r = -1 \<longleftrightarrow> r = None"
  by (cases r) auto

subsection \<open>Ring buffers\<close>

text \<open>The elements of a ring of \<open>n\<close> slots: \<open>c\<close> of them, from slot \<open>h\<close> on.\<close>

definition ring_contents :: "nat \<Rightarrow> 'a list \<Rightarrow> nat \<Rightarrow> nat \<Rightarrow> 'a list" where
  "ring_contents n a h c = map (\<lambda>i. a ! ((h + i) mod n)) [0..<c]"

lemma length_ring_contents [simp]: "length (ring_contents n a h c) = c"
  by (simp add: ring_contents_def)

lemma ring_contents_0 [simp]: "ring_contents n a h 0 = []"
  by (simp add: ring_contents_def)

lemma ring_contents_push:
  assumes "length a = n" "c < n"
  shows "ring_contents n (a[(h + c) mod n := x]) h (Suc c) = ring_contents n a h c @ [x]"
proof -
  have "(h + c) mod n \<noteq> (h + i) mod n" if "i < c" for i
  proof
    assume "(h + c) mod n = (h + i) mod n"
    then have "n dvd (h + c) - (h + i)"
      using that by (metis add_le_cancel_left less_imp_le mod_eq_dvd_iff_nat)
    then have "n dvd c - i" by simp
    with that assms(2) show False by (metis dvd_imp_le less_imp_diff_less not_le zero_less_diff)
  qed
  moreover have "(h + c) mod n < length a" using assms by simp
  ultimately show ?thesis by (simp add: ring_contents_def)
qed

lemma ring_contents_pop:
  assumes "h < n" "0 < c"
  shows "ring_contents n a h c = a ! h # ring_contents n a (Suc h mod n) (c - 1)"
proof -
  obtain d where d: "c = Suc d" using assms(2) by (cases c) auto
  have "[0..<Suc d] = 0 # map Suc [0..<d]" by (simp add: map_Suc_upt upt_conv_Cons)
  moreover have "(h + Suc i) mod n = (Suc h mod n + i) mod n" for i
    by (metis add_Suc_right add_Suc mod_add_left_eq)
  ultimately show ?thesis using assms(1) by (simp add: ring_contents_def d o_def)
qed

lemma ring_tail_step: "t = (h + c) mod n \<Longrightarrow> Suc t mod n = (h + Suc c) mod (n::nat)"
  by (simp add: mod_Suc_eq)

lemma ring_head_step:
  "t = (h + c) mod n \<Longrightarrow> 0 < c \<Longrightarrow> t = (Suc h mod n + (c - 1)) mod (n::nat)"
  by (cases c) (simp_all add: mod_add_left_eq)

end
