(* ===== verification/C_Text.thy ===== *)
theory C_Text
  imports Prelude
begin

text \<open>
  The part of the C string library the programs use.  A C string is the \<open>char list\<close>
  of its bytes before the terminating NUL, so it holds no NUL itself (\<open>c_string\<close>).
  A buffer of size \<open>n\<close> written by \<^verbatim>\<open>snprintf\<close> holds at most \<open>n - 1\<close> bytes
  (\<open>fit n\<close>).  Positions are offsets; a \<open>NULL\<close> result is \<open>None\<close>.
\<close>

definition c_string :: "string \<Rightarrow> bool" where
  "c_string s \<longleftrightarrow> CHR 0x00 \<notin> set s"

text \<open>The bytes of a buffer up to the first NUL, as every \<^verbatim>\<open>str\<close> function reads them.\<close>

definition until_nul :: "char list \<Rightarrow> string" where
  "until_nul b = takeWhile (\<lambda>c. c \<noteq> CHR 0x00) b"

definition fit :: "nat \<Rightarrow> string \<Rightarrow> string" where
  "fit n s = take (n - 1) s"

text \<open>\<^verbatim>\<open>strncmp(s, p, strlen(p)) == 0\<close> and \<^verbatim>\<open>strcmp(s + strlen(s) - strlen(p), p) == 0\<close>\<close>

definition starts_with :: "string \<Rightarrow> string \<Rightarrow> bool" where
  "starts_with s p \<longleftrightarrow> take (length p) s = p"

definition ends_with :: "string \<Rightarrow> string \<Rightarrow> bool" where
  "ends_with s p \<longleftrightarrow> length p \<le> length s \<and> drop (length s - length p) s = p"

text \<open>\<^verbatim>\<open>strstr\<close>: the offset of the first occurrence.\<close>

fun strstr :: "string \<Rightarrow> string \<Rightarrow> nat option" where
  "strstr [] p = (if p = [] then Some 0 else None)"
| "strstr (c # s) p = (if starts_with (c # s) p then Some 0 else map_option Suc (strstr s p))"

text \<open>\<^verbatim>\<open>line[strcspn(line, "\n")] = 0\<close>\<close>

definition cut_newline :: "string \<Rightarrow> string" where
  "cut_newline s = takeWhile (\<lambda>c. c \<noteq> CHR 0x0A) s"

text \<open>\<^verbatim>\<open>fgets\<close>: up to the newline, at most \<open>n - 1\<close> characters.\<close>

definition fgets :: "nat \<Rightarrow> string \<Rightarrow> (string \<times> string) option" where
  "fgets n s =
     (if s = [] then None
      else let k = min (n - 1) (Suc (length (takeWhile (\<lambda>c. c \<noteq> CHR 0x0A) s)))
           in Some (take k s, drop k s))"

lemma fgets_line:
  "CHR 0x0A \<notin> set line \<Longrightarrow> length line < n - 1 \<Longrightarrow>
   fgets n (line @ CHR 0x0A # rest) = Some (line @ [CHR 0x0A], rest)"
proof -
  assume "CHR 0x0A \<notin> set line" "length line < n - 1"
  moreover from this have "takeWhile (\<lambda>c. c \<noteq> CHR 0x0A) (line @ CHR 0x0A # rest) = line"
    by (subst takeWhile_append2) auto
  ultimately show ?thesis by (simp add: fgets_def Let_def)
qed

text \<open>\<^verbatim>\<open>strtok\<close> called until it returns NULL: the maximal runs of non-delimiters.\<close>

function strtok_all :: "char list \<Rightarrow> string \<Rightarrow> string list" where
  "strtok_all d s =
     (let s' = dropWhile (\<lambda>c. c \<in> set d) s
      in if s' = [] then []
         else takeWhile (\<lambda>c. c \<notin> set d) s' #
              strtok_all d (drop 1 (dropWhile (\<lambda>c. c \<notin> set d) s')))"
  by pat_completeness auto
termination
proof (relation "measure (\<lambda>(d, s). length s)", goal_cases)
  case (2 d s s')
  have "length (drop 1 (dropWhile (\<lambda>c. c \<notin> set d) s')) < length s'"
    using 2(2) length_dropWhile_le [of "\<lambda>c. c \<notin> set d" s'] by (cases s') (auto simp: less_Suc_eq_le le_diff_conv)
  also have "length s' \<le> length s" using 2(1) by (simp add: length_dropWhile_le)
  finally show ?case by simp
qed simp

declare strtok_all.simps [simp del]

subsection \<open>Basic facts\<close>

lemma length_fit [simp]: "length (fit n s) \<le> n - 1"
  by (simp add: fit_def)

lemma fit_short [simp]: "length s < n \<Longrightarrow> fit n s = s"
  by (simp add: fit_def)

lemma fit_fit [simp]: "fit n (fit n s) = fit n s"
  by (simp add: fit_def)

lemma fit_larger: "m \<le> n \<Longrightarrow> fit n (fit m s) = fit m s"
  by (simp add: fit_def)

lemma fit_smaller: "m \<le> n \<Longrightarrow> fit m (fit n s) = fit m s"
  by (simp add: fit_def)

lemma length_fit_less: "0 < n \<Longrightarrow> length (fit n s) < n"
  by (simp add: fit_def)

lemma fit_eq_Nil [simp]: "1 < n \<Longrightarrow> fit n s = [] \<longleftrightarrow> s = []"
  by (auto simp: fit_def)

lemma set_fit: "set (fit n s) \<subseteq> set s"
  by (auto simp: fit_def dest: in_set_takeD)

lemma c_string_fit: "c_string s \<Longrightarrow> c_string (fit n s)"
  using set_fit by (fastforce simp: c_string_def)

lemma c_string_append [simp]: "c_string (s @ t) \<longleftrightarrow> c_string s \<and> c_string t"
  by (auto simp: c_string_def)

lemma c_string_until_nul [simp]: "c_string (until_nul b)"
  by (auto simp: c_string_def until_nul_def dest: set_takeWhileD)

lemma until_nul_c_string [simp]: "c_string s \<Longrightarrow> until_nul (s @ CHR 0x00 # t) = s"
  unfolding until_nul_def c_string_def by (subst takeWhile_append2) auto

lemma starts_with_append [simp]: "starts_with (p @ s) p"
  by (simp add: starts_with_def)

lemma starts_with_Nil [simp]: "starts_with s []"
  by (simp add: starts_with_def)

lemma starts_with_iff: "starts_with s p \<longleftrightarrow> (\<exists>t. s = p @ t)"
  unfolding starts_with_def by (metis append_eq_conv_conj)

lemma starts_with_same_prefix [simp]: "starts_with (p @ s) (p @ q) \<longleftrightarrow> starts_with s q"
  by (auto simp: starts_with_iff)

lemma ends_with_append [simp]: "ends_with (s @ p) p"
  by (simp add: ends_with_def)

lemma ends_with_iff: "ends_with s p \<longleftrightarrow> (\<exists>t. s = t @ p)"
proof
  assume "ends_with s p"
  then have "s = take (length s - length p) s @ p"
    unfolding ends_with_def by (metis append_take_drop_id)
  then show "\<exists>t. s = t @ p" by blast
qed auto

lemma ends_with_take: "ends_with s p \<Longrightarrow> s = take (length s - length p) s @ p"
  unfolding ends_with_def by (metis append_take_drop_id)

lemma strstr_Some:
  "strstr s p = Some i \<Longrightarrow> i + length p \<le> length s \<and> take (length p) (drop i s) = p"
proof (induction s arbitrary: i)
  case Nil
  then show ?case by (simp split: if_splits)
next
  case (Cons c s)
  show ?case
  proof (cases "starts_with (c # s) p")
    case True
    with Cons.prems have "i = 0" by simp
    moreover from True have "length p \<le> length (c # s)"
      unfolding starts_with_def by (metis length_take min.cobounded1)
    ultimately show ?thesis using True by (simp add: starts_with_def)
  next
    case False
    with Cons.prems obtain j where "strstr s p = Some j" "i = Suc j" by auto
    with Cons.IH show ?thesis by auto
  qed
qed

lemma strstr_None: "strstr s p = None \<longleftrightarrow> (\<forall>i. \<not> starts_with (drop i s) p)"
proof (induction s)
  case Nil
  then show ?case by (auto simp: starts_with_def)
next
  case (Cons c s)
  have "(\<forall>i. \<not> starts_with (drop i (c # s)) p) \<longleftrightarrow>
      \<not> starts_with (c # s) p \<and> (\<forall>i. \<not> starts_with (drop i s) p)"
    by (metis drop_0 drop_Suc_Cons not0_implies_Suc)
  with Cons show ?case by simp
qed

lemma strstr_least: "strstr s p = Some i \<Longrightarrow> j < i \<Longrightarrow> \<not> starts_with (drop j s) p"
proof (induction s arbitrary: i j)
  case (Cons c s)
  then show ?case by (cases j) (auto split: if_splits)
qed (simp split: if_splits)

lemma cut_newline_no_newline [simp]: "CHR 0x0A \<notin> set (cut_newline s)"
  by (auto simp: cut_newline_def dest: set_takeWhileD)

lemma cut_newline_id: "CHR 0x0A \<notin> set s \<Longrightarrow> cut_newline (s @ CHR 0x0A # t) = s"
  unfolding cut_newline_def by (subst takeWhile_append2) auto

lemma strtok_all_tokens:
  "w \<in> set (strtok_all d s) \<Longrightarrow> w \<noteq> [] \<and> (\<forall>c \<in> set w. c \<in> set s \<and> c \<notin> set d)"
proof (induction d s arbitrary: w rule: strtok_all.induct)
  case (1 d s)
  define s' where "s' = dropWhile (\<lambda>c. c \<in> set d) s"
  show ?case
  proof (cases "s' = []")
    case True
    with "1.prems" show ?thesis by (subst (asm) strtok_all.simps) (simp add: s'_def)
  next
    case False
    have sub: "set s' \<subseteq> set s" unfolding s'_def by (auto dest: set_dropWhileD)
    have hd: "hd s' \<notin> set d" using False unfolding s'_def by (rule hd_dropWhile)
    from False have "w = takeWhile (\<lambda>c. c \<notin> set d) s' \<or>
        w \<in> set (strtok_all d (drop 1 (dropWhile (\<lambda>c. c \<notin> set d) s')))"
      using "1.prems" by (subst (asm) strtok_all.simps) (simp add: s'_def [symmetric] Let_def)
    then show ?thesis
    proof
      assume w: "w = takeWhile (\<lambda>c. c \<notin> set d) s'"
      then have "w \<noteq> []" using False hd by (cases s') auto
      with w sub show ?thesis by (auto dest: set_takeWhileD)
    next
      assume "w \<in> set (strtok_all d (drop 1 (dropWhile (\<lambda>c. c \<notin> set d) s')))"
      from "1.IH" [OF s'_def False this] have "w \<noteq> [] \<and>
        (\<forall>c \<in> set w. c \<in> set (drop 1 (dropWhile (\<lambda>c. c \<notin> set d) s')) \<and> c \<notin> set d)" .
      moreover have "set (drop 1 (dropWhile (\<lambda>c. c \<notin> set d) s')) \<subseteq> set s"
        using sub by (auto dest!: in_set_dropD set_dropWhileD)
      ultimately show ?thesis by blast
    qed
  qed
qed

subsection \<open>Decimal numbers: printf's \<open>%d\<close> and sscanf's \<open>%d\<close>\<close>

definition digit :: "nat \<Rightarrow> char" where
  "digit d = char_of (48 + d)"

definition is_digit :: "char \<Rightarrow> bool" where
  "is_digit c \<longleftrightarrow> 48 \<le> (of_char c :: nat) \<and> (of_char c :: nat) \<le> 57"

definition digit_val :: "char \<Rightarrow> nat" where
  "digit_val c = of_char c - 48"

definition is_space :: "char \<Rightarrow> bool" where
  "is_space c \<longleftrightarrow> (of_char c :: nat) = 32 \<or> (9 \<le> (of_char c :: nat) \<and> (of_char c :: nat) \<le> 13)"

fun show_nat :: "nat \<Rightarrow> string" where
  "show_nat n = (if n < 10 then [digit n] else show_nat (n div 10) @ [digit (n mod 10)])"

declare show_nat.simps [simp del]

definition show_int :: "int \<Rightarrow> string" where
  "show_int i = (if i < 0 then CHR 0x2D # show_nat (nat (- i)) else show_nat (nat i))"

definition read_digits :: "string \<Rightarrow> nat" where
  "read_digits s = foldl (\<lambda>v c. v * 10 + digit_val c) 0 s"

text \<open>
  \<^verbatim>\<open>%d\<close>: white space is skipped, a sign is optional, at least one digit is needed.  The
  result is the number and the rest of the input.  A number outside \<^verbatim>\<open>int\<close>, for which C
  leaves the result undefined, is its mathematical value here.
\<close>

definition scan_d :: "string \<Rightarrow> (int \<times> string) option" where
  "scan_d s =
     (let s1 = dropWhile is_space s;
          neg = (s1 \<noteq> [] \<and> hd s1 = CHR 0x2D);
          s2 = (if s1 \<noteq> [] \<and> (hd s1 = CHR 0x2D \<or> hd s1 = CHR 0x2B) then tl s1 else s1);
          ds = takeWhile is_digit s2
      in if ds = [] then None
         else Some (if neg then - int (read_digits ds) else int (read_digits ds),
                    drop (length ds) s2))"

text \<open>\<^verbatim>\<open>%s\<close>: white space is skipped, the next run of other characters is the word.\<close>

definition scan_s :: "string \<Rightarrow> (string \<times> string) option" where
  "scan_s s =
     (let s1 = dropWhile is_space s; w = takeWhile (\<lambda>c. \<not> is_space c) s1
      in if w = [] then None else Some (w, drop (length w) s1))"

lemma of_char_digit [simp]: "d < 10 \<Longrightarrow> (of_char (digit d) :: nat) = 48 + d"
  by (simp add: digit_def)

lemma is_digit_digit [simp]: "d < 10 \<Longrightarrow> is_digit (digit d)"
  by (simp add: is_digit_def)

lemma digit_val_digit [simp]: "d < 10 \<Longrightarrow> digit_val (digit d) = d"
  by (simp add: digit_val_def)

lemma show_nat_digits: "\<forall>c \<in> set (show_nat n). is_digit c"
proof (induction n rule: show_nat.induct)
  case (1 n)
  show ?case by (subst show_nat.simps) (use 1 in auto)
qed

lemma show_nat_not_Nil [simp]: "show_nat n \<noteq> []"
  by (subst show_nat.simps) simp

lemma read_digits_show_nat [simp]: "read_digits (show_nat n) = n"
proof (induction n rule: show_nat.induct)
  case (1 n)
  show ?case
  proof (cases "n < 10")
    case True
    then show ?thesis by (simp add: show_nat.simps [of n] read_digits_def)
  next
    case False
    then have "read_digits (show_nat n) = read_digits (show_nat (n div 10)) * 10 + n mod 10"
      by (simp add: show_nat.simps [of n] read_digits_def)
    with 1 [OF False] show ?thesis by simp
  qed
qed

lemma show_nat_inj: "show_nat m = show_nat n \<longleftrightarrow> m = n"
  by (metis read_digits_show_nat)

lemma digit_not_space: "is_digit c \<Longrightarrow> \<not> is_space c"
  by (simp add: is_digit_def is_space_def)

lemma sign_not_digit: "\<not> is_digit (CHR 0x2D)" "\<not> is_digit (CHR 0x2B)" "\<not> is_space (CHR 0x2D)"
  by (simp_all add: is_digit_def is_space_def)

lemma hd_show_nat: "is_digit (hd (show_nat n))"
  using show_nat_digits by (meson hd_in_set show_nat_not_Nil)

lemma dropWhile_show_nat: "dropWhile is_space (show_nat n @ r) = show_nat n @ r"
  using hd_show_nat [of n] by (cases "show_nat n") (auto simp: digit_not_space)

lemma takeWhile_show_nat:
  assumes "r = [] \<or> \<not> is_digit (hd r)"
  shows "takeWhile is_digit (show_nat n @ r) = show_nat n"
proof -
  have "takeWhile is_digit (show_nat n @ r) = show_nat n @ takeWhile is_digit r"
    by (rule takeWhile_append2) (use show_nat_digits in blast)
  moreover have "takeWhile is_digit r = []" using assms by (cases r) auto
  ultimately show ?thesis by simp
qed

lemma scan_d_show_int:
  assumes "r = [] \<or> \<not> is_digit (hd r)"
  shows "scan_d (show_int i @ r) = Some (i, r)"
proof (cases "i < 0")
  case True
  then show ?thesis using takeWhile_show_nat [OF assms]
    by (simp add: scan_d_def show_int_def sign_not_digit)
next
  case False
  have "hd (show_nat (nat i) @ r) \<noteq> CHR 0x2D" "hd (show_nat (nat i) @ r) \<noteq> CHR 0x2B"
    using hd_show_nat [of "nat i"] sign_not_digit by (auto simp: hd_append)
  with False show ?thesis using takeWhile_show_nat [OF assms] dropWhile_show_nat
    by (simp add: scan_d_def show_int_def)
qed

lemma scan_d_spaces: "\<forall>c \<in> set w. is_space c \<Longrightarrow> scan_d (w @ s) = scan_d s"
  unfolding scan_d_def by (simp add: dropWhile_append2)

lemma show_int_inj: "show_int i = show_int j \<longleftrightarrow> i = j"
  using scan_d_show_int [of "[]"] by (metis append_Nil2 option.inject prod.inject)

lemma show_int_no_nul [simp]: "c_string (show_int i)"
proof -
  have "\<not> is_digit (CHR 0x00)" by (simp add: is_digit_def)
  then have "c_string (show_nat n)" for n
    using show_nat_digits by (fastforce simp: c_string_def)
  then show ?thesis by (auto simp: show_int_def c_string_def)
qed

text \<open>How long \<open>%d\<close> prints a non-negative number.\<close>

lemma length_show_nat: "n < 10 ^ k \<Longrightarrow> 0 < k \<Longrightarrow> length (show_nat n) \<le> k"
proof (induction k arbitrary: n)
  case (Suc k)
  show ?case
  proof (cases "n < 10")
    case True
    then show ?thesis by (subst show_nat.simps) simp
  next
    case False
    with Suc.prems(1) have "0 < k" by (cases k) auto
    moreover have "n div 10 < 10 ^ k" using Suc.prems(1) by (simp add: div_less_iff_less_mult)
    ultimately have "length (show_nat (n div 10)) \<le> k" by (rule Suc.IH [rotated])
    with False show ?thesis by (subst show_nat.simps) simp
  qed
qed simp

lemma length_show_int:
  assumes "\<bar>i\<bar> < 10 ^ 10"
  shows "length (show_int i) \<le> 11"
proof -
  have b: "nat \<bar>i\<bar> < 10 ^ 10" using assms by simp
  then have "length (show_nat (nat \<bar>i\<bar>)) \<le> 10" by (rule length_show_nat) simp
  then show ?thesis by (auto simp: show_int_def abs_if split: if_splits)
qed

end
