(* ===== verification/Interfaces.thy ===== *)
theory Interfaces
  imports Prelude
begin

text \<open>
  The interfaces that several programs of the course implement in their own way.

  \<open>bounded_fifo\<close>: a queue of bounded capacity.  The ring buffer of commands in the shared
  memory of lab-14 and the ring buffer of accepted sockets in the producer/consumer server of
  lab-16 are both interpretations of it.

  \<open>session_table\<close>: a table of at most \<open>cap\<close> sessions with distinct keys.  The client table
  of the lab-13 chat server (shift loop), the user table of the lab-14 room (block move) and the
  counter table of the raw echo server (last element into the gap) are interpretations of it.

  \<open>line_editor\<close>: the input line of a chat client.

  \<open>byte_file\<close>: a file that a driver serves with its own read and write functions, where each write
  replaces what was there.  The character device and the entry of procfs in lab-20 are
  interpretations of it.

  \<open>two_processes\<close>: two processes on a shared state whose every step keeps an invariant and brings the
  end nearer.  Parent and child on the pipe of lab-12 and the two exchanges over shared memory in
  lab-14 are interpretations of it.

  What follows from the laws is proved once, about runs of arbitrary operations.
\<close>

subsection \<open>Bounded queues\<close>

datatype 'a fifo_op = Enq 'a | Deq

text \<open>
  A run of operations: the elements the queue accepted and the elements it delivered.  An
  operation the queue refuses (full, empty) changes nothing.
\<close>

fun fifo_run ::
  "('a \<Rightarrow> 'q \<Rightarrow> 'q option) \<Rightarrow> ('q \<Rightarrow> ('a \<times> 'q) option) \<Rightarrow> 'a fifo_op list \<Rightarrow> 'q \<Rightarrow>
   'q \<times> 'a list \<times> 'a list" where
  "fifo_run enq deq [] q = (q, [], [])"
| "fifo_run enq deq (Enq x # ops) q =
     (case enq x q of
        None \<Rightarrow> fifo_run enq deq ops q
      | Some q' \<Rightarrow> (case fifo_run enq deq ops q' of (r, acc, out) \<Rightarrow> (r, x # acc, out)))"
| "fifo_run enq deq (Deq # ops) q =
     (case deq q of
        None \<Rightarrow> fifo_run enq deq ops q
      | Some (x, q') \<Rightarrow> (case fifo_run enq deq ops q' of (r, acc, out) \<Rightarrow> (r, acc, x # out)))"

locale bounded_fifo =
  fixes start :: "'q"
    and enq :: "'a \<Rightarrow> 'q \<Rightarrow> 'q option"
    and deq :: "'q \<Rightarrow> ('a \<times> 'q) option"
    and contents :: "'q \<Rightarrow> 'a list"
    and good :: "'q \<Rightarrow> bool"
    and cap :: nat
  assumes good_start: "good start"
    and contents_start: "contents start = []"
    and contents_bound: "good q \<Longrightarrow> length (contents q) \<le> cap"
    and enq_full: "good q \<Longrightarrow> length (contents q) = cap \<Longrightarrow> enq x q = None"
    and enq_room: "good q \<Longrightarrow> length (contents q) < cap \<Longrightarrow>
      \<exists>q'. enq x q = Some q' \<and> good q' \<and> contents q' = contents q @ [x]"
    and deq_empty: "good q \<Longrightarrow> contents q = [] \<Longrightarrow> deq q = None"
    and deq_next: "good q \<Longrightarrow> contents q = x # xs \<Longrightarrow>
      \<exists>q'. deq q = Some (x, q') \<and> good q' \<and> contents q' = xs"
begin

lemma enq_SomeD:
  assumes "good q" "enq x q = Some q'"
  shows "good q' \<and> contents q' = contents q @ [x] \<and> length (contents q) < cap"
proof -
  have "length (contents q) < cap"
    using assms enq_full [of q x] contents_bound [of q] by (fastforce simp: le_less)
  with enq_room [OF assms(1) this, of x] assms(2) show ?thesis by auto
qed

lemma deq_SomeD:
  assumes "good q" "deq q = Some (x, q')"
  shows "good q' \<and> contents q = x # contents q'"
proof (cases "contents q")
  case Nil
  with assms deq_empty show ?thesis by simp
next
  case (Cons y ys)
  with assms deq_next [OF assms(1) Cons] show ?thesis by auto
qed

lemma enq_None_iff: "good q \<Longrightarrow> enq x q = None \<longleftrightarrow> length (contents q) = cap"
  using enq_full enq_room contents_bound by (metis le_less option.distinct(1))

lemma deq_None_iff: "good q \<Longrightarrow> deq q = None \<longleftrightarrow> contents q = []"
  using deq_empty deq_next by (metis list.exhaust option.distinct(1))

text \<open>First in, first out, nothing lost and nothing invented: what was in the queue followed by
  what it accepted is what it delivered followed by what is left.\<close>

lemma run_order:
  "good q \<Longrightarrow> fifo_run enq deq ops q = (q', acc, out) \<Longrightarrow>
   good q' \<and> contents q @ acc = out @ contents q'"
proof (induction ops arbitrary: q q' acc out)
  case (Cons op ops)
  show ?case
  proof (cases op)
    case (Enq x)
    with Cons show ?thesis
      by (fastforce split: option.splits prod.splits dest: enq_SomeD)
  next
    case Deq
    with Cons show ?thesis
      by (fastforce split: option.splits prod.splits dest: deq_SomeD)
  qed
qed simp

lemma run_order_start:
  "fifo_run enq deq ops start = (q, acc, out) \<Longrightarrow> acc = out @ contents q \<and> length (contents q) \<le> cap"
  using run_order [OF good_start] contents_start contents_bound by fastforce

end

subsection \<open>Tables of sessions\<close>

datatype ('k, 'v) table_op = Join 'k 'v | Leave 'k

fun table_run ::
  "('k \<Rightarrow> 'v \<Rightarrow> 't \<Rightarrow> 't) \<Rightarrow> ('k \<Rightarrow> 't \<Rightarrow> 't) \<Rightarrow> ('k, 'v) table_op list \<Rightarrow> 't \<Rightarrow> 't" where
  "table_run add rem [] t = t"
| "table_run add rem (Join k v # ops) t = table_run add rem ops (add k v t)"
| "table_run add rem (Leave k # ops) t = table_run add rem ops (rem k t)"

text \<open>What a table of \<open>cap\<close> sessions promises: its keys are a set, a newcomer is admitted
  while there is room, a key leaves when it asks to.\<close>

fun members :: "nat \<Rightarrow> ('k, 'v) table_op list \<Rightarrow> 'k set \<Rightarrow> 'k set" where
  "members cap [] S = S"
| "members cap (Join k v # ops) S =
     members cap ops (if card S < cap then insert k S else S)"
| "members cap (Leave k # ops) S = members cap ops (S - {k})"

locale session_table =
  fixes start :: "'t"
    and keys :: "'t \<Rightarrow> 'k list"
    and add :: "'k \<Rightarrow> 'v \<Rightarrow> 't \<Rightarrow> 't"
    and rem :: "'k \<Rightarrow> 't \<Rightarrow> 't"
    and good :: "'t \<Rightarrow> bool"
    and cap :: nat
  assumes good_start: "good start"
    and keys_start: "keys start = []"
    and keys_distinct: "good t \<Longrightarrow> distinct (keys t)"
    and keys_bound: "good t \<Longrightarrow> length (keys t) \<le> cap"
    and good_add: "good t \<Longrightarrow> good (add k v t)"
    and good_rem: "good t \<Longrightarrow> good (rem k t)"
    and keys_add: "good t \<Longrightarrow> set (keys (add k v t)) =
      (if length (keys t) < cap then insert k (set (keys t)) else set (keys t))"
    and keys_rem: "good t \<Longrightarrow> set (keys (rem k t)) = set (keys t) - {k}"
begin

lemma card_keys: "good t \<Longrightarrow> card (set (keys t)) = length (keys t)"
  by (simp add: distinct_card keys_distinct)

lemma run_members:
  "good t \<Longrightarrow> good (table_run add rem ops t) \<and>
   set (keys (table_run add rem ops t)) = members cap ops (set (keys t))"
proof (induction ops arbitrary: t)
  case (Cons op ops)
  then show ?case
    by (cases op) (auto simp: good_add good_rem keys_add keys_rem card_keys)
qed simp

lemma run_start:
  "set (keys (table_run add rem ops start)) = members cap ops {} \<and>
   distinct (keys (table_run add rem ops start)) \<and>
   length (keys (table_run add rem ops start)) \<le> cap"
  using run_members [OF good_start, of ops] keys_distinct keys_bound by (simp add: keys_start)

end

subsection \<open>Input lines\<close>

text \<open>
  The input field of both chat clients: printable characters are appended while the line is
  shorter than \<open>cap\<close>, backspace takes the last one away, sending clears the line.
\<close>

datatype edit = Key int | Rubout | Clear

fun edit_spec :: "nat \<Rightarrow> edit \<Rightarrow> string \<Rightarrow> string" where
  "edit_spec cap (Key ch) s =
     (if ch < 32 \<or> 127 \<le> ch \<or> cap \<le> length s then s else s @ [char_of (nat ch)])"
| "edit_spec cap Rubout s = butlast s"
| "edit_spec cap Clear s = []"

definition printable :: "string \<Rightarrow> bool" where
  "printable s \<longleftrightarrow> (\<forall>c \<in> set s. 32 \<le> (of_char c :: int) \<and> (of_char c :: int) < 127)"

locale line_editor =
  fixes text_of :: "'s \<Rightarrow> string"
    and good :: "'s \<Rightarrow> bool"
    and key :: "'s \<Rightarrow> int \<Rightarrow> 's"
    and rubout :: "'s \<Rightarrow> 's"
    and clear :: "'s \<Rightarrow> 's"
    and cap :: nat
  assumes key_text: "good s \<Longrightarrow> text_of (key s ch) = edit_spec cap (Key ch) (text_of s)"
    and rubout_text: "good s \<Longrightarrow> text_of (rubout s) = edit_spec cap Rubout (text_of s)"
    and clear_text: "good s \<Longrightarrow> text_of (clear s) = edit_spec cap Clear (text_of s)"
    and good_key: "good s \<Longrightarrow> good (key s ch)"
    and good_rubout: "good s \<Longrightarrow> good (rubout s)"
    and good_clear: "good s \<Longrightarrow> good (clear s)"
begin

lemma type_keys:
  "good s \<Longrightarrow> good (foldl key s chs) \<and>
   text_of (foldl key s chs) = fold (\<lambda>ch. edit_spec cap (Key ch)) chs (text_of s)"
  by (induction chs arbitrary: s) (simp_all add: good_key key_text del: edit_spec.simps)

lemma spec_types:
  "printable w \<Longrightarrow> length s + length w \<le> cap \<Longrightarrow>
   fold (\<lambda>ch. edit_spec cap (Key ch)) (map of_char w) s = s @ w"
  by (induction w arbitrary: s) (auto simp: printable_def)

text \<open>What is typed is what the line holds, up to its capacity.\<close>

lemma types_text:
  "good s \<Longrightarrow> text_of s = [] \<Longrightarrow> printable w \<Longrightarrow> length w \<le> cap \<Longrightarrow>
   text_of (foldl key s (map of_char w)) = w"
  using type_keys [of s "map of_char w"] spec_types [of w "[]"] by simp

end

subsection \<open>Files served by a driver\<close>

text \<open>
  What the users of such a file do: read until nothing comes any more (\<open>cat\<close>), from the offset the
  reads have reached, and write again what a write has not accepted.  \<open>None\<close> is a loop without end.
\<close>

partial_function (option) read_all ::
  "('s \<Rightarrow> nat \<Rightarrow> nat \<Rightarrow> char list) \<Rightarrow> 's \<Rightarrow> nat \<Rightarrow> nat \<Rightarrow> char list option" where
  "read_all rd s n off =
     (let b = rd s n off
      in if b = [] then Some []
         else Option.bind (read_all rd s n (off + length b)) (\<lambda>r. Some (b @ r)))"

partial_function (option) put_all ::
  "(char list \<Rightarrow> 's \<Rightarrow> nat \<times> 's) \<Rightarrow> char list \<Rightarrow> 's \<Rightarrow> 's option" where
  "put_all wr data s =
     (if data = [] then Some s
      else put_all wr (drop (fst (wr data s)) data) (snd (wr data s)))"

declare read_all.simps [simp del]
declare put_all.simps [simp del]

text \<open>The piece that is written last, when pieces of \<open>k\<close> bytes are.\<close>

definition last_piece :: "nat \<Rightarrow> 'a list \<Rightarrow> 'a list" where
  "last_piece k xs = drop (k * ((length xs - 1) div k)) xs"

lemma last_piece_short: "length xs \<le> k \<Longrightarrow> last_piece k xs = xs"
  by (cases xs) (simp_all add: last_piece_def)

lemma last_piece_long:
  assumes "0 < k" "k < length xs"
  shows "last_piece k xs = last_piece k (drop k xs)"
proof -
  have "(length xs - 1) div k = Suc ((length (drop k xs) - 1) div k)"
    using assms div_add_self1 [of k "length (drop k xs) - 1"] by simp
  then show ?thesis by (simp add: last_piece_def add.commute)
qed

locale byte_file =
  fixes content :: "'s \<Rightarrow> char list"
    and good :: "'s \<Rightarrow> bool"
    and rd :: "'s \<Rightarrow> nat \<Rightarrow> nat \<Rightarrow> char list"
    and wr :: "char list \<Rightarrow> 's \<Rightarrow> nat \<times> 's"
    and shape :: "char list \<Rightarrow> char list"
    and cap :: nat
  assumes cap_pos: "0 < cap"
    and rd_content: "good s \<Longrightarrow> rd s n off = take n (drop off (content s))"
    and wr_accepts: "good s \<Longrightarrow> fst (wr data s) = min cap (length data)"
    and wr_good: "good s \<Longrightarrow> good (snd (wr data s))"
    and wr_content: "good s \<Longrightarrow> content (snd (wr data s)) = shape (take cap data)"
begin

lemma read_all_content:
  assumes "good s" "0 < n"
  shows "read_all rd s n off = Some (drop off (content s))"
proof (induction "length (content s) - off" arbitrary: off rule: less_induct)
  case less
  have rd: "rd s n off = take n (drop off (content s))" by (rule rd_content [OF assms(1)])
  show ?case
  proof (cases "off < length (content s)")
    case True
    then have "read_all rd s n (off + length (rd s n off)) =
        Some (drop (off + length (rd s n off)) (content s))"
      using assms(2) by (intro less) (simp add: rd)
    moreover have "take n xs @ drop (off + min (length (content s) - off) n) (content s) = xs"
      if "xs = drop off (content s)" for xs
      using that append_take_drop_id [of n xs] by (auto simp: min_def add.commute)
    ultimately show ?thesis
      using True assms(2) by (subst read_all.simps) (simp add: rd Let_def)
  next
    case False
    then show ?thesis by (subst read_all.simps) (simp add: rd)
  qed
qed

text \<open>Everything is accepted in the end, and the last piece is what the file then holds.\<close>

lemma put_all_content:
  "good s \<Longrightarrow> data \<noteq> [] \<Longrightarrow>
   \<exists>s'. put_all wr data s = Some s' \<and> good s' \<and> content s' = shape (last_piece cap data)"
proof (induction data arbitrary: s rule: length_induct)
  case (1 data)
  have one: "put_all wr data s = put_all wr (drop cap data) (snd (wr data s))"
    using 1 by (subst put_all.simps) (auto simp: wr_accepts min_def)
  show ?case
  proof (cases "cap < length data")
    case True
    then have "\<exists>s'. put_all wr (drop cap data) (snd (wr data s)) = Some s' \<and> good s' \<and>
        content s' = shape (last_piece cap (drop cap data))"
      using 1 cap_pos wr_good by (intro "1.IH" [rule_format]) auto
    with one True cap_pos show ?thesis by (simp add: last_piece_long)
  next
    case False
    with one have "put_all wr data s = Some (snd (wr data s))" by (simp add: put_all.simps)
    with False "1.prems" show ?thesis by (simp add: wr_good wr_content last_piece_short)
  qed
qed

lemma write_read:
  assumes "good s" "data \<noteq> []" "0 < n"
  shows "\<exists>s'. put_all wr data s = Some s' \<and> read_all rd s' n 0 = Some (shape (last_piece cap data))"
  using put_all_content [OF assms(1,2)] read_all_content [OF _ assms(3), of _ 0] by auto

end

subsection \<open>Two processes on a shared state\<close>

text \<open>The states after \<open>n\<close> steps, taken by either process in any order; \<open>None\<close> is a process that waits
  or has ended.\<close>

inductive interleaved ::
  "('s \<Rightarrow> 's option) \<Rightarrow> ('s \<Rightarrow> 's option) \<Rightarrow> 's \<Rightarrow> nat \<Rightarrow> 's \<Rightarrow> bool" for f g s0 where
  none: "interleaved f g s0 0 s0"
| first: "interleaved f g s0 n s \<Longrightarrow> f s = Some s' \<Longrightarrow> interleaved f g s0 (Suc n) s'"
| second: "interleaved f g s0 n s \<Longrightarrow> g s = Some s' \<Longrightarrow> interleaved f g s0 (Suc n) s'"

definition stopped :: "('s \<Rightarrow> 's option) \<Rightarrow> ('s \<Rightarrow> 's option) \<Rightarrow> 's \<Rightarrow> bool" where
  "stopped f g s \<longleftrightarrow> f s = None \<and> g s = None"

text \<open>One order of steps, given by whose turn it is.\<close>

fun scheduled :: "('s \<Rightarrow> 's option) \<Rightarrow> ('s \<Rightarrow> 's option) \<Rightarrow> bool list \<Rightarrow> 's \<Rightarrow> 's option" where
  "scheduled f g [] s = Some s"
| "scheduled f g (b # bs) s =
     (case (if b then f s else g s) of None \<Rightarrow> None | Some s' \<Rightarrow> scheduled f g bs s')"

lemma scheduled_interleaved:
  "interleaved f g s0 n s \<Longrightarrow> scheduled f g bs s = Some s' \<Longrightarrow> interleaved f g s0 (n + length bs) s'"
proof (induction bs arbitrary: n s)
  case (Cons b bs)
  then obtain t where t: "(if b then f s else g s) = Some t" "scheduled f g bs t = Some s'"
    by (auto split: option.splits)
  then have "interleaved f g s0 (Suc n) t"
    using Cons.prems(1) by (cases b) (auto intro: interleaved.intros)
  from Cons.IH [OF this t(2)] show ?case by simp
qed simp

lemmas schedule_runs = scheduled_interleaved [OF none, simplified]

locale two_processes =
  fixes f g :: "'s \<Rightarrow> 's option"
    and inv :: "'s \<Rightarrow> bool"
    and steps_left :: "'s \<Rightarrow> nat"
    and final :: "'s \<Rightarrow> bool"
  assumes first_step: "inv s \<Longrightarrow> f s = Some s' \<Longrightarrow> inv s' \<and> steps_left s' < steps_left s"
    and second_step: "inv s \<Longrightarrow> g s = Some s' \<Longrightarrow> inv s' \<and> steps_left s' < steps_left s"
    and stops_final: "inv s \<Longrightarrow> stopped f g s \<Longrightarrow> final s"
begin

lemma interleaved_inv:
  "interleaved f g s0 n s \<Longrightarrow> inv s0 \<Longrightarrow> inv s \<and> n + steps_left s \<le> steps_left s0"
proof (induction rule: interleaved.induct)
  case (first n s s')
  with first_step [of s s'] show ?case by auto
next
  case (second n s s')
  with second_step [of s s'] show ?case by auto
qed simp

text \<open>Whatever the order, the run ends within \<open>steps_left s0\<close> steps, and only in a final state.\<close>

lemma runs_to_final:
  assumes "interleaved f g s0 n s" "inv s0"
  shows "inv s \<and> n \<le> steps_left s0 \<and> (stopped f g s \<longrightarrow> final s)"
  using interleaved_inv [OF assms] stops_final by auto

end

end
