(* ===== verification/Shm_Room.thy ===== *)
theory Shm_Room
  imports C_Text Interfaces
begin

text \<open>
  The chat room of lab-14 in shared memory: \<^verbatim>\<open>labs/lab-14/include/chat.h\<close> and
  \<^verbatim>\<open>labs/lab-14/src/chat_server.c\<close>.

  The record \<open>ChatRoom\<close> is the structure in the segment, array for array; the semaphore
  \<^verbatim>\<open>lock\<close> makes each operation below one atomic step.  A function that prints returns the
  lines it printed.  The abstract room (\<open>room_history\<close>, \<open>room_members\<close>, \<open>room_queue\<close>) is
  what the arrays mean; the lemmas show that every operation does on it what the chat promises.
\<close>

subsection \<open>The shared segment\<close>

definition MAX_NAME :: nat where "MAX_NAME = 64"
definition MAX_TEXT :: nat where "MAX_TEXT = 256"
definition CHAT_MAX_CLIENTS :: nat where "CHAT_MAX_CLIENTS = 16"
definition CHAT_MAX_MESSAGES :: nat where "CHAT_MAX_MESSAGES = 64"
definition CHAT_MAX_COMMANDS :: nat where "CHAT_MAX_COMMANDS = 32"
definition CHAT_LINE_LENGTH :: nat where "CHAT_LINE_LENGTH = MAX_NAME + MAX_TEXT + 8"

definition CHAT_CMD_JOIN :: int where "CHAT_CMD_JOIN = 1"
definition CHAT_CMD_TEXT :: int where "CHAT_CMD_TEXT = 2"
definition CHAT_CMD_LEAVE :: int where "CHAT_CMD_LEAVE = 3"

lemmas chat_sizes = MAX_NAME_def MAX_TEXT_def CHAT_MAX_CLIENTS_def CHAT_MAX_MESSAGES_def
  CHAT_MAX_COMMANDS_def CHAT_LINE_LENGTH_def

lemmas chat_commands = CHAT_CMD_JOIN_def CHAT_CMD_TEXT_def CHAT_CMD_LEAVE_def

record ChatUser =
  user_pid :: int
  user_name :: string

record ChatRequest =
  req_command :: int
  req_pid :: int
  req_name :: string
  req_text :: string

record ChatRoom =
  version :: "32 word"
  message_count :: nat
  messages :: "string list"
  users :: "ChatUser list"
  user_count :: nat
  commands :: "ChatRequest list"
  command_head :: nat
  command_tail :: nat
  command_count :: nat

text \<open>\<^verbatim>\<open>memset(g_room, 0, sizeof(*g_room))\<close>\<close>

definition zero_user :: ChatUser where
  "zero_user = \<lparr>user_pid = 0, user_name = []\<rparr>"

definition zero_request :: ChatRequest where
  "zero_request = \<lparr>req_command = 0, req_pid = 0, req_name = [], req_text = []\<rparr>"

definition zero_room :: ChatRoom where
  "zero_room = \<lparr>version = 0, message_count = 0, messages = replicate CHAT_MAX_MESSAGES [],
     users = replicate CHAT_MAX_CLIENTS zero_user, user_count = 0,
     commands = replicate CHAT_MAX_COMMANDS zero_request,
     command_head = 0, command_tail = 0, command_count = 0\<rparr>"

subsection \<open>Operations on the room\<close>

definition room_find_user :: "ChatRoom \<Rightarrow> int \<Rightarrow> int" where
  "room_find_user room pid =
     index_of (scan (\<lambda>u. user_pid u = pid) 0 (user_count room) (users room))"

definition room_add_message_locked :: "ChatRoom \<Rightarrow> string \<Rightarrow> ChatRoom" where
  "room_add_message_locked room text =
     (if message_count room < CHAT_MAX_MESSAGES then
        room\<lparr>messages := (messages room)[message_count room := fit CHAT_LINE_LENGTH text],
             message_count := Suc (message_count room)\<rparr>
      else
        room\<lparr>messages := (memmove_elems 0 1 (CHAT_MAX_MESSAGES - 1) (messages room))
                          [CHAT_MAX_MESSAGES - 1 := fit CHAT_LINE_LENGTH text]\<rparr>)"

definition room_add_user_locked :: "ChatRoom \<Rightarrow> int \<Rightarrow> string \<Rightarrow> ChatRoom" where
  "room_add_user_locked room pid name =
     (if user_count room \<ge> CHAT_MAX_CLIENTS then room
      else room\<lparr>users := (users room)[user_count room :=
                           \<lparr>user_pid = pid, user_name = fit MAX_NAME name\<rparr>],
                user_count := Suc (user_count room)\<rparr>)"

definition room_remove_user_locked :: "ChatRoom \<Rightarrow> int \<Rightarrow> ChatRoom" where
  "room_remove_user_locked room index =
     (if index < 0 \<or> index \<ge> int (user_count room) then room
      else
        let i = nat index;
            us = (if i < user_count room - 1
                  then memmove_elems i (Suc i) (user_count room - i - 1) (users room)
                  else users room);
            n = user_count room - 1
        in room\<lparr>users := us[n := \<lparr>user_pid = 0, user_name = []\<rparr>], user_count := n\<rparr>)"

definition room_pop_command_locked :: "ChatRoom \<Rightarrow> (ChatRequest \<times> ChatRoom) option" where
  "room_pop_command_locked room =
     (if command_count room = 0 then None
      else Some (commands room ! command_head room,
                 room\<lparr>command_head := (command_head room + 1) mod CHAT_MAX_COMMANDS,
                      command_count := command_count room - 1\<rparr>))"

definition room_process_join_locked :: "ChatRoom \<Rightarrow> ChatRequest \<Rightarrow> ChatRoom \<times> string list" where
  "room_process_join_locked room request =
     (let room1 = (if room_find_user room (req_pid request) = -1
                   then room_add_user_locked room (req_pid request) (req_name request)
                   else room);
          line = fit CHAT_LINE_LENGTH (req_name request @ '' joined the chat'');
          room2 = room_add_message_locked room1 line
      in (room2\<lparr>version := version room2 + 1\<rparr>, [line]))"

definition room_process_text_locked :: "ChatRoom \<Rightarrow> ChatRequest \<Rightarrow> ChatRoom \<times> string list" where
  "room_process_text_locked room request =
     (if req_text request = [] then (room, [])
      else
        let line = fit CHAT_LINE_LENGTH (req_name request @ '': '' @ req_text request);
            room1 = room_add_message_locked room line
        in (room1\<lparr>version := version room1 + 1\<rparr>, [line]))"

definition room_process_leave_locked :: "ChatRoom \<Rightarrow> ChatRequest \<Rightarrow> ChatRoom \<times> string list" where
  "room_process_leave_locked room request =
     (let index = room_find_user room (req_pid request)
      in if index = -1 then (room, [])
         else
           let line = fit CHAT_LINE_LENGTH
                        (user_name (users room ! nat index) @ '' left the chat'');
               room1 = room_remove_user_locked room index;
               room2 = room_add_message_locked room1 line
           in (room2\<lparr>version := version room2 + 1\<rparr>, [line]))"

definition room_process_command_locked :: "ChatRoom \<Rightarrow> ChatRequest \<Rightarrow> ChatRoom \<times> string list" where
  "room_process_command_locked room request =
     (if req_command request = CHAT_CMD_JOIN then room_process_join_locked room request
      else if req_command request = CHAT_CMD_TEXT then room_process_text_locked room request
      else if req_command request = CHAT_CMD_LEAVE then room_process_leave_locked room request
      else (room, []))"

subsection \<open>Creating and destroying the segment, the server loop\<close>

text \<open>
  The server's globals.  The results of the system calls are arguments: a failed call is -1, and
  \<^verbatim>\<open>mmap\<close> failing is \<open>False\<close>.  What remains in the system is the trace of calls made.
\<close>

datatype sys_call = Shm_open int | Ftruncate int | Mmap bool | Sem_init int | Perror string
  | Sem_destroy | Munmap | Close int | Shm_unlink | Printf string

record server =
  g_running :: bool
  g_shm_fd :: int
  g_room :: "ChatRoom option"

record create_results =
  res_shm_open :: int
  res_ftruncate :: int
  res_mmap :: bool
  res_sem_init :: int

definition room_create :: "create_results \<Rightarrow> server \<Rightarrow> int \<times> server \<times> sys_call list" where
  "room_create res s =
     (let fd = res_shm_open res; s1 = s\<lparr>g_shm_fd := fd\<rparr>
      in if fd = -1 then (-1, s1, [Shm_open fd, Perror ''shm_open''])
         else if res_ftruncate res = -1 then
           (-1, s1, [Shm_open fd, Ftruncate (-1), Perror ''ftruncate''])
         else if \<not> res_mmap res then
           (-1, s1\<lparr>g_room := None\<rparr>,
            [Shm_open fd, Ftruncate (res_ftruncate res), Mmap False, Perror ''mmap''])
         else if res_sem_init res = -1 then
           (-1, s1\<lparr>g_room := Some zero_room\<rparr>,
            [Shm_open fd, Ftruncate (res_ftruncate res), Mmap True, Sem_init (-1), Perror ''sem_init''])
         else
           (0, s1\<lparr>g_room := Some zero_room\<rparr>,
            [Shm_open fd, Ftruncate (res_ftruncate res), Mmap True, Sem_init (res_sem_init res)]))"

definition room_destroy :: "server \<Rightarrow> server \<times> sys_call list" where
  "room_destroy s =
     (let (s1, t1) = (if g_room s \<noteq> None then (s\<lparr>g_room := None\<rparr>, [Sem_destroy, Munmap])
                      else (s, []));
          (s2, t2) = (if g_shm_fd s1 \<noteq> -1 then (s1\<lparr>g_shm_fd := -1\<rparr>, [Close (g_shm_fd s1)])
                      else (s1, []))
      in (s2, t1 @ t2 @ [Shm_unlink]))"

datatype sem_result = Sem_ok | Sem_eintr | Sem_error

text \<open>
  One pass of the loop body on a mapped room: the new room, the calls made, whether the loop
  is left by \<^verbatim>\<open>break\<close>.  When nothing was processed the loop sleeps 100 ms, which changes no
  state.
\<close>

definition server_pass :: "sem_result \<Rightarrow> ChatRoom \<Rightarrow> ChatRoom \<times> sys_call list \<times> bool" where
  "server_pass lock room =
     (case lock of
        Sem_eintr \<Rightarrow> (room, [], False)
      | Sem_error \<Rightarrow> (room, [Perror ''sem_wait''], True)
      | Sem_ok \<Rightarrow>
          (case room_pop_command_locked room of
             None \<Rightarrow> (room, [], False)
           | Some (request, room1) \<Rightarrow>
               (case room_process_command_locked room1 request of
                  (room2, out) \<Rightarrow> (room2, map Printf out, False))))"

text \<open>The loop, with one entry per pass: whether \<^verbatim>\<open>g_running\<close> still holds, and the result of
  \<^verbatim>\<open>sem_wait\<close>.  The list ends the observation, not the program.\<close>

fun server_loop :: "(bool \<times> sem_result) list \<Rightarrow> ChatRoom \<Rightarrow> ChatRoom \<times> sys_call list" where
  "server_loop [] room = (room, [])"
| "server_loop ((running, lock) # ps) room =
     (if \<not> running then (room, [])
      else (case server_pass lock room of
              (room1, out, stop) \<Rightarrow>
                if stop then (room1, out)
                else (case server_loop ps room1 of (room2, out2) \<Rightarrow> (room2, out @ out2))))"

definition server_main ::
  "create_results \<Rightarrow> (bool \<times> sem_result) list \<Rightarrow> int \<times> server \<times> sys_call list" where
  "server_main res ps =
     (let s0 = \<lparr>g_running = True, g_shm_fd = -1, g_room = None\<rparr>;
          (r, s1, t1) = room_create res s0
      in if r = -1 then
           (case room_destroy s1 of (s2, t2) \<Rightarrow> (1, s2, Shm_unlink # t1 @ t2))
         else
           (case server_loop ps (the (g_room s1)) of
              (room, out) \<Rightarrow>
                (case room_destroy (s1\<lparr>g_room := Some room\<rparr>) of
                   (s2, t2) \<Rightarrow>
                     (0, s2, Shm_unlink # t1 @ [Printf ''Chat server started. Press Ctrl+C to stop.'']
                               @ out @ t2))))"

subsection \<open>What the arrays mean\<close>

definition room_history :: "ChatRoom \<Rightarrow> string list" where
  "room_history r = take (message_count r) (messages r)"

definition room_members :: "ChatRoom \<Rightarrow> ChatUser list" where
  "room_members r = take (user_count r) (users r)"

definition room_queue :: "ChatRoom \<Rightarrow> ChatRequest list" where
  "room_queue r = ring_contents CHAT_MAX_COMMANDS (commands r) (command_head r) (command_count r)"

definition ring_ok :: "ChatRoom \<Rightarrow> bool" where
  "ring_ok r \<longleftrightarrow> length (commands r) = CHAT_MAX_COMMANDS \<and> command_count r \<le> CHAT_MAX_COMMANDS \<and>
     command_head r < CHAT_MAX_COMMANDS \<and>
     command_tail r = (command_head r + command_count r) mod CHAT_MAX_COMMANDS"

definition history_ok :: "ChatRoom \<Rightarrow> bool" where
  "history_ok r \<longleftrightarrow> length (messages r) = CHAT_MAX_MESSAGES \<and> message_count r \<le> CHAT_MAX_MESSAGES \<and>
     (\<forall>m \<in> set (room_history r). length m < CHAT_LINE_LENGTH)"

definition members_ok :: "ChatRoom \<Rightarrow> bool" where
  "members_ok r \<longleftrightarrow> length (users r) = CHAT_MAX_CLIENTS \<and> user_count r \<le> CHAT_MAX_CLIENTS \<and>
     distinct (map user_pid (room_members r)) \<and>
     (\<forall>u \<in> set (room_members r). length (user_name u) < MAX_NAME)"

definition room_ok :: "ChatRoom \<Rightarrow> bool" where
  "room_ok r \<longleftrightarrow> ring_ok r \<and> history_ok r \<and> members_ok r"

lemmas room_abs = room_history_def room_members_def room_queue_def

lemma room_ok_zero [simp]: "room_ok zero_room"
  by (simp add: room_ok_def ring_ok_def history_ok_def members_ok_def room_abs zero_room_def chat_sizes)

lemma zero_room_abs [simp]:
  "room_history zero_room = []" "room_members zero_room = []" "room_queue zero_room = []"
  by (simp_all add: room_abs zero_room_def)

lemma room_okD:
  assumes "room_ok r"
  shows "length (messages r) = 64" "message_count r \<le> 64" "length (users r) = 16"
    "user_count r \<le> 16" "length (commands r) = 32" "command_count r \<le> 32"
    "distinct (map user_pid (room_members r))" "length (room_members r) = user_count r"
    "length (room_history r) = message_count r"
  using assms by (auto simp: room_ok_def ring_ok_def history_ok_def members_ok_def room_abs chat_sizes)

text \<open>Each part of the state is untouched by the operations on the others.\<close>

lemma add_message_frame [simp]:
  "room_members (room_add_message_locked r t) = room_members r"
  "room_queue (room_add_message_locked r t) = room_queue r"
  "ring_ok (room_add_message_locked r t) = ring_ok r"
  "members_ok (room_add_message_locked r t) = members_ok r"
  "version (room_add_message_locked r t) = version r"
  by (simp_all add: room_add_message_locked_def room_abs ring_ok_def members_ok_def)

lemma add_user_frame [simp]:
  "room_history (room_add_user_locked r p n) = room_history r"
  "room_queue (room_add_user_locked r p n) = room_queue r"
  "ring_ok (room_add_user_locked r p n) = ring_ok r"
  "history_ok (room_add_user_locked r p n) = history_ok r"
  "version (room_add_user_locked r p n) = version r"
  by (simp_all add: room_add_user_locked_def room_abs ring_ok_def history_ok_def)

lemma remove_user_frame [simp]:
  "room_history (room_remove_user_locked r i) = room_history r"
  "room_queue (room_remove_user_locked r i) = room_queue r"
  "ring_ok (room_remove_user_locked r i) = ring_ok r"
  "history_ok (room_remove_user_locked r i) = history_ok r"
  "version (room_remove_user_locked r i) = version r"
  by (simp_all add: room_remove_user_locked_def room_abs ring_ok_def history_ok_def Let_def)

lemma version_frame [simp]:
  "room_history (r\<lparr>version := v\<rparr>) = room_history r"
  "room_members (r\<lparr>version := v\<rparr>) = room_members r"
  "room_queue (r\<lparr>version := v\<rparr>) = room_queue r"
  "room_ok (r\<lparr>version := v\<rparr>) = room_ok r"
  by (simp_all add: room_abs room_ok_def ring_ok_def history_ok_def members_ok_def)

lemma add_message_history [simp]:
  assumes "room_ok r"
  shows "room_history (room_add_message_locked r t) =
    push_capped CHAT_MAX_MESSAGES (fit CHAT_LINE_LENGTH t) (room_history r)"
proof (cases "message_count r < CHAT_MAX_MESSAGES")
  case True
  with room_okD [OF assms] show ?thesis
    by (simp add: room_add_message_locked_def room_history_def push_capped_def take_append_slot
      CHAT_MAX_MESSAGES_def)
next
  case False
  with room_okD [OF assms] have c: "message_count r = 64" "length (messages r) = 64"
    by (simp_all add: CHAT_MAX_MESSAGES_def)
  with memmove_history [OF c(2)] show ?thesis
    by (simp add: room_add_message_locked_def room_history_def push_capped_def CHAT_MAX_MESSAGES_def)
qed

lemma add_message_ok [simp]:
  assumes "room_ok r"
  shows "room_ok (room_add_message_locked r t)"
proof -
  let ?r = "room_add_message_locked r t"
  have "length (messages ?r) = CHAT_MAX_MESSAGES \<and> message_count ?r \<le> CHAT_MAX_MESSAGES"
    using room_okD [OF assms] by (simp add: room_add_message_locked_def CHAT_MAX_MESSAGES_def)
  moreover have "\<forall>m \<in> set (room_history ?r). length m < CHAT_LINE_LENGTH"
  proof
    fix m assume "m \<in> set (room_history ?r)"
    then have "m = fit CHAT_LINE_LENGTH t \<or> m \<in> set (room_history r)"
      using set_push_capped assms by fastforce
    then show "length m < CHAT_LINE_LENGTH"
      using assms by (auto simp: room_ok_def history_ok_def intro: length_fit_less) (simp add: length_fit_less chat_sizes)
  qed
  ultimately show ?thesis using assms by (simp add: room_ok_def history_ok_def)
qed

lemma find_user_absent:
  assumes "room_ok r"
  shows "room_find_user r p = -1 \<longleftrightarrow> p \<notin> user_pid ` set (room_members r)"
proof -
  have "user_count r \<le> length (users r)" using room_okD [OF assms] by simp
  from scan_None_set [OF this] show ?thesis
    by (auto simp: room_find_user_def room_members_def)
qed

lemma find_user_present:
  assumes "room_ok r" "room_find_user r p \<noteq> -1"
  shows "\<exists>i < user_count r. room_find_user r p = int i \<and> i < length (room_members r) \<and>
    room_members r ! i = users r ! i \<and> user_pid (users r ! i) = p"
proof -
  from assms(2) obtain i where i: "scan (\<lambda>u. user_pid u = p) 0 (user_count r) (users r) = Some i"
    by (auto simp: room_find_user_def)
  from scan_SomeD [OF i] room_okD [OF assms(1)] i show ?thesis
    by (auto simp: room_find_user_def room_members_def)
qed

lemma add_user_members [simp]:
  assumes "room_ok r"
  shows "room_members (room_add_user_locked r p n) =
    (if user_count r < CHAT_MAX_CLIENTS
     then room_members r @ [\<lparr>user_pid = p, user_name = fit MAX_NAME n\<rparr>] else room_members r)"
  using room_okD [OF assms]
  by (simp add: room_add_user_locked_def room_members_def CHAT_MAX_CLIENTS_def take_append_slot)

lemma add_user_ok:
  assumes "room_ok r" "p \<notin> user_pid ` set (room_members r)"
  shows "room_ok (room_add_user_locked r p n)"
proof -
  let ?r = "room_add_user_locked r p n"
  have "length (users ?r) = CHAT_MAX_CLIENTS \<and> user_count ?r \<le> CHAT_MAX_CLIENTS"
    using room_okD [OF assms(1)] by (simp add: room_add_user_locked_def CHAT_MAX_CLIENTS_def)
  moreover have "distinct (map user_pid (room_members ?r))"
    using assms room_okD(7) [OF assms(1)] by auto
  moreover have "\<forall>u \<in> set (room_members ?r). length (user_name u) < MAX_NAME"
    using assms(1) by (auto simp: room_ok_def members_ok_def length_fit_less MAX_NAME_def)
  ultimately show ?thesis using assms(1) by (simp add: room_ok_def members_ok_def)
qed

lemma remove_user_members [simp]:
  assumes "room_ok r" "i < user_count r"
  shows "room_members (room_remove_user_locked r (int i)) = remove_nth i (room_members r)"
proof -
  note len = room_okD [OF assms(1)]
  let ?n = "user_count r"
  have "take (?n - 1) (if i < ?n - 1 then memmove_elems i (Suc i) (?n - i - 1) (users r) else users r)
      = remove_nth i (take ?n (users r))"
  proof (cases "i < ?n - 1")
    case True
    with take_memmove_gap [OF assms(2), of "users r"] len show ?thesis by simp
  next
    case False
    with assms(2) have "i = ?n - 1" by simp
    with assms(2) len show ?thesis by (simp add: remove_nth_def)
  qed
  then show ?thesis using assms(2) len
    by (simp add: room_remove_user_locked_def room_members_def Let_def)
qed

lemma remove_user_ok [simp]:
  assumes "room_ok r" "i < user_count r"
  shows "room_ok (room_remove_user_locked r (int i))"
proof -
  let ?r = "room_remove_user_locked r (int i)"
  note len = room_okD [OF assms(1)]
  have "length (users ?r) = CHAT_MAX_CLIENTS \<and> user_count ?r \<le> CHAT_MAX_CLIENTS"
    using len assms(2) by (auto simp: room_remove_user_locked_def CHAT_MAX_CLIENTS_def Let_def)
  moreover have "distinct (map user_pid (room_members ?r))"
    using assms len(7) by (simp add: remove_nth_map)
  moreover have "\<forall>u \<in> set (room_members ?r). length (user_name u) < MAX_NAME"
    using assms set_remove_nth_subset [of i "room_members r"]
    by (auto simp: room_ok_def members_ok_def)
  ultimately show ?thesis using assms(1) by (simp add: room_ok_def members_ok_def)
qed

lemma remove_user_filter:
  assumes "room_ok r" "i < user_count r" "user_pid (users r ! i) = p"
  shows "room_members (room_remove_user_locked r (int i)) =
    filter (\<lambda>u. user_pid u \<noteq> p) (room_members r)"
proof -
  note len = room_okD [OF assms(1)]
  have "user_pid (room_members r ! i) = p" using assms(2,3) by (simp add: room_members_def)
  with remove_nth_filter [of user_pid "room_members r" i] len assms(2)
  show ?thesis by (simp add: assms(1,2))
qed

subsection \<open>The queue of commands\<close>

lemma pop_empty: "room_pop_command_locked r = None \<longleftrightarrow> room_queue r = []"
  by (simp add: room_pop_command_locked_def room_queue_def ring_contents_def)

lemma pop_next:
  assumes "room_ok r" "room_pop_command_locked r = Some (q, r')"
  shows "room_queue r = q # room_queue r'" "room_ok r'" "room_history r' = room_history r"
    "room_members r' = room_members r" "version r' = version r"
proof -
  have r': "r' = r\<lparr>command_head := (command_head r + 1) mod CHAT_MAX_COMMANDS,
       command_count := command_count r - 1\<rparr>" and q: "q = commands r ! command_head r"
    and c: "0 < command_count r"
    using assms(2) by (auto simp: room_pop_command_locked_def split: if_splits)
  have ring: "ring_ok r" using assms(1) by (simp add: room_ok_def)
  show "room_queue r = q # room_queue r'"
    using ring_contents_pop [of "command_head r" CHAT_MAX_COMMANDS "command_count r" "commands r"]
      ring c by (simp add: room_queue_def r' q ring_ok_def)
  have "ring_ok r'"
    using ring ring_head_step [of "command_tail r" "command_head r" "command_count r"] c
    by (auto simp: ring_ok_def r' CHAT_MAX_COMMANDS_def)
  then show "room_ok r'"
    using assms(1) by (simp add: room_ok_def history_ok_def members_ok_def room_abs r')
  show "room_history r' = room_history r" "room_members r' = room_members r" "version r' = version r"
    by (simp_all add: room_abs r')
qed

subsection \<open>What a command does to the room, abstractly\<close>

text \<open>
  The chat as its users see it: the last 64 lines, the members in the order they joined.  A
  join admits a new pid while there are fewer than 16 members and is announced in any case; an
  empty text and the leave of a stranger do nothing.
\<close>

type_synonym chat = "string list \<times> ChatUser list"

definition announce :: "string \<Rightarrow> chat \<Rightarrow> chat" where
  "announce line c = (push_capped CHAT_MAX_MESSAGES line (fst c), snd c)"

definition admit :: "int \<Rightarrow> string \<Rightarrow> ChatUser list \<Rightarrow> ChatUser list" where
  "admit pid name us =
     (if pid \<in> user_pid ` set us \<or> CHAT_MAX_CLIENTS \<le> length us then us
      else us @ [\<lparr>user_pid = pid, user_name = fit MAX_NAME name\<rparr>])"

definition lines_of :: "ChatRequest \<Rightarrow> ChatUser list \<Rightarrow> string list" where
  "lines_of req us =
     (if req_command req = CHAT_CMD_JOIN
      then [fit CHAT_LINE_LENGTH (req_name req @ '' joined the chat'')]
      else if req_command req = CHAT_CMD_TEXT \<and> req_text req \<noteq> []
      then [fit CHAT_LINE_LENGTH (req_name req @ '': '' @ req_text req)]
      else if req_command req = CHAT_CMD_LEAVE
      then map (\<lambda>u. fit CHAT_LINE_LENGTH (user_name u @ '' left the chat''))
             (filter (\<lambda>u. user_pid u = req_pid req) us)
      else [])"

definition members_after :: "ChatRequest \<Rightarrow> ChatUser list \<Rightarrow> ChatUser list" where
  "members_after req us =
     (if req_command req = CHAT_CMD_JOIN then admit (req_pid req) (req_name req) us
      else if req_command req = CHAT_CMD_LEAVE then filter (\<lambda>u. user_pid u \<noteq> req_pid req) us
      else us)"

definition chat_spec :: "ChatRequest \<Rightarrow> chat \<Rightarrow> chat" where
  "chat_spec req c =
     (fold (push_capped CHAT_MAX_MESSAGES) (lines_of req (snd c)) (fst c), members_after req (snd c))"

lemma lines_of_leave:
  assumes "room_ok r" "room_find_user r (req_pid q) = int i" "i < length (room_members r)"
    "user_pid (room_members r ! i) = req_pid q"
  shows "map (\<lambda>u. fit CHAT_LINE_LENGTH (user_name u @ '' left the chat''))
      (filter (\<lambda>u. user_pid u = req_pid q) (room_members r)) =
    [fit CHAT_LINE_LENGTH (user_name (room_members r ! i) @ '' left the chat'')]"
  using filter_unique [OF room_okD(7) [OF assms(1)] assms(3)] assms(4) by simp

lemma process_join:
  assumes "room_ok r" "req_command q = CHAT_CMD_JOIN"
    "room_process_join_locked r q = (r', out)"
  shows "room_ok r' \<and> room_queue r' = room_queue r \<and> out = lines_of q (room_members r) \<and>
    (room_history r', room_members r') = chat_spec q (room_history r, room_members r) \<and>
    version r' = version r + of_nat (length out)"
proof (cases "room_find_user r (req_pid q) = -1")
  case True
  then have p: "req_pid q \<notin> user_pid ` set (room_members r)"
    using find_user_absent [OF assms(1)] by simp
  show ?thesis using assms True p room_okD [OF assms(1)] add_user_ok [OF assms(1) p]
    by (auto simp: room_process_join_locked_def chat_spec_def lines_of_def members_after_def admit_def
      Let_def chat_commands)
next
  case False
  then have p: "req_pid q \<in> user_pid ` set (room_members r)"
    using find_user_absent [OF assms(1)] by simp
  show ?thesis using assms False p
    by (auto simp: room_process_join_locked_def chat_spec_def lines_of_def members_after_def admit_def
      Let_def chat_commands)
qed

lemma process_text:
  assumes "room_ok r" "req_command q = CHAT_CMD_TEXT"
    "room_process_text_locked r q = (r', out)"
  shows "room_ok r' \<and> room_queue r' = room_queue r \<and> out = lines_of q (room_members r) \<and>
    (room_history r', room_members r') = chat_spec q (room_history r, room_members r) \<and>
    version r' = version r + of_nat (length out)"
  using assms
  by (auto simp: room_process_text_locked_def chat_spec_def lines_of_def members_after_def
      Let_def chat_commands split: if_splits)

lemma process_leave:
  assumes "room_ok r" "req_command q = CHAT_CMD_LEAVE"
    "room_process_leave_locked r q = (r', out)"
  shows "room_ok r' \<and> room_queue r' = room_queue r \<and> out = lines_of q (room_members r) \<and>
    (room_history r', room_members r') = chat_spec q (room_history r, room_members r) \<and>
    version r' = version r + of_nat (length out)"
proof (cases "room_find_user r (req_pid q) = -1")
  case True
  then have "req_pid q \<notin> user_pid ` set (room_members r)"
    using find_user_absent [OF assms(1)] by simp
  then have "filter (\<lambda>u. user_pid u \<noteq> req_pid q) (room_members r) = room_members r"
    "filter (\<lambda>u. user_pid u = req_pid q) (room_members r) = []"
    by (auto simp: filter_id_conv filter_empty_conv intro: rev_image_eqI)
  with assms True show ?thesis
    by (auto simp: room_process_leave_locked_def chat_spec_def lines_of_def members_after_def
      Let_def chat_commands)
next
  case False
  from find_user_present [OF assms(1) False] obtain i where
    i: "i < user_count r" "room_find_user r (req_pid q) = int i" "i < length (room_members r)"
      "room_members r ! i = users r ! i" "user_pid (users r ! i) = req_pid q" by blast
  have lines: "lines_of q (room_members r) =
      [fit CHAT_LINE_LENGTH (user_name (users r ! i) @ '' left the chat'')]"
    using lines_of_leave [OF assms(1) i(2,3)] i(4,5) assms(2) by (simp add: lines_of_def chat_commands)
  note members = remove_user_filter [OF assms(1) i(1,5)]
  show ?thesis using assms i(1,2)
    by (auto simp: room_process_leave_locked_def chat_spec_def members_after_def lines
      members [symmetric] Let_def chat_commands)
qed

lemma process_command:
  assumes "room_ok r" "room_process_command_locked r q = (r', out)"
  shows "room_ok r' \<and> room_queue r' = room_queue r \<and> out = lines_of q (room_members r) \<and>
    (room_history r', room_members r') = chat_spec q (room_history r, room_members r) \<and>
    version r' = version r + of_nat (length out)"
proof -
  consider "req_command q = CHAT_CMD_JOIN" | "req_command q = CHAT_CMD_TEXT"
    | "req_command q = CHAT_CMD_LEAVE"
    | "req_command q \<noteq> CHAT_CMD_JOIN" "req_command q \<noteq> CHAT_CMD_TEXT" "req_command q \<noteq> CHAT_CMD_LEAVE"
    by blast
  then show ?thesis
  proof cases
    case 1
    with assms(2) have "room_process_join_locked r q = (r', out)"
      by (simp add: room_process_command_locked_def)
    with process_join assms(1) 1 show ?thesis by blast
  next
    case 2
    with assms(2) have "room_process_text_locked r q = (r', out)"
      by (simp add: room_process_command_locked_def chat_commands)
    with process_text assms(1) 2 show ?thesis by blast
  next
    case 3
    with assms(2) have "room_process_leave_locked r q = (r', out)"
      by (simp add: room_process_command_locked_def chat_commands)
    with process_leave assms(1) 3 show ?thesis by blast
  next
    case 4
    with assms show ?thesis
      by (auto simp: room_process_command_locked_def chat_spec_def lines_of_def members_after_def)
  qed
qed

end
