(* ===== verification/Chat_Ui.thy ===== *)
theory Chat_Ui
  imports C_Text
begin

text \<open>
  The ncurses screen of the chat clients: \<^verbatim>\<open>labs/lab-14/src/chat_ui.c\<close>, of which
  \<^verbatim>\<open>labs/lab-13/src/chat_ui.c\<close> is an identical copy.

  ncurses is outside the repository: what the code asks of it is the list of calls
  (\<open>ui_call\<close>), what it answers (screen size, whether a window could be made, the line typed)
  are arguments.  The input mode the calls leave the terminal in is the record \<open>ui_mode\<close>.
\<close>

record curses_keys =
  key_err :: int
  key_enter :: int
  key_f10 :: int
  key_backspace :: int

text \<open>The keys of ncurses lie outside the characters and differ from newline.\<close>

definition good_keys :: "curses_keys \<Rightarrow> bool" where
  "good_keys K \<longleftrightarrow> key_err K < 0 \<and> 255 < key_enter K \<and> 255 < key_f10 K \<and> 255 < key_backspace K"

record ui_mode =
  ui_cbreak :: bool
  ui_echo :: bool
  ui_keypad :: bool
  ui_cursor :: int
  ui_timeout :: int

datatype window = Messages_win | Users_win | Input_win

datatype ui_call = Erase | Box | Mvprintw int int string | Move_to int int | Refresh
  | Newwin window int int int int | Delwin window | Werase window | Wbox window
  | Mvwprintw window int int string | Wrefresh window | Endwin | Complain string

definition chat_ui_init :: "bool \<Rightarrow> ui_mode \<Rightarrow> int \<times> ui_mode \<times> ui_call list" where
  "chat_ui_init screen m =
     (if \<not> screen then (-1, m, [Complain ''Failed to initialize ncurses''])
      else (0, m\<lparr>ui_cbreak := True, ui_echo := False, ui_keypad := True, ui_cursor := 1,
                 ui_timeout := 100\<rparr>, []))"

definition chat_ui_shutdown :: "bool \<Rightarrow> ui_call list" where
  "chat_ui_shutdown has_stdscr = (if has_stdscr then [Endwin] else [])"

text \<open>The name the user typed (\<open>None\<close> for \<^verbatim>\<open>ERR\<close>), at most \<open>n - 1\<close> characters of it.\<close>

definition chat_ui_prompt_name ::
  "nat \<Rightarrow> int \<Rightarrow> string option \<Rightarrow> ui_mode \<Rightarrow> int \<times> string \<times> ui_mode \<times> ui_call list" where
  "chat_ui_prompt_name n default_pid typed m =
     (let m1 = m\<lparr>ui_echo := True, ui_cursor := 1, ui_timeout := -1\<rparr>;
          calls = [Erase, Box, Mvprintw 1 2 ''Chat client'', Mvprintw 3 2 ''Enter your name: '',
                   Mvprintw 5 2 ''Press Enter to continue'', Move_to 3 20, Refresh];
          m2 = m1\<lparr>ui_echo := False, ui_timeout := 100\<rparr>
      in case typed of
           None \<Rightarrow> (-1, [], m2, calls)
         | Some s \<Rightarrow>
             let name = cut_newline (take (n - 1) s)
             in (0, if name = [] then fit n (''user_'' @ show_int default_pid) else name, m2, calls))"

text \<open>The rows of text inside a window: \<^verbatim>\<open>mvwprintw(win, 1 + i, 2, "%.*s", width - 4, ...)\<close>.\<close>

fun draw_lines :: "window \<Rightarrow> int \<Rightarrow> nat \<Rightarrow> int \<Rightarrow> string list \<Rightarrow> ui_call list" where
  "draw_lines w limit i width [] = []"
| "draw_lines w limit i width (l # ls) =
     (if int i < limit
      then Mvwprintw w (1 + int i) 2 (take (nat (width - 4)) l) # draw_lines w limit (Suc i) width ls
      else [])"

definition users_width_of :: "int \<Rightarrow> int" where
  "users_width_of cols =
     (let w = cols div 4; w1 = (if w < 18 then 18 else w) in if w1 > 30 then 30 else w1)"

definition chat_ui_draw ::
  "int \<Rightarrow> int \<Rightarrow> (window \<Rightarrow> bool) \<Rightarrow> string \<Rightarrow> string \<Rightarrow> string list \<Rightarrow> string list \<Rightarrow> ui_call list" where
  "chat_ui_draw rows cols made name input messages users =
     (if rows < 8 \<or> cols < 50 then
        [Erase, Mvprintw 0 0 ''Terminal window is too small for ncurses chat'',
         Mvprintw 1 0 ''Resize the terminal and try again'', Refresh]
      else
        let top_height = rows - 4;
            users_width = users_width_of cols;
            messages_width = cols - users_width;
            creation =
              (if made Messages_win then [Newwin Messages_win top_height messages_width 0 0] else []) @
              (if made Users_win then [Newwin Users_win top_height users_width 0 messages_width] else []) @
              (if made Input_win then [Newwin Input_win 4 cols top_height 0] else [])
        in if \<not> made Messages_win \<or> \<not> made Users_win \<or> \<not> made Input_win then
             creation @
             (if made Messages_win then [Delwin Messages_win] else []) @
             (if made Users_win then [Delwin Users_win] else []) @
             (if made Input_win then [Delwin Input_win] else [])
           else
             creation @
             [Werase Messages_win, Werase Users_win, Werase Input_win,
              Wbox Messages_win, Wbox Users_win, Wbox Input_win,
              Mvwprintw Messages_win 0 2 '' Messages '', Mvwprintw Users_win 0 2 '' Users '',
              Mvwprintw Input_win 0 2 '' Input '', Mvwprintw Input_win 1 2 (name @ ''> '' @ input),
              Mvwprintw Input_win 2 2 ''Enter - send, /exit - quit''] @
             draw_lines Messages_win (top_height - 2) 0 messages_width messages @
             draw_lines Users_win (top_height - 2) 0 users_width users @
             [Wrefresh Messages_win, Wrefresh Users_win, Wrefresh Input_win,
              Move_to (top_height + 1) (int (length name) + 4 + int (length input)), Refresh,
              Delwin Messages_win, Delwin Users_win, Delwin Input_win])"

subsection \<open>What is drawn\<close>

fun windows_open :: "ui_call list \<Rightarrow> window list \<Rightarrow> window list option" where
  "windows_open [] ws = Some ws"
| "windows_open (Newwin w h wd y x # cs) ws =
     (if w \<in> set ws then None else windows_open cs (w # ws))"
| "windows_open (Delwin w # cs) ws =
     (if w \<in> set ws then windows_open cs (remove1 w ws) else None)"
| "windows_open (Mvwprintw w r c s # cs) ws = (if w \<in> set ws then windows_open cs ws else None)"
| "windows_open (Werase w # cs) ws = (if w \<in> set ws then windows_open cs ws else None)"
| "windows_open (Wbox w # cs) ws = (if w \<in> set ws then windows_open cs ws else None)"
| "windows_open (Wrefresh w # cs) ws = (if w \<in> set ws then windows_open cs ws else None)"
| "windows_open (c # cs) ws = windows_open cs ws"

text \<open>The text rows of a window, from row 1 on.\<close>

fun rows_of :: "window \<Rightarrow> ui_call list \<Rightarrow> (int \<times> string) list" where
  "rows_of w [] = []"
| "rows_of w (Mvwprintw v r c s # cs) = (if v = w \<and> 0 < r then [(r, s)] else []) @ rows_of w cs"
| "rows_of w (c # cs) = rows_of w cs"

lemma rows_of_append [simp]: "rows_of w (cs @ ds) = rows_of w cs @ rows_of w ds"
  by (induction w cs rule: rows_of.induct) auto

lemma rows_of_draw_lines [simp]:
  "rows_of w (draw_lines v limit i width ls) =
     (if v = w then zip (map int [Suc i..<Suc (nat limit)])
        (map (take (nat (width - 4))) (take (nat limit - i) ls)) else [])"
proof (induction v limit i width ls rule: draw_lines.induct)
  case (2 v limit i width l ls)
  show ?case
  proof (cases "int i < limit")
    case True
    then have "[Suc i..<Suc (nat limit)] = Suc i # [Suc (Suc i)..<Suc (nat limit)]"
      and "nat limit - i = Suc (nat limit - Suc i)"
      by (auto simp: upt_conv_Cons)
    with True 2 show ?thesis by simp
  qed simp
qed simp

lemma windows_open_draw_lines:
  "w \<in> set ws \<Longrightarrow> windows_open (draw_lines w limit i width ls @ cs) ws = windows_open cs ws"
  by (induction w limit i width ls rule: draw_lines.induct) auto

subsection \<open>Properties of the screen\<close>

text \<open>
  Whatever windows ncurses can or cannot make, drawing uses only windows that
  exist, makes none twice and deletes every one it made: nothing is left over for the next frame.
\<close>

theorem ui_draw_frees_windows:
  "windows_open (chat_ui_draw rows cols made name input messages users) [] = Some []"
  by (simp add: chat_ui_draw_def Let_def windows_open_draw_lines)

text \<open>
  With all windows made, the message pane shows the first \<open>rows - 6\<close> of the
  messages, one per row from row 1 and cut to fit between the borders: when more messages are
  kept than that, it is the newest that do not appear.
\<close>

theorem ui_shows_oldest_messages:
  assumes "8 \<le> rows" "50 \<le> cols" "made Messages_win" "made Users_win" "made Input_win"
  shows "rows_of Messages_win (chat_ui_draw rows cols made name input messages users) =
    zip (map int [1..<nat (rows - 5)])
      (map (take (nat (cols - users_width_of cols - 4))) (take (nat (rows - 6)) messages))"
proof -
  have "Suc (nat (rows - 6)) = nat (rows - 5)" using assms(1) by linarith
  with assms show ?thesis by (simp add: chat_ui_draw_def Let_def)
qed

theorem ui_shows_oldest_messages_witness:
  "rows_of Messages_win (chat_ui_draw 8 50 (\<lambda>w. True) ''me'' [] [''one'', ''two'', ''three''] []) =
     [(1, ''one''), (2, ''two'')]"
  using ui_shows_oldest_messages [of 8 50 "\<lambda>w. True" "''me''" "[]" "[''one'', ''two'', ''three'']" "[]"]
  by (simp add: users_width_of_def upt_rec)

text \<open>
  The name prompt leaves the terminal without echo and with the 100 ms timeout on
  both paths; a name it returns is not empty, fits the buffer and has no newline, whatever was
  typed.
\<close>

theorem ui_prompt_name_ok:
  "case chat_ui_prompt_name 64 pid typed m of
     (r, name, m1, calls) \<Rightarrow>
       \<not> ui_echo m1 \<and> ui_timeout m1 = 100 \<and>
       (if typed = None then r = -1
        else r = 0 \<and> name \<noteq> [] \<and> length name < 64 \<and> CHR 0x0A \<notin> set name)"
proof (cases typed)
  case None
  then show ?thesis by (simp add: chat_ui_prompt_name_def)
next
  case (Some s)
  have "CHR 0x0A \<notin> set (show_nat k)" for k
    using show_nat_digits [of k] by (auto simp: is_digit_def)
  then have "CHR 0x0A \<notin> set (show_int pid)" by (simp add: show_int_def)
  then have "CHR 0x0A \<notin> set (fit 64 (''user_'' @ show_int pid))"
    using set_fit [of 64 "''user_'' @ show_int pid"] by auto
  moreover have "length (cut_newline (take 63 s)) < 64"
    using length_takeWhile_le [of "\<lambda>c. c \<noteq> CHR 0x0A" "take 63 s"] by (simp add: cut_newline_def)
  ultimately show ?thesis using Some by (auto simp: chat_ui_prompt_name_def fit_def Let_def)
qed

end
