(* ===== verification/Shm_Client.thy ===== *)
theory Shm_Client
  imports Shm_Room Chat_Ui
begin

text \<open>
  The chat client of lab-14, \<^verbatim>\<open>labs/lab-14/src/chat_client.c\<close>, next to the room it shares
  with the server (theory \<open>Shm_Room\<close>).

  A client function that takes the semaphore gets the result of \<^verbatim>\<open>sem_wait\<close> as an argument
  and the room as it is while the lock is held.  The key codes of ncurses are the record
  \<open>curses_keys\<close> of theory \<open>Chat_Ui\<close>, an argument of the event loop.
\<close>

record ClientState =
  shm_fd :: int
  has_room :: bool
  client_pid :: int
  receiver_started :: bool
  running :: bool
  seen_version :: "32 word"
  client_name :: string
  input :: string
  input_len :: nat
  shown_messages :: "string list"
  shown_message_count :: nat
  shown_users :: "string list"
  shown_user_count :: nat

definition client_state_init :: ClientState where
  "client_state_init =
     \<lparr>shm_fd = -1, has_room = False, client_pid = 0, receiver_started = False, running = True,
      seen_version = 0, client_name = [], input = [], input_len = 0,
      shown_messages = replicate CHAT_MAX_MESSAGES [], shown_message_count = 0,
      shown_users = replicate CHAT_MAX_CLIENTS [], shown_user_count = 0\<rparr>"

definition client_state_destroy :: "ClientState \<Rightarrow> sys_call list" where
  "client_state_destroy st =
     (if has_room st then [Munmap] else []) @ (if shm_fd st \<noteq> -1 then [Close (shm_fd st)] else [])"

definition client_push_message :: "ClientState \<Rightarrow> string \<Rightarrow> ClientState" where
  "client_push_message st text =
     (if shown_message_count st < CHAT_MAX_MESSAGES then
        st\<lparr>shown_messages := (shown_messages st)[shown_message_count st := fit CHAT_LINE_LENGTH text],
           shown_message_count := Suc (shown_message_count st)\<rparr>
      else
        st\<lparr>shown_messages := (memmove_elems 0 1 (CHAT_MAX_MESSAGES - 1) (shown_messages st))
             [CHAT_MAX_MESSAGES - 1 := fit CHAT_LINE_LENGTH text]\<rparr>)"

definition client_copy_room_state_locked :: "ClientState \<Rightarrow> ChatRoom \<Rightarrow> ClientState" where
  "client_copy_room_state_locked st room =
     st\<lparr>shown_message_count := message_count room,
        shown_messages := copy_elems (fit CHAT_LINE_LENGTH) 0 (message_count room)
                            (messages room) (shown_messages st),
        shown_user_count := user_count room,
        shown_users := copy_elems (\<lambda>u. fit MAX_NAME (user_name u)) 0 (user_count room)
                         (users room) (shown_users st)\<rparr>"

definition client_refresh_from_room :: "ClientState \<Rightarrow> sem_result \<Rightarrow> ChatRoom \<Rightarrow> ClientState" where
  "client_refresh_from_room st lock room =
     (if lock \<noteq> Sem_ok then st
      else if seen_version st \<noteq> version room then
        (client_copy_room_state_locked st room)\<lparr>seen_version := version room\<rparr>
      else st)"

text \<open>What the event loop hands to the drawing code: the entries in use, message by message and
  user by user.\<close>

definition client_snapshot_state :: "ClientState \<Rightarrow> string list \<times> string list" where
  "client_snapshot_state st =
     (map (fit CHAT_LINE_LENGTH) (take (shown_message_count st) (shown_messages st)),
      map (fit MAX_NAME) (take (shown_user_count st) (shown_users st)))"

text \<open>The receiver thread: one entry per pass, with the value of \<^verbatim>\<open>running\<close>, the result of
  \<^verbatim>\<open>sem_wait\<close> and the room at that moment.\<close>

fun receiver_thread :: "(bool \<times> sem_result \<times> ChatRoom) list \<Rightarrow> ClientState \<Rightarrow> ClientState" where
  "receiver_thread [] st = st"
| "receiver_thread ((run, lock, room) # ps) st =
     (if \<not> run then st else receiver_thread ps (client_refresh_from_room st lock room))"

record connect_results =
  conn_shm_open :: int
  conn_mmap :: bool
  conn_getpid :: int

definition client_connect :: "connect_results \<Rightarrow> ClientState \<Rightarrow> int \<times> ClientState" where
  "client_connect res st =
     (let st1 = st\<lparr>shm_fd := conn_shm_open res\<rparr>
      in if conn_shm_open res = -1 then (-1, st1)
         else if \<not> conn_mmap res then (-1, st1\<lparr>has_room := False\<rparr>)
         else (0, st1\<lparr>has_room := True, client_pid := conn_getpid res\<rparr>))"

text \<open>The part of \<^verbatim>\<open>client_send_command\<close> that works on the ring, with the lock held.\<close>

definition room_push_command :: "ChatRequest \<Rightarrow> ChatRoom \<Rightarrow> ChatRoom option" where
  "room_push_command request room =
     (if command_count room < CHAT_MAX_COMMANDS then
        Some (room\<lparr>commands := (commands room)[command_tail room := request],
                   command_tail := (command_tail room + 1) mod CHAT_MAX_COMMANDS,
                   command_count := command_count room + 1\<rparr>)
      else None)"

definition make_request :: "ClientState \<Rightarrow> int \<Rightarrow> string option \<Rightarrow> ChatRequest" where
  "make_request st command text =
     \<lparr>req_command = command, req_pid = client_pid st, req_name = fit MAX_NAME (client_name st),
      req_text = (case text of None \<Rightarrow> [] | Some t \<Rightarrow> fit MAX_TEXT t)\<rparr>"

definition client_send_command ::
  "ClientState \<Rightarrow> int \<Rightarrow> string option \<Rightarrow> sem_result \<Rightarrow> ChatRoom \<Rightarrow> int \<times> ChatRoom" where
  "client_send_command st command text lock room =
     (if lock \<noteq> Sem_ok then (-1, room)
      else (case room_push_command (make_request st command text) room of
              None \<Rightarrow> (-1, room)
            | Some room1 \<Rightarrow> (0, room1)))"

definition client_start_receiver :: "bool \<Rightarrow> ClientState \<Rightarrow> int \<times> ClientState" where
  "client_start_receiver created st =
     (if \<not> created then (-1, st) else (0, st\<lparr>receiver_started := True\<rparr>))"

definition client_stop_receiver :: "ClientState \<Rightarrow> ClientState" where
  "client_stop_receiver st =
     (if \<not> receiver_started st then st
      else st\<lparr>running := False, receiver_started := False\<rparr>)"

definition client_clear_input :: "ClientState \<Rightarrow> ClientState" where
  "client_clear_input st = st\<lparr>input := [], input_len := 0\<rparr>"

definition client_remove_last_char :: "ClientState \<Rightarrow> ClientState" where
  "client_remove_last_char st =
     (if input_len st = 0 then st
      else st\<lparr>input_len := input_len st - 1, input := take (input_len st - 1) (input st)\<rparr>)"

definition client_append_char :: "ClientState \<Rightarrow> int \<Rightarrow> ClientState" where
  "client_append_char st ch =
     (if ch < 32 \<or> ch \<ge> 127 \<or> input_len st \<ge> MAX_TEXT - 1 then st
      else st\<lparr>input := take (input_len st) (input st) @ [char_of (nat ch)],
              input_len := Suc (input_len st)\<rparr>)"

definition client_send_text_message ::
  "ClientState \<Rightarrow> sem_result \<Rightarrow> ChatRoom \<Rightarrow> ClientState \<times> ChatRoom" where
  "client_send_text_message st lock room =
     (if input_len st = 0 then (st, room)
      else (case client_send_command st CHAT_CMD_TEXT (Some (input st)) lock room of
              (r, room1) \<Rightarrow>
                (client_clear_input
                   (if r = -1 then client_push_message st ''Failed to send message'' else st),
                 room1)))"

text \<open>One key of the event loop: the state, the room, whether the loop is left.\<close>

definition client_event ::
  "curses_keys \<Rightarrow> int \<Rightarrow> sem_result \<Rightarrow> ClientState \<Rightarrow> ChatRoom \<Rightarrow> ClientState \<times> ChatRoom \<times> bool" where
  "client_event K ch lock st room =
     (if ch = key_err K then (st, room, False)
      else if ch = 10 \<or> ch = key_enter K then
        (if input st = ''/exit'' then (st, room, True)
         else (case client_send_text_message st lock room of (st1, room1) \<Rightarrow> (st1, room1, False)))
      else if ch = key_f10 K then (st, room, True)
      else if ch = key_backspace K \<or> ch = 127 \<or> ch = 8 then (client_remove_last_char st, room, False)
      else (client_append_char st ch, room, False))"

text \<open>
  The event loop over the keys read.  Before each key the others (server, other clients) have
  transformed the room, and the receiver thread has refreshed the snapshot any number of times.
\<close>

record loop_entry =
  others :: "ChatRoom \<Rightarrow> ChatRoom"
  refreshes :: "sem_result list"
  pressed :: int
  send_lock :: sem_result

fun client_run_event_loop ::
  "curses_keys \<Rightarrow> loop_entry list \<Rightarrow> ClientState \<Rightarrow> ChatRoom \<Rightarrow> ClientState \<times> ChatRoom" where
  "client_run_event_loop K [] st room = (st, room)"
| "client_run_event_loop K (e # es) st room =
     (let room0 = others e room;
          st0 = foldl (\<lambda>s lock. client_refresh_from_room s lock room0) st (refreshes e)
      in case client_event K (pressed e) (send_lock e) st0 room0 of
           (st1, room1, stop) \<Rightarrow>
             if stop then (st1, room1) else client_run_event_loop K es st1 room1)"

text \<open>
  \<^verbatim>\<open>main\<close> with its \<^verbatim>\<open>goto cleanup\<close>: the arguments are the results of the calls that can
  fail.  The result is the exit code, the room and the calls of the cleanup.
\<close>

record main_results =
  ui_init :: int
  prompt_name :: "string option"
  connect_res :: connect_results
  join_lock :: sem_result
  thread_created :: bool
  refresh_lock :: sem_result
  leave_lock :: sem_result

definition client_cleanup :: "bool \<Rightarrow> sem_result \<Rightarrow> ClientState \<Rightarrow> ChatRoom \<Rightarrow> ChatRoom \<times> sys_call list" where
  "client_cleanup joined lock st room =
     (let room1 = (if joined then snd (client_send_command st CHAT_CMD_LEAVE None lock room) else room);
          st1 = client_stop_receiver st
      in (room1, client_state_destroy st1))"

definition client_main ::
  "curses_keys \<Rightarrow> main_results \<Rightarrow> loop_entry list \<Rightarrow> ChatRoom \<Rightarrow> int \<times> ChatRoom \<times> sys_call list" where
  "client_main K res es room =
     (let st0 = client_state_init;
          quit = (\<lambda>joined st rm. case client_cleanup joined (leave_lock res) st rm of
                                    (rm1, calls) \<Rightarrow> (1, rm1, calls))
      in if ui_init res = -1 then quit False st0 room
         else (case prompt_name res of
             None \<Rightarrow> quit False st0 room
           | Some nm \<Rightarrow>
               let st1 = st0\<lparr>client_name := nm\<rparr>; (c, st2) = client_connect (connect_res res) st1
               in if c = -1 then quit False st2 room
                  else (case client_send_command st2 CHAT_CMD_JOIN None (join_lock res) room of
                      (r, room1) \<Rightarrow>
                        if r = -1 then
                          quit False (client_push_message st2 ''Failed to join chat'') room1
                        else (case client_start_receiver (thread_created res) st2 of
                            (t, st3) \<Rightarrow>
                              if t = -1 then quit True st3 room1
                              else
                                let st4 = client_refresh_from_room st3 (refresh_lock res) room1;
                                    (st5, room2) = client_run_event_loop K es st4 room1;
                                    (room3, calls) = client_cleanup True (leave_lock res) st5 room2
                                in (0, room3, calls)))))"

subsection \<open>The command queue is a queue\<close>

lemma push_room:
  assumes "room_ok r" "command_count r < CHAT_MAX_COMMANDS"
  shows "\<exists>r'. room_push_command q r = Some r' \<and> room_ok r' \<and> room_queue r' = room_queue r @ [q] \<and>
    room_history r' = room_history r \<and> room_members r' = room_members r \<and> version r' = version r"
proof -
  let ?r = "r\<lparr>commands := (commands r)[command_tail r := q],
    command_tail := (command_tail r + 1) mod CHAT_MAX_COMMANDS, command_count := command_count r + 1\<rparr>"
  have ring: "ring_ok r" using assms(1) by (simp add: room_ok_def)
  then have len: "length (commands r) = CHAT_MAX_COMMANDS"
    and t: "command_tail r = (command_head r + command_count r) mod CHAT_MAX_COMMANDS"
    by (auto simp: ring_ok_def)
  have "room_queue ?r = room_queue r @ [q]"
    using ring_contents_push [OF len assms(2)] by (simp add: room_queue_def t)
  moreover have "ring_ok ?r"
    using ring assms(2) ring_tail_step [OF t] by (simp add: ring_ok_def)
  then have "room_ok ?r"
    using assms(1) by (simp add: room_ok_def history_ok_def members_ok_def room_abs)
  ultimately show ?thesis
    using assms(2) by (simp add: room_push_command_def room_history_def room_members_def)
qed

lemma push_room_SomeD:
  assumes "room_ok r" "room_push_command q r = Some r'"
  shows "room_ok r' \<and> room_queue r' = room_queue r @ [q] \<and>
    room_history r' = room_history r \<and> room_members r' = room_members r \<and> version r' = version r"
proof -
  have "command_count r < CHAT_MAX_COMMANDS"
    using assms(2) by (simp add: room_push_command_def split: if_splits)
  from push_room [OF assms(1) this, of q] assms(2) show ?thesis by auto
qed

lemma length_room_queue [simp]: "length (room_queue r) = command_count r"
  by (simp add: room_queue_def)

interpretation command_ring: bounded_fifo zero_room room_push_command room_pop_command_locked
  room_queue room_ok CHAT_MAX_COMMANDS
proof (unfold_locales, goal_cases)
  case (3 q)
  then show ?case by (simp add: room_ok_def ring_ok_def)
next
  case (4 q x)
  then show ?case by (simp add: room_push_command_def)
next
  case (5 q x)
  then show ?case using push_room [of q x] by auto
next
  case (6 q)
  then show ?case by (simp add: pop_empty)
next
  case (7 q x xs)
  then obtain y q' where p: "room_pop_command_locked q = Some (y, q')"
    using pop_empty [of q] by (cases "room_pop_command_locked q") auto
  with pop_next [OF 7(1) p] 7(2) show ?case by auto
qed simp_all

subsection \<open>The user table is a table of sessions\<close>

definition admit_user :: "int \<Rightarrow> string \<Rightarrow> ChatRoom \<Rightarrow> ChatRoom" where
  "admit_user pid name r = (if room_find_user r pid = -1 then room_add_user_locked r pid name else r)"

definition dismiss_user :: "int \<Rightarrow> ChatRoom \<Rightarrow> ChatRoom" where
  "dismiss_user pid r = room_remove_user_locked r (room_find_user r pid)"

lemma dismiss_user:
  assumes "room_ok r"
  shows "room_ok (dismiss_user p r) \<and>
    room_members (dismiss_user p r) = filter (\<lambda>u. user_pid u \<noteq> p) (room_members r)"
proof (cases "room_find_user r p = -1")
  case True
  then have "filter (\<lambda>u. user_pid u \<noteq> p) (room_members r) = room_members r"
    using find_user_absent [OF assms] by (auto simp: filter_id_conv intro: rev_image_eqI)
  with True assms show ?thesis by (simp add: dismiss_user_def room_remove_user_locked_def)
next
  case False
  from find_user_present [OF assms False] obtain i where
    "i < user_count r" "room_find_user r p = int i" "user_pid (users r ! i) = p" by blast
  with remove_user_filter [OF assms this(1,3)] remove_user_ok [OF assms this(1)] show ?thesis
    by (simp add: dismiss_user_def)
qed

interpretation user_table: session_table zero_room "\<lambda>r. map user_pid (room_members r)" admit_user
  dismiss_user room_ok CHAT_MAX_CLIENTS
proof (unfold_locales, goal_cases)
  case (3 t)
  then show ?case by (rule room_okD)
next
  case (4 t)
  then show ?case using room_okD [of t] by (simp add: CHAT_MAX_CLIENTS_def)
next
  case (5 t k v)
  then show ?case using find_user_absent [OF 5] add_user_ok [of t k v] by (auto simp: admit_user_def)
next
  case (6 t k)
  then show ?case using dismiss_user by blast
next
  case (7 t k v)
  then show ?case using find_user_absent [OF 7, of k] room_okD(8) [OF 7]
    by (auto simp: admit_user_def)
next
  case (8 t k)
  then show ?case using dismiss_user [OF 8] by auto
qed simp_all

subsection \<open>The client's own state\<close>

definition client_ok :: "ClientState \<Rightarrow> bool" where
  "client_ok st \<longleftrightarrow> length (shown_messages st) = CHAT_MAX_MESSAGES \<and>
     shown_message_count st \<le> CHAT_MAX_MESSAGES \<and>
     length (shown_users st) = CHAT_MAX_CLIENTS \<and> shown_user_count st \<le> CHAT_MAX_CLIENTS \<and>
     input_len st = length (input st) \<and> input_len st < MAX_TEXT"

lemma client_ok_init [simp]: "client_ok client_state_init"
  by (simp add: client_ok_def client_state_init_def MAX_TEXT_def)

lemma client_ok_edit [simp]:
  "client_ok st \<Longrightarrow> client_ok (client_append_char st ch)"
  "client_ok st \<Longrightarrow> client_ok (client_remove_last_char st)"
  "client_ok st \<Longrightarrow> client_ok (client_clear_input st)"
  by (auto simp: client_ok_def client_append_char_def client_remove_last_char_def
      client_clear_input_def MAX_TEXT_def)

lemma client_ok_push [simp]: "client_ok st \<Longrightarrow> client_ok (client_push_message st t)"
  by (auto simp: client_ok_def client_push_message_def CHAT_MAX_MESSAGES_def)

lemma client_ok_refresh [simp]:
  "client_ok st \<Longrightarrow> room_ok r \<Longrightarrow> client_ok (client_refresh_from_room st l r)"
  by (auto simp: client_ok_def client_refresh_from_room_def client_copy_room_state_locked_def
      CHAT_MAX_MESSAGES_def CHAT_MAX_CLIENTS_def dest: room_okD(2,4))

interpretation input_field: line_editor input client_ok client_append_char client_remove_last_char
  client_clear_input "MAX_TEXT - 1"
  by unfold_locales
    (auto simp: client_append_char_def client_remove_last_char_def client_clear_input_def
      client_ok_def butlast_conv_take)

text \<open>A refresh that copies shows exactly the room.\<close>

lemma copy_shows_room:
  assumes "client_ok st" "room_ok r"
  shows "client_snapshot_state (client_copy_room_state_locked st r) =
    (room_history r, map user_name (room_members r))"
proof -
  have h: "map (fit CHAT_LINE_LENGTH) (room_history r) = room_history r"
    using assms(2) by (auto simp: room_ok_def history_ok_def intro!: map_idI)
  have m: "\<forall>u \<in> set (room_members r). fit MAX_NAME (user_name u) = user_name u"
    using assms(2) by (auto simp: room_ok_def members_ok_def)
  have "map (fit CHAT_LINE_LENGTH) (take (message_count r) (messages r)) = room_history r"
    using h by (simp add: room_history_def)
  moreover have "map (\<lambda>u. fit MAX_NAME (user_name u)) (take (user_count r) (users r)) =
      map user_name (room_members r)"
    using m by (simp add: room_members_def)
  ultimately show ?thesis
    using assms room_okD [OF assms(2)] h m
    by (simp add: client_snapshot_state_def client_copy_room_state_locked_def client_ok_def
      take_copy_elems CHAT_MAX_MESSAGES_def CHAT_MAX_CLIENTS_def o_def)
qed

end
