(* ===== verification/Shm_System.thy ===== *)
theory Shm_System
  imports Shm_Client
begin

text \<open>
  Server and clients of lab-14 together: the only thing they share is the room, and every
  access to it happens under the semaphore, so a run of the system is a sequence of accesses.
  \<open>room_run\<close> interleaves requests of any clients with passes of the server; \<open>view_run\<close>
  adds the receiver thread of one client.  The properties of the shared-memory chat are here.
\<close>

datatype room_event = Request ChatRequest | Pass sem_result

fun printed :: "sys_call list \<Rightarrow> string list" where
  "printed [] = []"
| "printed (Printf l # cs) = l # printed cs"
| "printed (c # cs) = printed cs"

lemma printed_map_Printf [simp]: "printed (map Printf ls) = ls"
  by (induction ls) simp_all

text \<open>The room after a run, the requests the queue accepted, the lines the server printed.\<close>

fun room_run :: "room_event list \<Rightarrow> ChatRoom \<Rightarrow> ChatRoom \<times> ChatRequest list \<times> string list" where
  "room_run [] r = (r, [], [])"
| "room_run (Request q # es) r =
     (case room_push_command q r of
        None \<Rightarrow> room_run es r
      | Some r1 \<Rightarrow> (case room_run es r1 of (r2, acc, out) \<Rightarrow> (r2, q # acc, out)))"
| "room_run (Pass lock # es) r =
     (case server_pass lock r of
        (r1, calls, stop) \<Rightarrow>
          if stop then (r1, [], [])
          else (case room_run es r1 of (r2, acc, out) \<Rightarrow> (r2, acc, printed calls @ out)))"

lemma server_pass_cases:
  assumes "room_ok r" "server_pass lock r = (r', calls, stop)"
  obtains (idle) "r' = r" "printed calls = []" "lock = Sem_ok \<Longrightarrow> room_queue r = []"
  | (served) q where "room_queue r = q # room_queue r'" "room_ok r'"
      "printed calls = lines_of q (room_members r)"
      "(room_history r', room_members r') = chat_spec q (room_history r, room_members r)"
      "version r' = version r + of_nat (length (printed calls))" "\<not> stop"
proof (cases lock)
  case Sem_ok
  show ?thesis
  proof (cases "room_pop_command_locked r")
    case None
    with Sem_ok assms(2) show ?thesis by (intro idle) (auto simp: server_pass_def pop_empty)
  next
    case (Some p)
    obtain q r1 where p: "room_pop_command_locked r = Some (q, r1)" using Some by (cases p) auto
    obtain r2 out where c: "room_process_command_locked r1 q = (r2, out)" by fastforce
    from Sem_ok assms(2) p c have "r' = r2" "calls = map Printf out" "\<not> stop"
      by (auto simp: server_pass_def)
    with pop_next [OF assms(1) p] process_command [OF _ c] show ?thesis
      by (intro served [of q]) auto
  qed
qed (use assms(2) in \<open>auto simp: server_pass_def intro: idle\<close>)

lemma chat_spec_history:
  "fst (chat_spec q c) = fold (push_capped CHAT_MAX_MESSAGES) (lines_of q (snd c)) (fst c)"
  by (simp add: chat_spec_def)

lemma room_run_invariant:
  "room_ok r \<Longrightarrow> room_run es r = (r', acc, out) \<Longrightarrow>
   room_ok r' \<and> version r' = version r + of_nat (length out) \<and>
   room_history r' = fold (push_capped CHAT_MAX_MESSAGES) out (room_history r) \<and>
   (\<exists>served. room_queue r @ acc = served @ room_queue r' \<and>
     (room_history r', room_members r') = fold chat_spec served (room_history r, room_members r))"
proof (induction es arbitrary: r r' acc out)
  case Nil
  then show ?case by (auto intro: exI [of _ "[]"])
next
  case (Cons e es)
  show ?case
  proof (cases e)
    case (Request q)
    show ?thesis
    proof (cases "room_push_command q r")
      case None
      with Request Cons.prems(2) have "room_run es r = (r', acc, out)" by simp
      then show ?thesis by (rule Cons.IH [OF Cons.prems(1)])
    next
      case (Some r1)
      obtain r2 acc2 out2 where run: "room_run es r1 = (r2, acc2, out2)" by (metis prod_cases3)
      with Request Some Cons.prems(2) have eq: "r' = r2" "acc = q # acc2" "out = out2" by auto
      note push = push_room_SomeD [OF Cons.prems(1) Some]
      then have ok: "room_ok r1" by simp
      from Cons.IH [OF ok run] obtain sv where ih: "room_queue r1 @ acc2 = sv @ room_queue r2"
        "(room_history r2, room_members r2) = fold chat_spec sv (room_history r1, room_members r1)"
        by blast
      with push eq have "room_queue r @ acc = sv @ room_queue r'"
        "(room_history r', room_members r') = fold chat_spec sv (room_history r, room_members r)"
        by simp_all
      with Cons.IH [OF ok run] push eq show ?thesis by metis
    qed
  next
    case (Pass lock)
    obtain r1 calls stop where pass: "server_pass lock r = (r1, calls, stop)" by (metis prod_cases3)
    obtain r2 acc2 out2 where run: "room_run es r1 = (r2, acc2, out2)" by (metis prod_cases3)
    from Cons.prems(1) pass show ?thesis
    proof (cases rule: server_pass_cases)
      case idle
      show ?thesis
      proof (cases stop)
        case True
        with Pass pass idle Cons.prems(2) have "r' = r" "acc = []" "out = []" by auto
        with Cons.prems(1) show ?thesis by (auto intro: exI [of _ "[]"])
      next
        case False
        with Pass pass idle Cons.prems(2) run have "room_run es r = (r', acc, out)" by auto
        then show ?thesis by (rule Cons.IH [OF Cons.prems(1)])
      qed
    next
      case (served q)
      with Pass pass run Cons.prems(2) have eq: "r' = r2" "acc = acc2" "out = printed calls @ out2"
        by auto
      from Cons.IH [OF served(2) run] obtain sv where
        ih: "room_queue r1 @ acc2 = sv @ room_queue r2"
          "(room_history r2, room_members r2) = fold chat_spec sv (room_history r1, room_members r1)"
        by blast
      have "room_queue r @ acc = (q # sv) @ room_queue r'"
        using served(1) ih(1) eq by simp
      moreover have "(room_history r', room_members r') =
          fold chat_spec (q # sv) (room_history r, room_members r)"
        using served(4) ih(2) eq by simp
      moreover have "room_history r1 =
          fold (push_capped CHAT_MAX_MESSAGES) (printed calls) (room_history r)"
        using served(3) arg_cong [OF served(4), of fst] by (simp add: chat_spec_history)
      ultimately show ?thesis
        using Cons.IH [OF served(2) run] served(5) eq by (auto simp: add.assoc)
    qed
  qed
qed

subsection \<open>A client's view of the room\<close>

text \<open>
  One client among the others: requests of the others and passes of the server (\<open>Room\<close>), its own
  receiver thread (\<open>Refresh\<close>), its own keys (\<open>Key\<close>, with the result of the \<^verbatim>\<open>sem_wait\<close> of a send).
  A key that leaves the event loop ends the run.

  Beside the run goes what the screen is expected to show: the line typed so far, whether the server
  has printed something since the last refresh that got the semaphore (\<open>news\<close>), and the notices of
  failed sends that the client has added since then.
\<close>

record expected =
  typed_line :: string
  news :: bool
  notices :: nat

definition fresh_expected :: expected where
  "fresh_expected = \<lparr>typed_line = [], news = False, notices = 0\<rparr>"

definition press_key :: "curses_keys \<Rightarrow> int \<Rightarrow> bool \<Rightarrow> expected \<Rightarrow> expected" where
  "press_key K ch refused g =
     (if ch = key_err K then g
      else if ch = 10 \<or> ch = key_enter K then
        (if typed_line g = [] then g else g\<lparr>typed_line := [], notices := notices g + of_bool refused\<rparr>)
      else if ch = key_backspace K \<or> ch = 127 \<or> ch = 8 then g\<lparr>typed_line := butlast (typed_line g)\<rparr>
      else if 32 \<le> ch \<and> ch < 127 \<and> length (typed_line g) < MAX_TEXT - 1
        then g\<lparr>typed_line := typed_line g @ [char_of (nat ch)]\<rparr>
      else g)"

definition refreshed :: "sem_result \<Rightarrow> expected \<Rightarrow> expected" where
  "refreshed lock g = (if lock = Sem_ok \<and> news g then g\<lparr>news := False, notices := 0\<rparr> else g)"

definition with_notices :: "nat \<Rightarrow> string list \<Rightarrow> string list" where
  "with_notices k ms = last_n CHAT_MAX_MESSAGES (ms @ replicate k ''Failed to send message'')"

datatype view_event = Room room_event | Refresh sem_result | Key int sem_result

fun view_run :: "curses_keys \<Rightarrow> view_event list \<Rightarrow> ChatRoom \<Rightarrow> ClientState \<Rightarrow> expected \<Rightarrow>
    ChatRoom \<times> ClientState \<times> expected \<times> string list" where
  "view_run K [] r st g = (r, st, g, [])"
| "view_run K (Room e # es) r st g =
     (case room_run [e] r of (r1, acc, out1) \<Rightarrow>
        (case view_run K es r1 st (g\<lparr>news := news g \<or> out1 \<noteq> []\<rparr>) of
           (r2, st2, g2, out2) \<Rightarrow> (r2, st2, g2, out1 @ out2)))"
| "view_run K (Refresh lock # es) r st g =
     view_run K es r (client_refresh_from_room st lock r) (refreshed lock g)"
| "view_run K (Key ch lock # es) r st g =
     (case client_event K ch lock st r of (st1, r1, stop) \<Rightarrow>
        if stop then (r1, st1, g, [])
        else view_run K es r1 st1
               (press_key K ch (lock \<noteq> Sem_ok \<or> length (room_queue r) = CHAT_MAX_COMMANDS) g))"

text \<open>
  What keeps a snapshot honest: it was taken when the room had the version it records, and when
  no line was printed since, it still shows the room, followed by the client's notices.
\<close>

definition in_sync :: "nat \<Rightarrow> ChatRoom \<Rightarrow> ClientState \<Rightarrow> expected \<Rightarrow> bool" where
  "in_sync n r st g \<longleftrightarrow> room_ok r \<and> client_ok st \<and> input st = typed_line g \<and> version r = of_nat n \<and>
     (\<exists>m \<le> n. seen_version st = of_nat m \<and> (news g \<longleftrightarrow> m \<noteq> n)) \<and>
     (\<not> news g \<longrightarrow> client_snapshot_state st =
        (with_notices (notices g) (room_history r), map user_name (room_members r)))"

lemma in_syncE:
  assumes "in_sync n r st g"
  obtains m where "room_ok r" "client_ok st" "input st = typed_line g" "version r = of_nat n"
    "m \<le> n" "seen_version st = of_nat m" "news g \<longleftrightarrow> m \<noteq> n"
    "\<not> news g \<Longrightarrow> client_snapshot_state st =
      (with_notices (notices g) (room_history r), map user_name (room_members r))"
  using assms by (auto simp: in_sync_def)

lemma with_no_notices [simp]: "room_ok r \<Longrightarrow> with_notices 0 (room_history r) = room_history r"
  using room_okD [of r] by (simp add: with_notices_def last_n_def CHAT_MAX_MESSAGES_def)

lemma with_more_notices:
  "push_capped CHAT_MAX_MESSAGES ''Failed to send message'' (with_notices k h) = with_notices (Suc k) h"
  by (simp add: with_notices_def push_capped_last_n CHAT_MAX_MESSAGES_def replicate_append_same)

text \<open>A client as it enters its event loop.\<close>

definition client_joined :: "string \<Rightarrow> connect_results \<Rightarrow> ClientState" where
  "client_joined nm res =
     snd (client_start_receiver True (snd (client_connect res (client_state_init\<lparr>client_name := nm\<rparr>))))"

lemma client_joined_simps [simp]:
  "client_name (client_joined nm res) = nm"
  "in_sync 0 zero_room (client_joined nm res) fresh_expected"
proof -
  show "client_name (client_joined nm res) = nm"
    by (simp add: client_joined_def client_start_receiver_def client_connect_def Let_def)
  have "room_history zero_room = []" "room_members zero_room = []" by code_simp+
  then show "in_sync 0 zero_room (client_joined nm res) fresh_expected"
    using room_ok_zero client_ok_init
    by (simp add: in_sync_def client_joined_def client_start_receiver_def client_connect_def Let_def
      client_ok_def client_snapshot_state_def client_state_init_def fresh_expected_def with_notices_def
      last_n_def) (simp add: zero_room_def)
qed

lemma chat_spec_silent: "lines_of q (snd c) = [] \<Longrightarrow> chat_spec q c = c"
  by (cases c) (auto simp: lines_of_def chat_spec_def members_after_def filter_empty_conv
    filter_id_conv chat_commands split: if_splits)

lemma room_event_silent:
  assumes "room_ok r" "room_run [e] r = (r', acc, [])"
  shows "room_history r' = room_history r \<and> room_members r' = room_members r"
proof (cases e)
  case (Request q)
  with assms(2) push_room_SomeD [OF assms(1), of q] show ?thesis
    by (auto split: option.splits)
next
  case (Pass lock)
  obtain r1 calls stop where pass: "server_pass lock r = (r1, calls, stop)" by (metis prod_cases3)
  with Pass assms(2) have r1: "r' = r1" "printed calls = [] \<or> stop"
    by (auto split: if_splits)
  from assms(1) pass show ?thesis
  proof (cases rule: server_pass_cases)
    case (served q)
    with r1(2) have "lines_of q (room_members r) = []" by simp
    with chat_spec_silent [of q "(room_history r, room_members r)"] served(4) r1(1) show ?thesis
      by simp
  qed (simp add: r1(1))
qed

lemma room_event_sync:
  assumes "in_sync n r st g" "room_run [e] r = (r', acc, out)"
  shows "in_sync (n + length out) r' st (g\<lparr>news := news g \<or> out \<noteq> []\<rparr>)"
proof -
  from assms(1) obtain m where s: "room_ok r" "client_ok st" "input st = typed_line g" "version r = of_nat n"
    "m \<le> n" "seen_version st = of_nat m" "news g \<longleftrightarrow> m \<noteq> n"
    "\<not> news g \<Longrightarrow> client_snapshot_state st =
      (with_notices (notices g) (room_history r), map user_name (room_members r))"
    by (rule in_syncE) blast
  from room_run_invariant [OF s(1) assms(2)] room_event_silent [OF s(1)] assms(2) s show ?thesis
    by (auto simp: in_sync_def intro!: exI [of _ m])
qed

lemma refresh_sync:
  assumes "in_sync n r st g" "n < 2 ^ 32"
  shows "in_sync n r (client_refresh_from_room st lock r) (refreshed lock g)"
proof -
  from assms(1) obtain m where s: "room_ok r" "client_ok st" "input st = typed_line g" "version r = of_nat n"
    "m \<le> n" "seen_version st = of_nat m" "news g \<longleftrightarrow> m \<noteq> n"
    by (rule in_syncE) blast
  have "(of_nat m :: 32 word) = of_nat n \<longleftrightarrow> m = n"
  proof
    assume "(of_nat m :: 32 word) = of_nat n"
    then have "unat (of_nat m :: 32 word) = unat (of_nat n :: 32 word)" by simp
    with s(5) assms(2) show "m = n" by (simp add: unat_of_nat take_bit_eq_mod)
  qed simp
  then have old: "seen_version st \<noteq> version r \<longleftrightarrow> news g" using s by simp
  show ?thesis
  proof (cases "lock = Sem_ok \<and> news g")
    case True
    with old have "client_refresh_from_room st lock r =
        (client_copy_room_state_locked st r)\<lparr>seen_version := version r\<rparr>"
      by (simp add: client_refresh_from_room_def)
    moreover have "input (client_copy_room_state_locked st r) = input st"
      by (simp add: client_copy_room_state_locked_def)
    ultimately show ?thesis
      using True s copy_shows_room [OF s(2,1)] client_ok_refresh [OF s(2,1), of lock]
      by (auto simp: in_sync_def refreshed_def client_snapshot_state_def)
  next
    case False
    with old have "client_refresh_from_room st lock r = st" "refreshed lock g = g"
      by (auto simp: client_refresh_from_room_def refreshed_def)
    with assms(1) show ?thesis by simp
  qed
qed

lemma push_message_shows:
  assumes "client_ok st" "fit CHAT_LINE_LENGTH t = t"
  shows "client_snapshot_state (client_push_message st t) =
    (push_capped CHAT_MAX_MESSAGES t (fst (client_snapshot_state st)), snd (client_snapshot_state st))"
proof (cases "shown_message_count st < CHAT_MAX_MESSAGES")
  case True
  with assms show ?thesis
    by (simp add: client_push_message_def client_snapshot_state_def client_ok_def push_capped_def
      take_append_slot)
next
  case False
  with assms(1) have c: "shown_message_count st = 64" "length (shown_messages st) = 64"
    by (simp_all add: client_ok_def CHAT_MAX_MESSAGES_def)
  with memmove_history [OF c(2)] assms(2) show ?thesis
    by (simp add: client_push_message_def client_snapshot_state_def push_capped_def
      CHAT_MAX_MESSAGES_def map_tl)
qed

lemma snapshot_edit [simp]:
  "client_snapshot_state (client_clear_input st) = client_snapshot_state st"
  "client_snapshot_state (client_remove_last_char st) = client_snapshot_state st"
  "client_snapshot_state (client_append_char st ch) = client_snapshot_state st"
  by (simp_all add: client_snapshot_state_def client_clear_input_def client_remove_last_char_def
    client_append_char_def)

lemma edit_frame [simp]:
  "seen_version (client_clear_input st) = seen_version st" "client_name (client_clear_input st) = client_name st"
  "seen_version (client_remove_last_char st) = seen_version st" "client_name (client_remove_last_char st) = client_name st"
  "seen_version (client_append_char st ch) = seen_version st" "client_name (client_append_char st ch) = client_name st"
  "seen_version (client_push_message st t) = seen_version st" "client_name (client_push_message st t) = client_name st"
  "client_name (client_refresh_from_room st lock r) = client_name st"
  by (simp_all add: client_clear_input_def client_remove_last_char_def client_append_char_def
    client_push_message_def client_refresh_from_room_def client_copy_room_state_locked_def)

lemma typed_edit:
  assumes "client_ok st"
  shows "input (client_clear_input st) = []"
    and "input (client_remove_last_char st) = butlast (input st)"
    and "input (client_append_char st ch) =
      (if 32 \<le> ch \<and> ch < 127 \<and> length (input st) < MAX_TEXT - 1 then input st @ [char_of (nat ch)] else input st)"
  using assms by (auto simp: client_clear_input_def client_remove_last_char_def client_append_char_def
    client_ok_def butlast_conv_take)

lemma send_command_room:
  assumes "room_ok r" "client_send_command st c t lock r = (res, r')"
  shows "room_ok r' \<and> room_history r' = room_history r \<and> room_members r' = room_members r \<and>
    version r' = version r \<and> (res = -1 \<longleftrightarrow> lock \<noteq> Sem_ok \<or> length (room_queue r) = CHAT_MAX_COMMANDS)"
proof (cases "lock = Sem_ok \<and> length (room_queue r) \<noteq> CHAT_MAX_COMMANDS")
  case True
  then have "command_count r < CHAT_MAX_COMMANDS"
    using room_okD [OF assms(1)] by (simp add: CHAT_MAX_COMMANDS_def)
  from push_room [OF assms(1) this, of "make_request st c t"] True assms(2) show ?thesis
    by (auto simp: client_send_command_def)
next
  case False
  then have "res = -1 \<and> r' = r"
    using assms(2) by (cases "lock = Sem_ok") (auto simp: client_send_command_def room_push_command_def)
  with False assms(1) show ?thesis by auto
qed

lemma send_sync:
  assumes "in_sync n r st g" "typed_line g \<noteq> []" "client_send_text_message st lock r = (st', r')"
  shows "in_sync n r' st' (g\<lparr>typed_line := [], notices := notices g +
      of_bool (lock \<noteq> Sem_ok \<or> length (room_queue r) = CHAT_MAX_COMMANDS)\<rparr>) \<and> client_name st' = client_name st"
proof -
  from assms(1) obtain m where s: "room_ok r" "client_ok st" "input st = typed_line g" "version r = of_nat n"
    "m \<le> n" "seen_version st = of_nat m" "news g \<longleftrightarrow> m \<noteq> n"
    "\<not> news g \<Longrightarrow> client_snapshot_state st =
      (with_notices (notices g) (room_history r), map user_name (room_members r))"
    by (rule in_syncE) blast
  obtain res r1 where c: "client_send_command st CHAT_CMD_TEXT (Some (input st)) lock r = (res, r1)"
    by fastforce
  note room = send_command_room [OF s(1) c]
  have "input_len st \<noteq> 0" using s(2,3) assms(2) by (simp add: client_ok_def)
  with assms(3) c have st': "r' = r1"
    "st' = client_clear_input (if res = -1 then client_push_message st ''Failed to send message'' else st)"
    by (simp_all add: client_send_text_message_def)
  have "fit CHAT_LINE_LENGTH ''Failed to send message'' = ''Failed to send message''" by code_simp
  note push = push_message_shows [OF s(2) this]
  show ?thesis
    using room s push typed_edit(1) [OF client_ok_push [OF s(2)]] typed_edit(1) [OF s(2)]
    by (auto simp: st' in_sync_def with_more_notices intro!: exI [of _ m])
qed

lemma key_sync:
  assumes "in_sync n r st g" "client_event K ch lock st r = (st', r', False)"
  shows "in_sync n r' st' (press_key K ch (lock \<noteq> Sem_ok \<or> length (room_queue r) = CHAT_MAX_COMMANDS) g) \<and>
    client_name st' = client_name st"
proof (cases "ch \<noteq> key_err K \<and> (ch = 10 \<or> ch = key_enter K)")
  case True
  then have send: "client_send_text_message st lock r = (st', r')"
    using assms(2) by (auto simp: client_event_def split: if_splits prod.splits)
  show ?thesis
  proof (cases "typed_line g = []")
    case empty: True
    with assms(1) have "input_len st = 0" by (simp add: in_sync_def client_ok_def)
    with send True empty assms(1) show ?thesis
      by (auto simp: client_send_text_message_def press_key_def)
  next
    case False
    with True send_sync [OF assms(1) False send] show ?thesis by (auto simp: press_key_def)
  qed
next
  case False
  have ok: "client_ok st" using assms(1) by (simp add: in_sync_def)
  have same: "in_sync n r st1 (g\<lparr>typed_line := t\<rparr>) = (input st1 = t)"
    if "client_ok st1" "client_snapshot_state st1 = client_snapshot_state st" "seen_version st1 = seen_version st"
    for st1 t
    using assms(1) that by (simp add: in_sync_def)
  from False assms(2) consider "st' = st" "r' = r" "ch = key_err K"
    | "st' = client_remove_last_char st" "r' = r" "ch \<noteq> key_err K" "ch = key_backspace K \<or> ch = 127 \<or> ch = 8"
    | "st' = client_append_char st ch" "r' = r" "ch \<noteq> key_err K" "\<not> (ch = key_backspace K \<or> ch = 127 \<or> ch = 8)"
    by (auto simp: client_event_def split: if_splits)
  then show ?thesis
  proof cases
    case 1
    with assms(1) show ?thesis by (simp add: press_key_def)
  next
    case 2
    with False ok same [of st' "butlast (typed_line g)"] assms(1) show ?thesis
      by (simp add: press_key_def typed_edit in_sync_def)
  next
    case 3
    with False ok same [of st' "input st'"] assms(1) show ?thesis
      by (auto simp: press_key_def typed_edit in_sync_def)
  qed
qed

lemma view_run_sync:
  "in_sync n r st g \<Longrightarrow> view_run K es r st g = (r', st', g', out) \<Longrightarrow> n + length out < 2 ^ 32 \<Longrightarrow>
   in_sync (n + length out) r' st' g' \<and> client_name st' = client_name st"
proof (induction es arbitrary: n r st g r' st' g' out)
  case (Cons e es)
  show ?case
  proof (cases e)
    case (Room re)
    obtain r1 acc out1 where e1: "room_run [re] r = (r1, acc, out1)" by (metis prod_cases3)
    obtain r2 st2 g2 out2 where e2: "view_run K es r1 st (g\<lparr>news := news g \<or> out1 \<noteq> []\<rparr>) = (r2, st2, g2, out2)"
      by (metis prod_cases4)
    from Room e1 e2 Cons.prems(2) have eq: "r' = r2" "st' = st2" "g' = g2" "out = out1 @ out2" by auto
    from Cons.IH [OF room_event_sync [OF Cons.prems(1) e1] e2] Cons.prems(3) show ?thesis
      by (simp add: eq add.assoc)
  next
    case (Refresh lock)
    have "n < 2 ^ 32" using Cons.prems(3) by simp
    from Cons.IH [OF refresh_sync [OF Cons.prems(1) this]] Cons.prems(2,3) Refresh show ?thesis by simp
  next
    case (Key ch lock)
    obtain st1 r1 stop where ev: "client_event K ch lock st r = (st1, r1, stop)" by (metis prod_cases3)
    show ?thesis
    proof (cases stop)
      case True
      with ev have "st1 = st" "r1 = r" by (auto simp: client_event_def split: if_splits prod.splits)
      with True ev Key Cons.prems show ?thesis by auto
    next
      case False
      with ev key_sync [OF Cons.prems(1)] Cons.IH Cons.prems(2,3) Key show ?thesis by fastforce
    qed
  qed
qed simp

subsection \<open>Properties of the shared-memory chat\<close>

text \<open>
  Property C1.  For every interleaving of client requests and server passes, starting from the
  segment as the server creates it: what the queue accepted is what was served followed by what
  still waits, in order; the room's history and members are what the abstract chat makes of the
  served requests; the history is the last 64 lines the server printed, and the version counts
  the printed lines modulo \<open>2 ^ 32\<close>.
\<close>

theorem shm_chat_refines:
  "case room_run es zero_room of (r, accepted, lines) \<Rightarrow>
     room_ok r \<and> version r = of_nat (length lines) \<and>
     room_history r = last_n CHAT_MAX_MESSAGES lines \<and>
     (\<exists>served. accepted = served @ room_queue r \<and>
        (room_history r, room_members r) = fold chat_spec served ([], []))"
proof -
  obtain r acc out where run: "room_run es zero_room = (r, acc, out)" by (metis prod_cases3)
  have "fold (push_capped CHAT_MAX_MESSAGES) out [] = last_n CHAT_MAX_MESSAGES out"
    using fold_push_capped [of CHAT_MAX_MESSAGES out "[]"]
    by (simp add: last_n_def CHAT_MAX_MESSAGES_def)
  moreover have "version zero_room = 0" by (simp add: zero_room_def)
  ultimately show ?thesis
    using room_run_invariant [OF room_ok_zero run] run by auto
qed

text \<open>
  The ring of 32 commands in the segment is a first-in first-out queue for any
  sequence of pushes by clients and pops by the server: the accepted requests are the delivered
  ones followed by those still in the ring, of which there are never more than 32.
\<close>

theorem shm_command_queue_fifo:
  "case fifo_run room_push_command room_pop_command_locked ops zero_room of
     (r, accepted, delivered) \<Rightarrow>
       accepted = delivered @ room_queue r \<and> length (room_queue r) \<le> CHAT_MAX_COMMANDS"
  by (cases "fifo_run room_push_command room_pop_command_locked ops zero_room")
    (use command_ring.run_order_start in fastforce)

text \<open>
  Whatever joins and leaves reach the room's user table, its pids are distinct,
  at most 16, and exactly the members of a set that admits while it has fewer than 16 elements:
  closing the gap by moving the rest down never loses or duplicates a user.
\<close>

theorem shm_user_table_members:
  "set (map user_pid (room_members (table_run admit_user dismiss_user ops zero_room))) =
     members CHAT_MAX_CLIENTS ops {} \<and>
   distinct (map user_pid (room_members (table_run admit_user dismiss_user ops zero_room))) \<and>
   length (map user_pid (room_members (table_run admit_user dismiss_user ops zero_room)))
     \<le> CHAT_MAX_CLIENTS"
  by (rule user_table.run_start)

text \<open>
  After a refresh that gets the semaphore the client holds the room as it is, messages and user
  names, followed by the notices it added since: comparing version numbers is enough as long as
  fewer than \<open>2 ^ 32\<close> lines were ever printed.
\<close>

lemma view_shows_room:
  assumes "view_run K es zero_room (client_joined nm res) fresh_expected = (r, st, g, lines)"
    and "length lines < 2 ^ 32"
  shows "client_snapshot_state (client_refresh_from_room st Sem_ok r) =
      (with_notices (if news g then 0 else notices g) (room_history r), map user_name (room_members r))"
    and "client_name (client_refresh_from_room st Sem_ok r) = nm"
    and "input (client_refresh_from_room st Sem_ok r) = typed_line g"
proof -
  note s = view_run_sync [OF client_joined_simps(2) assms(1)]
  then have "in_sync (length lines) r st g" "client_name st = nm" using assms(2) by auto
  with refresh_sync [OF this(1) assms(2), of Sem_ok]
  show "client_snapshot_state (client_refresh_from_room st Sem_ok r) =
      (with_notices (if news g then 0 else notices g) (room_history r), map user_name (room_members r))"
    "client_name (client_refresh_from_room st Sem_ok r) = nm"
    "input (client_refresh_from_room st Sem_ok r) = typed_line g"
    by (auto simp: in_sync_def refreshed_def split: if_splits)
qed

definition demo_join :: ChatRequest where
  "demo_join = \<lparr>req_command = 1, req_pid = 7, req_name = ''ann'', req_text = []\<rparr>"

subsection \<open>From the keyboard to the history\<close>

definition quiet_key :: "int \<Rightarrow> loop_entry" where
  "quiet_key ch = \<lparr>others = id, refreshes = [], pressed = ch, send_lock = Sem_ok\<rparr>"

lemma typing_loop:
  "good_keys K \<Longrightarrow> printable w \<Longrightarrow>
   client_run_event_loop K (map quiet_key (map of_char w @ es)) st r =
   client_run_event_loop K (map quiet_key es) (foldl client_append_char st (map of_char w)) r"
proof (induction w arbitrary: st)
  case (Cons c w)
  then have c: "32 \<le> (of_char c :: int)" "(of_char c :: int) < 127" and w: "printable w"
    by (auto simp: printable_def)
  have "client_event K (of_char c) Sem_ok st r = (client_append_char st (of_char c), r, False)"
    using c Cons.prems(1) by (auto simp: client_event_def good_keys_def)
  with Cons.IH [OF Cons.prems(1) w] show ?case by (simp add: quiet_key_def)
qed simp

lemma append_chars_frame [simp]:
  "client_pid (foldl client_append_char st cs) = client_pid st"
  "client_name (foldl client_append_char st cs) = client_name st"
  by (induction cs arbitrary: st) (simp_all add: client_append_char_def)

text \<open>
  Property C2.  End to end: a client types a non-empty printable line of at most 255 characters
  (other than the exit command) into an empty input field and presses Enter; with the ring empty
  before, one pass of the server puts exactly \<open>name: line\<close> at the end of the room's history,
  uncut, and the input field is empty again.
\<close>

theorem shm_message_delivered:
  assumes "good_keys K" "room_ok r" "room_queue r = []" "client_ok st" "input st = []"
    and "printable w" "w \<noteq> []" "length w < MAX_TEXT" "w \<noteq> ''/exit''"
    and "client_run_event_loop K (map quiet_key (map of_char w @ [10])) st r = (st', r1)"
    and "server_pass Sem_ok r1 = (r2, calls, stop)"
  shows "last (room_history r2) = fit MAX_NAME (client_name st) @ '': '' @ w \<and>
    printed calls = [fit MAX_NAME (client_name st) @ '': '' @ w] \<and> input st' = []"
proof -
  let ?st1 = "foldl client_append_char st (map of_char w)"
  let ?q = "make_request ?st1 CHAT_CMD_TEXT (Some w)"
  have typed: "input ?st1 = w" and ok1: "client_ok ?st1"
    using input_field.types_text [of st w] input_field.type_keys [of st "map of_char w"] assms
    by (auto simp: MAX_TEXT_def)
  have len: "input_len ?st1 = length w" using ok1 typed by (simp add: client_ok_def)
  have room: "command_count r < CHAT_MAX_COMMANDS"
    using assms(3) by (metis length_room_queue list.size(3) CHAT_MAX_COMMANDS_def zero_less_numeral)
  from push_room [OF assms(2) room, of ?q] obtain r' where
    push: "room_push_command ?q r = Some r'" "room_ok r'" "room_queue r' = [?q]"
      "room_history r' = room_history r" "room_members r' = room_members r"
    using assms(3) by auto
  have ev: "client_event K 10 Sem_ok ?st1 r = (client_clear_input ?st1, r', False)"
    using assms(1,7,9) len typed push(1)
    by (simp add: client_event_def client_send_text_message_def client_send_command_def good_keys_def)
  have "client_run_event_loop K (map quiet_key (map of_char w @ [10])) st r =
      (client_clear_input ?st1, r')"
    unfolding typing_loop [OF assms(1,6)] by (simp add: quiet_key_def ev)
  with assms(10) have loop: "st' = client_clear_input ?st1" "r1 = r'" by auto
  have line: "lines_of ?q us = [fit MAX_NAME (client_name st) @ '': '' @ w]" for us
  proof -
    have "length (fit MAX_NAME (client_name st)) \<le> 63" by (simp add: MAX_NAME_def fit_def)
    then show ?thesis using assms(7,8)
      by (simp add: lines_of_def make_request_def chat_commands fit_short chat_sizes)
  qed
  from push(2) assms(11) [unfolded loop(2)] show ?thesis
  proof (cases rule: server_pass_cases)
    case idle
    then show ?thesis using push(3) by simp
  next
    case (served q)
    then have q: "q = ?q" using push(3) by simp
    from arg_cong [OF served(4), of fst] have
      "room_history r2 = push_capped CHAT_MAX_MESSAGES (fit MAX_NAME (client_name st) @ '': '' @ w) (room_history r')"
      by (simp add: chat_spec_history q line)
    then show ?thesis using served(3) q line loop(1)
      by (simp add: push_capped_def client_clear_input_def)
  qed
qed

definition demo_keys :: curses_keys where
  "demo_keys = \<lparr>key_err = -1, key_enter = 343, key_f10 = 274, key_backspace = 263\<rparr>"

definition demo_sender :: ClientState where
  "demo_sender = client_state_init\<lparr>client_name := ''ann'', client_pid := 7\<rparr>"

definition demo_typed :: "ClientState \<times> ChatRoom" where
  "demo_typed = client_run_event_loop demo_keys (map quiet_key (map of_char ''hi'' @ [10])) demo_sender zero_room"

definition demo_pass :: "ChatRoom \<times> sys_call list \<times> bool" where
  "demo_pass = server_pass Sem_ok (snd demo_typed)"

lemma shm_message_delivered_witness:
  "last (room_history (fst demo_pass)) = ''ann: hi'' \<and>
   printed (fst (snd demo_pass)) = [''ann: hi''] \<and> input (fst demo_typed) = []"
proof -
  have keys: "good_keys demo_keys" by (simp add: good_keys_def demo_keys_def)
  have ok: "client_ok demo_sender" "input demo_sender = []" by code_simp+
  have loop: "client_run_event_loop demo_keys (map quiet_key (map of_char ''hi'' @ [10])) demo_sender zero_room
      = (fst demo_typed, snd demo_typed)"
    by (simp only: demo_typed_def prod.collapse)
  have pass: "server_pass Sem_ok (snd demo_typed) = (fst demo_pass, fst (snd demo_pass), snd (snd demo_pass))"
    by (simp only: demo_pass_def prod.collapse)
  have w: "printable ''hi''" "length ''hi'' < MAX_TEXT" by code_simp+
  have name: "fit MAX_NAME (client_name demo_sender) = ''ann''" by code_simp
  show ?thesis
    using shm_message_delivered [OF keys room_ok_zero _ ok w(1) _ w(2) _ loop pass] name by simp
qed

subsection \<open>The end of the server\<close>

fun opened_fds :: "sys_call list \<Rightarrow> int list" where
  "opened_fds [] = []"
| "opened_fds (Shm_open fd # cs) = (if fd = -1 then [] else [fd]) @ opened_fds cs"
| "opened_fds (c # cs) = opened_fds cs"

fun closed_fds :: "sys_call list \<Rightarrow> int list" where
  "closed_fds [] = []"
| "closed_fds (Close fd # cs) = fd # closed_fds cs"
| "closed_fds (c # cs) = closed_fds cs"

lemma opened_fds_append [simp]: "opened_fds (cs @ ds) = opened_fds cs @ opened_fds ds"
  by (induction cs rule: opened_fds.induct) auto

lemma closed_fds_append [simp]: "closed_fds (cs @ ds) = closed_fds cs @ closed_fds ds"
  by (induction cs rule: closed_fds.induct) auto


lemma fds_Printf [simp]: "opened_fds (map Printf ls) = []" "closed_fds (map Printf ls) = []"
  by (induction ls) auto

lemma server_pass_calls:
  assumes "server_pass lock r = (r', calls, stop)"
  shows "opened_fds calls = []" "closed_fds calls = []" "Munmap \<notin> set calls" "\<forall>b. Mmap b \<notin> set calls"
  using assms by (auto simp: server_pass_def split: sem_result.splits option.splits prod.splits)

lemma server_loop_calls:
  "server_loop ps r = (r', calls) \<Longrightarrow>
   opened_fds calls = [] \<and> closed_fds calls = [] \<and> Munmap \<notin> set calls \<and> (\<forall>b. Mmap b \<notin> set calls)"
proof (induction ps arbitrary: r r' calls)
  case (Cons p ps)
  obtain run lock where p: "p = (run, lock)" by fastforce
  obtain r1 c1 stop where pass: "server_pass lock r = (r1, c1, stop)" by (metis prod_cases3)
  obtain r2 c2 where loop: "server_loop ps r1 = (r2, c2)" by fastforce
  from server_pass_calls [OF pass] Cons.IH [OF loop] Cons.prems p pass loop show ?case
    by (auto split: if_splits)
qed simp

text \<open>
  Whatever call of the start-up fails and however the loop ends, the server
  ends with the room unmapped and the descriptor closed: every descriptor of \<^verbatim>\<open>shm_open\<close> is
  closed once, every successful \<^verbatim>\<open>mmap\<close> has its \<^verbatim>\<open>munmap\<close>, the name is unlinked last, and the
  exit code is 0 exactly when the start-up succeeded.
\<close>

theorem shm_server_releases:
  "case server_main res ps of (code, s, calls) \<Rightarrow>
     g_room s = None \<and> g_shm_fd s = -1 \<and> closed_fds calls = opened_fds calls \<and>
     count_list calls Munmap = count_list calls (Mmap True) \<and> last calls = Shm_unlink \<and>
     (code = 0) = (res_shm_open res \<noteq> -1 \<and> res_ftruncate res \<noteq> -1 \<and> res_mmap res \<and> res_sem_init res \<noteq> -1)"
proof -
  obtain room out where loop: "server_loop ps zero_room = (room, out)" by fastforce
  from server_loop_calls [OF loop] show ?thesis
    by (simp add: server_main_def room_create_def room_destroy_def loop Let_def count_list_0_iff)
qed

subsection \<open>A leave that finds the ring full\<close>

lemma member_stays:
  "\<forall>q \<in> set qs. req_command q = CHAT_CMD_LEAVE \<longrightarrow> req_pid q \<noteq> pid \<Longrightarrow>
   pid \<in> set (map user_pid us) \<Longrightarrow> pid \<in> set (map user_pid (snd (fold chat_spec qs (h, us))))"
proof (induction qs arbitrary: h us)
  case (Cons q qs)
  have "pid \<in> set (map user_pid (snd (chat_spec q (h, us))))"
    using Cons.prems by (auto simp: chat_spec_def members_after_def admit_def chat_commands)
  with Cons show ?case by (cases "chat_spec q (h, us)") auto
qed simp

lemma passes_accept_nothing:
  "room_run (map Pass ls) r = (r', acc, out) \<Longrightarrow> acc = []"
proof (induction ls arbitrary: r r' acc out)
  case (Cons l ls)
  obtain r1 c1 stop where pass: "server_pass l r = (r1, c1, stop)" by (metis prod_cases3)
  obtain r2 a2 o2 where run: "room_run (map Pass ls) r1 = (r2, a2, o2)" by (metis prod_cases3)
  from Cons.IH [OF run] Cons.prems pass run show ?case by (auto split: if_splits)
qed simp

text \<open>
  A client that quits while the ring holds 32 requests, none of them its own
  leave, is not taken out of the room: its leave is refused, and it is still a member after any
  number of server passes, when no one sends anything more for it.
\<close>

theorem shm_leave_lost:
  assumes "room_ok r" "command_count r = CHAT_MAX_COMMANDS"
    and "client_pid st \<in> set (map user_pid (room_members r))"
    and "\<forall>q \<in> set (room_queue r). req_command q = CHAT_CMD_LEAVE \<longrightarrow> req_pid q \<noteq> client_pid st"
    and "client_cleanup True Sem_ok st r = (r1, calls)"
    and "room_run (map Pass ls) r1 = (r2, accepted, lines)"
  shows "r1 = r \<and> client_pid st \<in> set (map user_pid (room_members r2))"
proof -
  have "r1 = r" using assms(2,5)
    by (auto simp: client_cleanup_def client_send_command_def room_push_command_def)
  moreover from room_run_invariant [OF assms(1) assms(6) [unfolded calculation]]
  obtain served where "room_queue r = served @ room_queue r2"
    and "(room_history r2, room_members r2) = fold chat_spec served (room_history r, room_members r)"
    using passes_accept_nothing [OF assms(6)] by auto
  ultimately show ?thesis
    using member_stays [of served "client_pid st" "room_members r" "room_history r"] assms(3,4)
    by (metis Un_iff set_append snd_conv)
qed

definition demo_full_room :: ChatRoom where
  "demo_full_room = fst (room_run
     ([Request demo_join, Pass Sem_ok] @ replicate 32 (Request (demo_join\<lparr>req_command := 2\<rparr>))) zero_room)"

definition demo_left :: "ChatRoom \<times> sys_call list" where
  "demo_left = client_cleanup True Sem_ok demo_sender demo_full_room"

definition demo_after :: "ChatRoom \<times> ChatRequest list \<times> string list" where
  "demo_after = room_run (map Pass (replicate 40 Sem_ok)) (fst demo_left)"

lemma shm_leave_lost_witness:
  "7 \<in> set (map user_pid (room_members (fst demo_after)))"
proof -
  have ok: "room_ok demo_full_room" "command_count demo_full_room = CHAT_MAX_COMMANDS"
    "client_pid demo_sender \<in> set (map user_pid (room_members demo_full_room))"
    "\<forall>q \<in> set (room_queue demo_full_room). req_command q = CHAT_CMD_LEAVE \<longrightarrow> req_pid q \<noteq> client_pid demo_sender"
    by code_simp+
  have left: "client_cleanup True Sem_ok demo_sender demo_full_room = (fst demo_left, snd demo_left)"
    by (simp only: demo_left_def prod.collapse)
  have run: "room_run (map Pass (replicate 40 Sem_ok)) (fst demo_left) =
      (fst demo_after, fst (snd demo_after), snd (snd demo_after))"
    by (simp only: demo_after_def prod.collapse)
  have "client_pid demo_sender = 7" by code_simp
  with shm_leave_lost [OF ok left run] show ?thesis by simp
qed

end
