(* ===== verification/Mq_Server.thy ===== *)
theory Mq_Server
  imports C_Text Interfaces
begin

text \<open>
  The chat server of lab-13 over POSIX message queues: \<^verbatim>\<open>labs/lab-13/include/chat.h\<close> and
  \<^verbatim>\<open>labs/lab-13/src/chat_server.c\<close>.

  The server keeps a table of at most 16 clients (\<open>mq_server\<close>: the array and its count) and
  answers one message per pass of its loop (\<open>mq_pass\<close>).  The results of the queue calls of one
  pass are the record \<open>mq_results\<close>: an argument.  What the pass does to the queues and the
  terminal is the list of events it returns, in order.
\<close>

definition mq_MAX_NAME :: nat where "mq_MAX_NAME = 64"
definition mq_MAX_TEXT :: nat where "mq_MAX_TEXT = 256"
definition mq_MAX_CLIENTS :: nat where "mq_MAX_CLIENTS = 16"
definition mq_MAX_MESSAGES :: nat where "mq_MAX_MESSAGES = 64"
definition mq_QUEUE_NAME_SIZE :: nat where "mq_QUEUE_NAME_SIZE = 64"
definition mq_CMD_JOIN :: int where "mq_CMD_JOIN = 1"
definition mq_CMD_TEXT :: int where "mq_CMD_TEXT = 2"
definition mq_CMD_LEAVE :: int where "mq_CMD_LEAVE = 3"

lemmas mq_sizes = mq_MAX_NAME_def mq_MAX_TEXT_def mq_MAX_CLIENTS_def mq_MAX_MESSAGES_def
  mq_QUEUE_NAME_SIZE_def

lemmas mq_commands = mq_CMD_JOIN_def mq_CMD_TEXT_def mq_CMD_LEAVE_def

record ChatMessage =
  msg_mtype :: int
  msg_pid :: int
  msg_command :: int
  msg_name :: string
  msg_text :: string

definition mq_client_queue_name :: "nat \<Rightarrow> int \<Rightarrow> string" where
  "mq_client_queue_name n pid = fit n (''/chat_client_'' @ show_int pid)"

record ClientInfo =
  ci_pid :: int
  ci_queue :: int
  ci_name :: string

definition USERS_RESET_MESSAGE :: string where "USERS_RESET_MESSAGE = ''@@users-reset''"
definition USER_MESSAGE_PREFIX :: string where "USER_MESSAGE_PREFIX = ''@@user ''"

record mq_server =
  mq_clients :: "ClientInfo list"
  mq_client_count :: nat

text \<open>\<open>Mq_send q m ok\<close>: a send on queue \<open>q\<close>, which \<open>ok\<close> says the kernel accepted.\<close>

datatype mq_event = Mq_send int ChatMessage bool | Mq_open string int | Mq_close int
  | Mq_unlink string | Put_line string | Mq_perror string

definition mq_find_client :: "mq_server \<Rightarrow> int \<Rightarrow> int" where
  "mq_find_client s pid =
     index_of (scan (\<lambda>c. ci_pid c = pid) 0 (mq_client_count s) (mq_clients s))"

definition server_message :: "string \<Rightarrow> ChatMessage" where
  "server_message text =
     \<lparr>msg_mtype = 0, msg_pid = 0, msg_command = mq_CMD_TEXT,
      msg_name = fit mq_MAX_NAME ''server'', msg_text = fit mq_MAX_TEXT text\<rparr>"

text \<open>\<open>sent i\<close> says whether the \<open>i\<close>-th send of a loop is accepted.\<close>

definition mq_send_to_client :: "bool \<Rightarrow> int \<Rightarrow> string \<Rightarrow> mq_event list" where
  "mq_send_to_client ok queue text =
     Mq_send queue (server_message text) ok # (if ok then [] else [Mq_perror ''mq_send''])"

fun broadcast_from :: "(nat \<Rightarrow> bool) \<Rightarrow> nat \<Rightarrow> ClientInfo list \<Rightarrow> string \<Rightarrow> mq_event list" where
  "broadcast_from sent i [] text = []"
| "broadcast_from sent i (c # cs) text =
     mq_send_to_client (sent i) (ci_queue c) text @ broadcast_from sent (Suc i) cs text"

definition mq_broadcast :: "(nat \<Rightarrow> bool) \<Rightarrow> mq_server \<Rightarrow> string \<Rightarrow> mq_event list" where
  "mq_broadcast sent s text = broadcast_from sent 0 (take (mq_client_count s) (mq_clients s)) text"

definition mq_open_client_queue :: "int \<Rightarrow> int \<Rightarrow> int \<times> mq_event list" where
  "mq_open_client_queue res pid = (res, [Mq_open (mq_client_queue_name mq_QUEUE_NAME_SIZE pid) res])"

fun snapshot_from :: "(nat \<Rightarrow> bool) \<Rightarrow> nat \<Rightarrow> int \<Rightarrow> ClientInfo list \<Rightarrow> mq_event list" where
  "snapshot_from sent i queue [] = []"
| "snapshot_from sent i queue (c # cs) =
     mq_send_to_client (sent i) queue (fit (mq_MAX_NAME + 16) (USER_MESSAGE_PREFIX @ ci_name c)) @
     snapshot_from sent (Suc i) queue cs"

definition mq_send_user_snapshot :: "(nat \<Rightarrow> bool) \<Rightarrow> int \<Rightarrow> mq_server \<Rightarrow> mq_event list" where
  "mq_send_user_snapshot sent queue s =
     mq_send_to_client (sent 0) queue USERS_RESET_MESSAGE @
     snapshot_from sent 1 queue (take (mq_client_count s) (mq_clients s))"

record mq_results =
  opened :: int
  snapshot_sent :: "nat \<Rightarrow> bool"
  broadcast_sent :: "nat \<Rightarrow> bool"

text \<open>The table operations of the loop: the slot written by a join, the shift of a leave.\<close>

definition mq_add_client :: "int \<Rightarrow> int \<Rightarrow> string \<Rightarrow> mq_server \<Rightarrow> mq_server" where
  "mq_add_client pid queue name s =
     s\<lparr>mq_clients := (mq_clients s)[mq_client_count s :=
          \<lparr>ci_pid = pid, ci_queue = queue, ci_name = fit mq_MAX_NAME name\<rparr>],
       mq_client_count := mq_client_count s + 1\<rparr>"

definition mq_remove_client :: "nat \<Rightarrow> mq_server \<Rightarrow> mq_server" where
  "mq_remove_client index s =
     s\<lparr>mq_clients := shift_down index (mq_client_count s) (mq_clients s),
       mq_client_count := mq_client_count s - 1\<rparr>"

definition line_size :: nat where "line_size = mq_MAX_NAME + mq_MAX_TEXT + 32"

text \<open>The end of a join: the snapshot for a registered client, then the announcement.\<close>

definition mq_welcome :: "mq_results \<Rightarrow> ChatMessage \<Rightarrow> mq_server \<Rightarrow> mq_event list" where
  "mq_welcome res msg s =
     (let index = mq_find_client s (msg_pid msg);
          line = fit line_size (msg_name msg @ '' joined the chat'')
      in (if index \<noteq> -1
          then mq_send_user_snapshot (snapshot_sent res) (ci_queue (mq_clients s ! nat index)) s
          else []) @
         Put_line line # mq_broadcast (broadcast_sent res) s line)"

definition mq_join :: "mq_results \<Rightarrow> ChatMessage \<Rightarrow> mq_server \<Rightarrow> mq_server \<times> mq_event list" where
  "mq_join res msg s =
     (if mq_find_client s (msg_pid msg) = -1 \<and> mq_client_count s < mq_MAX_CLIENTS then
        (case mq_open_client_queue (opened res) (msg_pid msg) of
           (client_queue, ev) \<Rightarrow>
             if client_queue = -1 then (s, ev @ [Mq_perror ''mq_open client''])
             else
               let s1 = mq_add_client (msg_pid msg) client_queue (msg_name msg) s
               in (s1, ev @ mq_welcome res msg s1))
      else (s, mq_welcome res msg s))"

definition mq_leave :: "mq_results \<Rightarrow> ChatMessage \<Rightarrow> mq_server \<Rightarrow> mq_server \<times> mq_event list" where
  "mq_leave res msg s =
     (let index = mq_find_client s (msg_pid msg)
      in if index \<noteq> -1 then
           let c = mq_clients s ! nat index;
               line = fit line_size (ci_name c @ '' left the chat'');
               s1 = mq_remove_client (nat index) s
           in (s1, Mq_close (ci_queue c) # Put_line line #
                   mq_broadcast (broadcast_sent res) s1 line)
         else (s, []))"

definition mq_text :: "mq_results \<Rightarrow> ChatMessage \<Rightarrow> mq_server \<Rightarrow> mq_server \<times> mq_event list" where
  "mq_text res msg s =
     (let line = fit line_size (msg_name msg @ '': '' @ msg_text msg)
      in (s, Put_line line # mq_broadcast (broadcast_sent res) s line))"

definition mq_pass :: "mq_results \<Rightarrow> ChatMessage \<Rightarrow> mq_server \<Rightarrow> mq_server \<times> mq_event list" where
  "mq_pass res msg s =
     (if msg_command msg = mq_CMD_JOIN then mq_join res msg s
      else if msg_command msg = mq_CMD_LEAVE then mq_leave res msg s
      else if msg_command msg = mq_CMD_TEXT then mq_text res msg s
      else (s, []))"

text \<open>
  \<^verbatim>\<open>cleanup\<close>, called by the signal handler and when \<^verbatim>\<open>mq_receive\<close> fails, ends the process.
  \<open>mq_loop\<close> has one entry per pass, \<open>None\<close> for a failed receive; the end of the list stands for
  a signal.  The descriptors of the clients still in the table are closed by the exit itself.
\<close>

definition SERVER_QUEUE :: string where "SERVER_QUEUE = ''/chat_server''"

definition mq_cleanup :: "int \<Rightarrow> mq_event list" where
  "mq_cleanup g_server_queue =
     (if g_server_queue \<noteq> -1 then [Mq_close g_server_queue, Mq_unlink SERVER_QUEUE] else [])"

fun mq_loop ::
  "int \<Rightarrow> (ChatMessage option \<times> mq_results) list \<Rightarrow> mq_server \<Rightarrow> mq_server \<times> mq_event list" where
  "mq_loop q [] s = (s, mq_cleanup q)"
| "mq_loop q ((None, res) # ps) s = (s, Mq_perror ''mq_receive'' # mq_cleanup q)"
| "mq_loop q ((Some msg, res) # ps) s =
     (case mq_pass res msg s of
        (s1, ev) \<Rightarrow> (case mq_loop q ps s1 of (s2, ev2) \<Rightarrow> (s2, ev @ ev2)))"

definition mq_start :: mq_server where
  "mq_start =
     \<lparr>mq_clients = replicate mq_MAX_CLIENTS \<lparr>ci_pid = 0, ci_queue = 0, ci_name = []\<rparr>,
      mq_client_count = 0\<rparr>"

datatype unlink_result = Unlinked | Not_there | Unlink_error

definition mq_server_main ::
  "unlink_result \<Rightarrow> int \<Rightarrow> (ChatMessage option \<times> mq_results) list \<Rightarrow> int \<times> mq_event list" where
  "mq_server_main unl q ps =
     (if unl = Unlink_error then (1, [Mq_unlink SERVER_QUEUE, Mq_perror ''mq_unlink''])
      else if q = -1 then (1, [Mq_unlink SERVER_QUEUE, Mq_open SERVER_QUEUE q, Mq_perror ''mq_open''])
      else (0, [Mq_unlink SERVER_QUEUE, Mq_open SERVER_QUEUE q,
                Put_line ''Chat server started. Press Ctrl+C to stop.''] @
               snd (mq_loop q ps mq_start)))"

subsection \<open>The table\<close>

definition mq_table :: "mq_server \<Rightarrow> ClientInfo list" where
  "mq_table s = take (mq_client_count s) (mq_clients s)"

definition mq_ok :: "mq_server \<Rightarrow> bool" where
  "mq_ok s \<longleftrightarrow> length (mq_clients s) = mq_MAX_CLIENTS \<and> mq_client_count s \<le> mq_MAX_CLIENTS \<and>
     distinct (map ci_pid (mq_table s)) \<and> (\<forall>c \<in> set (mq_table s). length (ci_name c) < mq_MAX_NAME)"

lemma mq_ok_start [simp]: "mq_ok mq_start"
  by (simp add: mq_ok_def mq_start_def mq_table_def)

lemma mq_table_start [simp]: "mq_table mq_start = []"
  by (simp add: mq_start_def mq_table_def)

lemma mq_okD:
  assumes "mq_ok s"
  shows "length (mq_clients s) = 16" "mq_client_count s \<le> 16" "distinct (map ci_pid (mq_table s))"
    "length (mq_table s) = mq_client_count s"
  using assms by (auto simp: mq_ok_def mq_table_def mq_MAX_CLIENTS_def)

lemma mq_find_absent:
  "mq_ok s \<Longrightarrow> mq_find_client s pid = -1 \<longleftrightarrow> pid \<notin> ci_pid ` set (mq_table s)"
  by (auto simp: mq_find_client_def scan_None_set mq_okD mq_table_def)

lemma mq_find_present:
  assumes "mq_ok s" "mq_find_client s pid \<noteq> -1"
  obtains i where "mq_find_client s pid = int i" "i < mq_client_count s" "i < length (mq_table s)"
    "mq_table s ! i = mq_clients s ! i" "ci_pid (mq_clients s ! i) = pid"
proof -
  from assms(2) obtain i where i: "scan (\<lambda>c. ci_pid c = pid) 0 (mq_client_count s) (mq_clients s) = Some i"
    by (auto simp: mq_find_client_def)
  from scan_SomeD [OF i] mq_okD [OF assms(1)] i that [of i] show ?thesis
    by (simp add: mq_find_client_def mq_table_def)
qed

lemma mq_add_client_table:
  assumes "mq_ok s" "mq_client_count s < mq_MAX_CLIENTS"
  shows "mq_table (mq_add_client p q n s) =
    mq_table s @ [\<lparr>ci_pid = p, ci_queue = q, ci_name = fit mq_MAX_NAME n\<rparr>]"
  using assms by (simp add: mq_add_client_def mq_table_def take_append_slot mq_ok_def)

lemma mq_add_client_ok:
  assumes "mq_ok s" "mq_client_count s < mq_MAX_CLIENTS" "p \<notin> ci_pid ` set (mq_table s)"
  shows "mq_ok (mq_add_client p q n s)"
  using assms mq_add_client_table [OF assms(1,2)]
  by (auto simp: mq_ok_def mq_add_client_def length_fit_less mq_MAX_NAME_def)

lemma mq_remove_client_table:
  assumes "mq_ok s" "i < mq_client_count s"
  shows "mq_table (mq_remove_client i s) = remove_nth i (mq_table s)"
  using take_shift_down [OF assms(2), of "mq_clients s"] mq_okD [OF assms(1)]
  by (simp add: mq_remove_client_def mq_table_def)

lemma mq_remove_client_filter:
  assumes "mq_ok s" "i < mq_client_count s" "ci_pid (mq_clients s ! i) = p"
  shows "mq_table (mq_remove_client i s) = filter (\<lambda>c. ci_pid c \<noteq> p) (mq_table s)"
proof -
  have "i < length (mq_table s)" "mq_table s ! i = mq_clients s ! i"
    using assms mq_okD [OF assms(1)] by (simp_all add: mq_table_def)
  with remove_nth_filter [OF mq_okD(3) [OF assms(1)], of i] assms show ?thesis
    by (simp add: mq_remove_client_table)
qed

lemma mq_remove_client_ok:
  assumes "mq_ok s" "i < mq_client_count s"
  shows "mq_ok (mq_remove_client i s)"
proof -
  have "set (mq_table (mq_remove_client i s)) \<subseteq> set (mq_table s)"
    by (simp add: mq_remove_client_table [OF assms] set_remove_nth_subset)
  moreover have "distinct (map ci_pid (mq_table (mq_remove_client i s)))"
    using mq_okD(3) [OF assms(1)]
    by (simp add: mq_remove_client_table [OF assms] remove_nth_map)
  ultimately show ?thesis using assms by (auto simp: mq_ok_def mq_remove_client_def)
qed

subsection \<open>What a pass does to the table\<close>

definition join_table :: "int \<Rightarrow> ChatMessage \<Rightarrow> ClientInfo list \<Rightarrow> ClientInfo list" where
  "join_table queue msg cs =
     (if msg_pid msg \<notin> ci_pid ` set cs \<and> length cs < mq_MAX_CLIENTS \<and> queue \<noteq> -1
      then cs @ [\<lparr>ci_pid = msg_pid msg, ci_queue = queue, ci_name = fit mq_MAX_NAME (msg_name msg)\<rparr>]
      else cs)"

definition pass_table :: "int \<Rightarrow> ChatMessage \<Rightarrow> ClientInfo list \<Rightarrow> ClientInfo list" where
  "pass_table queue msg cs =
     (if msg_command msg = mq_CMD_JOIN then join_table queue msg cs
      else if msg_command msg = mq_CMD_LEAVE then filter (\<lambda>c. ci_pid c \<noteq> msg_pid msg) cs
      else cs)"

lemma mq_pass_table:
  assumes "mq_ok s"
  shows "mq_ok (fst (mq_pass res msg s)) \<and>
    mq_table (fst (mq_pass res msg s)) = pass_table (opened res) msg (mq_table s)"
proof -
  consider (join) "msg_command msg = mq_CMD_JOIN" | (leave) "msg_command msg = mq_CMD_LEAVE"
    | (other) "msg_command msg \<noteq> mq_CMD_JOIN" "msg_command msg \<noteq> mq_CMD_LEAVE"
    by blast
  then show ?thesis
  proof cases
    case join
    show ?thesis
    proof (cases "mq_find_client s (msg_pid msg) = -1 \<and> mq_client_count s < mq_MAX_CLIENTS \<and> opened res \<noteq> -1")
      case True
      with mq_find_absent [OF assms] have "msg_pid msg \<notin> ci_pid ` set (mq_table s)" by blast
      with True join assms show ?thesis
        by (simp add: mq_pass_def mq_join_def mq_open_client_queue_def Let_def pass_table_def
          join_table_def mq_add_client_table mq_add_client_ok mq_okD(4))
    next
      case False
      then show ?thesis
        using assms join mq_find_absent [OF assms, of "msg_pid msg"]
        by (auto simp: mq_pass_def mq_join_def mq_open_client_queue_def pass_table_def
          join_table_def mq_okD(4))
    qed
  next
    case leave
    show ?thesis
    proof (cases "mq_find_client s (msg_pid msg) = -1")
      case True
      then have "filter (\<lambda>c. ci_pid c \<noteq> msg_pid msg) (mq_table s) = mq_table s"
        using mq_find_absent [OF assms] by (auto simp: filter_id_conv intro: rev_image_eqI)
      with True leave assms show ?thesis
        by (simp add: mq_pass_def mq_leave_def pass_table_def mq_commands)
    next
      case False
      from mq_find_present [OF assms False] obtain i where
        "mq_find_client s (msg_pid msg) = int i" "i < mq_client_count s"
        "ci_pid (mq_clients s ! i) = msg_pid msg" by metis
      with leave assms show ?thesis
        by (simp add: mq_pass_def mq_leave_def Let_def pass_table_def mq_commands
          mq_remove_client_ok mq_remove_client_filter)
    qed
  next
    case other
    with assms show ?thesis by (auto simp: mq_pass_def mq_text_def pass_table_def Let_def)
  qed
qed

subsection \<open>The table is a table of sessions\<close>

definition mq_admit :: "int \<Rightarrow> int \<times> string \<Rightarrow> mq_server \<Rightarrow> mq_server" where
  "mq_admit pid qn s =
     (if mq_find_client s pid = -1 \<and> mq_client_count s < mq_MAX_CLIENTS
      then mq_add_client pid (fst qn) (snd qn) s else s)"

definition mq_dismiss :: "int \<Rightarrow> mq_server \<Rightarrow> mq_server" where
  "mq_dismiss pid s =
     (let index = mq_find_client s pid in if index \<noteq> -1 then mq_remove_client (nat index) s else s)"

lemma mq_dismiss_filter:
  assumes "mq_ok s"
  shows "mq_ok (mq_dismiss p s) \<and> mq_table (mq_dismiss p s) = filter (\<lambda>c. ci_pid c \<noteq> p) (mq_table s)"
proof (cases "mq_find_client s p = -1")
  case True
  then have "filter (\<lambda>c. ci_pid c \<noteq> p) (mq_table s) = mq_table s"
    using mq_find_absent [OF assms] by (auto simp: filter_id_conv intro: rev_image_eqI)
  with True assms show ?thesis by (simp add: mq_dismiss_def)
next
  case False
  from mq_find_present [OF assms False] obtain i where
    "mq_find_client s p = int i" "i < mq_client_count s" "ci_pid (mq_clients s ! i) = p" by metis
  with mq_remove_client_filter [OF assms this(2,3)] mq_remove_client_ok [OF assms this(2)] show ?thesis
    by (simp add: mq_dismiss_def)
qed

interpretation client_table: session_table mq_start "\<lambda>s. map ci_pid (mq_table s)" mq_admit mq_dismiss
  mq_ok mq_MAX_CLIENTS
proof (unfold_locales, goal_cases)
  case (3 t)
  then show ?case by (rule mq_okD)
next
  case (4 t)
  then show ?case using mq_okD(2,4) [OF 4] by (simp add: mq_MAX_CLIENTS_def)
next
  case (5 t k v)
  then show ?case using mq_find_absent [OF 5, of k] mq_add_client_ok [OF 5] by (auto simp: mq_admit_def)
next
  case (6 t k)
  then show ?case using mq_dismiss_filter by blast
next
  case (7 t k v)
  then show ?case using mq_find_absent [OF 7, of k] mq_add_client_table [OF 7] mq_okD(4) [OF 7]
    by (auto simp: mq_admit_def)
next
  case (8 t k)
  then show ?case using mq_dismiss_filter [OF 8] by auto
qed simp_all

end
