(* ===== verification/Mq_Client.thy ===== *)
theory Mq_Client
  imports Mq_Server Chat_Ui
begin

text \<open>
  The chat client of lab-13, \<^verbatim>\<open>labs/lab-13/src/chat_client.c\<close>.

  The client keeps the lines and user names it shows in arrays (\<open>mq_client\<close>).  The receiver
  thread feeds it one text at a time (\<open>mq_process_received_text\<close>), every access under the
  message lock; names are recovered from the lines themselves, which is why the properties of
  theory \<open>Mq_System\<close> speak about the shape of names and texts.
\<close>

definition JOIN_MESSAGE_SUFFIX :: string where "JOIN_MESSAGE_SUFFIX = '' joined the chat''"
definition LEAVE_MESSAGE_SUFFIX :: string where "LEAVE_MESSAGE_SUFFIX = '' left the chat''"
definition mq_LINE_LENGTH :: nat where "mq_LINE_LENGTH = mq_MAX_NAME + mq_MAX_TEXT + 8"

record mq_client =
  mc_server_queue :: int
  mc_client_queue :: int
  mc_pid :: int
  mc_receiver_started :: bool
  mc_name :: string
  mc_queue_name :: string
  mc_input :: string
  mc_input_len :: nat
  mc_messages :: "string list"
  mc_message_count :: nat
  mc_users :: "string list"
  mc_user_count :: nat

definition mq_client_init :: mq_client where
  "mq_client_init =
     \<lparr>mc_server_queue = -1, mc_client_queue = -1, mc_pid = 0, mc_receiver_started = False,
      mc_name = [], mc_queue_name = [], mc_input = [], mc_input_len = 0,
      mc_messages = replicate mq_MAX_MESSAGES [], mc_message_count = 0,
      mc_users = replicate mq_MAX_CLIENTS [], mc_user_count = 0\<rparr>"

definition mq_client_destroy :: "mq_client \<Rightarrow> mq_event list" where
  "mq_client_destroy st =
     (if mc_server_queue st \<noteq> -1 then [Mq_close (mc_server_queue st)] else []) @
     (if mc_client_queue st \<noteq> -1 then [Mq_close (mc_client_queue st)] else []) @
     (if mc_queue_name st \<noteq> [] then [Mq_unlink (mc_queue_name st)] else [])"

definition mq_client_push_message :: "mq_client \<Rightarrow> string \<Rightarrow> mq_client" where
  "mq_client_push_message st text =
     (if mc_message_count st < mq_MAX_MESSAGES then
        st\<lparr>mc_messages := (mc_messages st)[mc_message_count st := fit mq_LINE_LENGTH text],
           mc_message_count := mc_message_count st + 1\<rparr>
      else
        st\<lparr>mc_messages := (memmove_elems 0 1 (mq_MAX_MESSAGES - 1) (mc_messages st))
             [mq_MAX_MESSAGES - 1 := fit mq_LINE_LENGTH text]\<rparr>)"

definition mq_client_find_user :: "mq_client \<Rightarrow> string \<Rightarrow> int" where
  "mq_client_find_user st name = index_of (scan (\<lambda>u. u = name) 0 (mc_user_count st) (mc_users st))"

definition mq_client_add_user :: "mq_client \<Rightarrow> string \<Rightarrow> mq_client" where
  "mq_client_add_user st name =
     (if name = [] \<or> mq_client_find_user st name \<noteq> -1 then st
      else if mc_user_count st < mq_MAX_CLIENTS then
        st\<lparr>mc_users := (mc_users st)[mc_user_count st := fit mq_MAX_NAME name],
           mc_user_count := mc_user_count st + 1\<rparr>
      else st)"

definition mq_client_remove_user :: "mq_client \<Rightarrow> string \<Rightarrow> mq_client" where
  "mq_client_remove_user st name =
     (let index = mq_client_find_user st name
      in if index = -1 then st
         else
           let i = nat index;
               us = (if i < mc_user_count st - 1
                     then memmove_elems i (Suc i) (mc_user_count st - i - 1) (mc_users st)
                     else mc_users st);
               n = mc_user_count st - 1
           in st\<lparr>mc_users := us[n := []], mc_user_count := n\<rparr>)"

definition mq_extract_name_with_suffix :: "string \<Rightarrow> string \<Rightarrow> nat \<Rightarrow> string option" where
  "mq_extract_name_with_suffix text suffix n =
     (let text_len = length text; suffix_len = length suffix
      in if text_len \<le> suffix_len then None
         else if drop (text_len - suffix_len) text \<noteq> suffix then None
         else if text_len - suffix_len \<ge> n then None
         else Some (take (text_len - suffix_len) text))"

definition mq_extract_sender_name :: "string \<Rightarrow> nat \<Rightarrow> string option" where
  "mq_extract_sender_name text n =
     (case strstr text '': '' of
        None \<Rightarrow> None
      | Some name_len \<Rightarrow> if name_len = 0 \<or> name_len \<ge> n then None else Some (take name_len text))"

definition mq_process_control_message :: "mq_client \<Rightarrow> string \<Rightarrow> mq_client" where
  "mq_process_control_message st text =
     (if text = USERS_RESET_MESSAGE then st\<lparr>mc_user_count := 0\<rparr>
      else if starts_with text USER_MESSAGE_PREFIX
      then mq_client_add_user st (drop (length USER_MESSAGE_PREFIX) text)
      else st)"

definition mq_handle_control_message :: "mq_client \<Rightarrow> string \<Rightarrow> bool \<times> mq_client" where
  "mq_handle_control_message st text =
     (if text \<noteq> USERS_RESET_MESSAGE \<and> \<not> starts_with text USER_MESSAGE_PREFIX then (False, st)
      else (True, mq_process_control_message st text))"

definition mq_process_received_text :: "mq_client \<Rightarrow> string \<Rightarrow> mq_client" where
  "mq_process_received_text st text =
     (case mq_handle_control_message st text of
        (True, st1) \<Rightarrow> st1
      | (False, st1) \<Rightarrow>
          mq_client_push_message
            (case mq_extract_name_with_suffix text JOIN_MESSAGE_SUFFIX mq_MAX_NAME of
               Some name \<Rightarrow> mq_client_add_user st1 name
             | None \<Rightarrow>
                 (case mq_extract_name_with_suffix text LEAVE_MESSAGE_SUFFIX mq_MAX_NAME of
                    Some name \<Rightarrow> mq_client_remove_user st1 name
                  | None \<Rightarrow>
                      (case mq_extract_sender_name text mq_MAX_NAME of
                         Some name \<Rightarrow> mq_client_add_user st1 name
                       | None \<Rightarrow> st1)))
            text)"

definition mq_snapshot_messages :: "mq_client \<Rightarrow> string list \<times> string list" where
  "mq_snapshot_messages st =
     (map (fit mq_LINE_LENGTH) (take (mc_message_count st) (mc_messages st)),
      map (fit mq_MAX_NAME) (take (mc_user_count st) (mc_users st)))"

text \<open>The receiver thread over the results of \<^verbatim>\<open>mq_receive\<close>; it ends at the first error other
  than \<^verbatim>\<open>EINTR\<close>, or when it is cancelled (the end of the list).\<close>

datatype receive_result = Received ChatMessage | Interrupted | Receive_error

fun mq_receiver_thread :: "receive_result list \<Rightarrow> mq_client \<Rightarrow> mq_client" where
  "mq_receiver_thread [] st = st"
| "mq_receiver_thread (Received msg # rs) st =
     mq_receiver_thread rs (mq_process_received_text st (msg_text msg))"
| "mq_receiver_thread (Interrupted # rs) st = mq_receiver_thread rs st"
| "mq_receiver_thread (Receive_error # rs) st = st"

record mq_connect_results =
  mc_getpid :: int
  mc_unlink :: unlink_result
  mc_open_client :: int
  mc_open_server :: int

definition mq_client_connect ::
  "mq_connect_results \<Rightarrow> mq_client \<Rightarrow> int \<times> mq_client \<times> mq_event list" where
  "mq_client_connect res st =
     (let pid = mc_getpid res;
          qname = mq_client_queue_name mq_QUEUE_NAME_SIZE pid;
          st1 = st\<lparr>mc_pid := pid, mc_queue_name := qname\<rparr>
      in if mc_unlink res = Unlink_error then
           (-1, st1, [Mq_unlink qname, Mq_perror ''mq_unlink client''])
         else
           let st2 = st1\<lparr>mc_client_queue := mc_open_client res\<rparr>;
               ev2 = [Mq_unlink qname, Mq_open qname (mc_open_client res)]
           in if mc_open_client res = -1 then (-1, st2, ev2 @ [Mq_perror ''mq_open client''])
              else
                let st3 = st2\<lparr>mc_server_queue := mc_open_server res\<rparr>;
                    ev3 = ev2 @ [Mq_open SERVER_QUEUE (mc_open_server res)]
                in if mc_open_server res = -1 then (-1, st3, ev3 @ [Mq_perror ''mq_open server''])
                   else (0, st3, ev3))"

definition mq_client_message :: "mq_client \<Rightarrow> int \<Rightarrow> string option \<Rightarrow> ChatMessage" where
  "mq_client_message st command text =
     \<lparr>msg_mtype = 1, msg_pid = mc_pid st, msg_command = command,
      msg_name = fit mq_MAX_NAME (mc_name st),
      msg_text = (case text of None \<Rightarrow> [] | Some t \<Rightarrow> fit mq_MAX_TEXT t)\<rparr>"

definition mq_client_send_command ::
  "bool \<Rightarrow> mq_client \<Rightarrow> int \<Rightarrow> string option \<Rightarrow> int \<times> mq_event list" where
  "mq_client_send_command ok st command text =
     (if ok then 0 else -1, [Mq_send (mc_server_queue st) (mq_client_message st command text) ok])"

definition mq_client_start_receiver :: "bool \<Rightarrow> mq_client \<Rightarrow> int \<times> mq_client \<times> mq_event list" where
  "mq_client_start_receiver created st =
     (if \<not> created then (-1, st, [Mq_perror ''pthread_create''])
      else (0, st\<lparr>mc_receiver_started := True\<rparr>, []))"

definition mq_client_stop_receiver :: "mq_client \<Rightarrow> mq_client" where
  "mq_client_stop_receiver st =
     (if \<not> mc_receiver_started st then st else st\<lparr>mc_receiver_started := False\<rparr>)"

definition mq_client_clear_input :: "mq_client \<Rightarrow> mq_client" where
  "mq_client_clear_input st = st\<lparr>mc_input := [], mc_input_len := 0\<rparr>"

definition mq_client_remove_last_char :: "mq_client \<Rightarrow> mq_client" where
  "mq_client_remove_last_char st =
     (if mc_input_len st = 0 then st
      else st\<lparr>mc_input_len := mc_input_len st - 1, mc_input := take (mc_input_len st - 1) (mc_input st)\<rparr>)"

definition mq_client_append_char :: "mq_client \<Rightarrow> int \<Rightarrow> mq_client" where
  "mq_client_append_char st ch =
     (if ch < 32 \<or> ch \<ge> 127 \<or> mc_input_len st \<ge> mq_MAX_TEXT - 1 then st
      else st\<lparr>mc_input := take (mc_input_len st) (mc_input st) @ [char_of (nat ch)],
              mc_input_len := mc_input_len st + 1\<rparr>)"

definition mq_client_send_text_message :: "bool \<Rightarrow> mq_client \<Rightarrow> mq_client \<times> mq_event list" where
  "mq_client_send_text_message ok st =
     (if mc_input_len st = 0 then (st, [])
      else (case mq_client_send_command ok st mq_CMD_TEXT (Some (mc_input st)) of
              (r, ev) \<Rightarrow>
                (mq_client_clear_input
                   (if r = -1 then mq_client_push_message st ''Failed to send message'' else st), ev)))"

text \<open>
  The event loop.  One entry per key: the texts the receiver thread processed before the key was
  read, the key, whether a send it causes is accepted.
\<close>

record mq_key =
  mk_received :: "string list"
  mk_pressed :: int
  mk_sent :: bool

definition mq_client_event ::
  "curses_keys \<Rightarrow> int \<Rightarrow> bool \<Rightarrow> mq_client \<Rightarrow> mq_client \<times> mq_event list \<times> bool" where
  "mq_client_event K ch ok st =
     (if ch = key_err K then (st, [], False)
      else if ch = 10 \<or> ch = key_enter K then
        (if mc_input st = ''/exit'' then (st, [], True)
         else (case mq_client_send_text_message ok st of (st1, ev) \<Rightarrow> (st1, ev, False)))
      else if ch = key_f10 K then (st, [], True)
      else if ch = key_backspace K \<or> ch = 127 \<or> ch = 8 then (mq_client_remove_last_char st, [], False)
      else (mq_client_append_char st ch, [], False))"

fun mq_client_run_event_loop ::
  "curses_keys \<Rightarrow> mq_key list \<Rightarrow> mq_client \<Rightarrow> mq_client \<times> mq_event list" where
  "mq_client_run_event_loop K [] st = (st, [])"
| "mq_client_run_event_loop K (k # ks) st =
     (case mq_client_event K (mk_pressed k) (mk_sent k)
             (foldl mq_process_received_text st (mk_received k)) of
        (st1, ev, stop) \<Rightarrow>
          if stop then (st1, ev)
          else (case mq_client_run_event_loop K ks st1 of (st2, ev2) \<Rightarrow> (st2, ev @ ev2)))"

text \<open>
  \<^verbatim>\<open>main\<close> with its \<^verbatim>\<open>goto cleanup\<close>; the answers of the calls it makes are the record
  \<open>mq_main_results\<close>.
\<close>

record mq_main_results =
  mm_ui_init :: int
  mm_prompt :: "string option"
  mm_connect :: mq_connect_results
  mm_join_sent :: bool
  mm_thread :: bool
  mm_leave_sent :: bool

definition mq_client_cleanup :: "bool \<Rightarrow> bool \<Rightarrow> mq_client \<Rightarrow> mq_event list" where
  "mq_client_cleanup joined ok st =
     (if joined then snd (mq_client_send_command ok st mq_CMD_LEAVE None) else []) @
     mq_client_destroy (mq_client_stop_receiver st)"

definition mq_client_main ::
  "curses_keys \<Rightarrow> mq_main_results \<Rightarrow> mq_key list \<Rightarrow> int \<times> mq_event list" where
  "mq_client_main K res ks =
     (let st0 = mq_client_init;
          fail = (\<lambda>joined st ev. (1, ev @ mq_client_cleanup joined (mm_leave_sent res) st))
      in if mm_ui_init res = -1 then fail False st0 []
         else case mm_prompt res of
             None \<Rightarrow> fail False st0 []
           | Some nm \<Rightarrow>
               (case mq_client_connect (mm_connect res)
                       (mq_client_add_user (st0\<lparr>mc_name := nm\<rparr>) nm) of
                  (c, st1, ev1) \<Rightarrow>
                    if c = -1 then fail False st1 ev1
                    else (case mq_client_send_command (mm_join_sent res) st1 mq_CMD_JOIN None of
                        (j, ev2) \<Rightarrow>
                          if j = -1 then fail False st1 (ev1 @ ev2 @ [Mq_perror ''mq_send''])
                          else (case mq_client_start_receiver (mm_thread res) st1 of
                              (t, st2, ev3) \<Rightarrow>
                                if t = -1 then fail True st2 (ev1 @ ev2 @ ev3)
                                else (case mq_client_run_event_loop K ks
                                             (mq_client_push_message st2 ''Connected to chat'') of
                                    (st3, ev4) \<Rightarrow>
                                      (0, ev1 @ ev2 @ ev3 @ ev4 @
                                            mq_client_cleanup True (mm_leave_sent res) st3))))))"

subsection \<open>What the client shows\<close>

definition mc_history :: "mq_client \<Rightarrow> string list" where
  "mc_history st = take (mc_message_count st) (mc_messages st)"

definition mc_names :: "mq_client \<Rightarrow> string list" where
  "mc_names st = take (mc_user_count st) (mc_users st)"

definition mq_client_ok :: "mq_client \<Rightarrow> bool" where
  "mq_client_ok st \<longleftrightarrow> length (mc_messages st) = mq_MAX_MESSAGES \<and>
     mc_message_count st \<le> mq_MAX_MESSAGES \<and> length (mc_users st) = mq_MAX_CLIENTS \<and>
     mc_user_count st \<le> mq_MAX_CLIENTS \<and>
     (\<forall>m \<in> set (mc_history st). length m < mq_LINE_LENGTH) \<and>
     (\<forall>u \<in> set (mc_names st). length u < mq_MAX_NAME) \<and>
     mc_input_len st = length (mc_input st) \<and> mc_input_len st < mq_MAX_TEXT"

lemma mq_client_okD:
  assumes "mq_client_ok st"
  shows "length (mc_messages st) = 64" "mc_message_count st \<le> 64" "length (mc_users st) = 16"
    "mc_user_count st \<le> 16" "length (mc_names st) = mc_user_count st"
  using assms by (auto simp: mq_client_ok_def mq_sizes mc_names_def)

lemma mq_client_ok_init [simp]: "mq_client_ok mq_client_init"
  by (simp add: mq_client_ok_def mq_client_init_def mc_history_def mc_names_def mq_MAX_TEXT_def)

lemma mq_edit_frame [simp]:
  "mc_history (mq_client_append_char st ch) = mc_history st"
  "mc_names (mq_client_append_char st ch) = mc_names st"
  "mc_history (mq_client_remove_last_char st) = mc_history st"
  "mc_names (mq_client_remove_last_char st) = mc_names st"
  "mc_history (mq_client_clear_input st) = mc_history st"
  "mc_names (mq_client_clear_input st) = mc_names st"
  by (simp_all add: mq_client_append_char_def mq_client_remove_last_char_def
      mq_client_clear_input_def mc_history_def mc_names_def)

lemma mq_client_ok_edit [simp]:
  "mq_client_ok st \<Longrightarrow> mq_client_ok (mq_client_append_char st ch)"
  "mq_client_ok st \<Longrightarrow> mq_client_ok (mq_client_remove_last_char st)"
  "mq_client_ok st \<Longrightarrow> mq_client_ok (mq_client_clear_input st)"
  by (simp_all add: mq_client_ok_def) (auto simp: mq_client_append_char_def
      mq_client_remove_last_char_def mq_client_clear_input_def mq_MAX_TEXT_def)

interpretation mq_input_field: line_editor mc_input mq_client_ok mq_client_append_char
  mq_client_remove_last_char mq_client_clear_input "mq_MAX_TEXT - 1"
  by unfold_locales
    (simp_all, auto simp: mq_client_append_char_def mq_client_remove_last_char_def
      mq_client_clear_input_def mq_client_ok_def butlast_conv_take)

lemma mq_push_frame [simp]:
  "mc_names (mq_client_push_message st t) = mc_names st"
  "mc_user_count (mq_client_push_message st t) = mc_user_count st"
  "mc_name (mq_client_push_message st t) = mc_name st"
  by (simp_all add: mq_client_push_message_def mc_names_def)

lemma mq_push_history [simp]:
  assumes "mq_client_ok st"
  shows "mc_history (mq_client_push_message st t) =
    push_capped mq_MAX_MESSAGES (fit mq_LINE_LENGTH t) (mc_history st)"
proof (cases "mc_message_count st < mq_MAX_MESSAGES")
  case True
  with mq_client_okD [OF assms] show ?thesis
    by (simp add: mq_client_push_message_def mc_history_def push_capped_def take_append_slot mq_sizes)
next
  case False
  with mq_client_okD [OF assms] have c: "mc_message_count st = 64" "length (mc_messages st) = 64"
    by (simp_all add: mq_sizes)
  with memmove_history [OF c(2)] show ?thesis
    by (simp add: mq_client_push_message_def mc_history_def push_capped_def mq_MAX_MESSAGES_def)
qed

lemma mq_push_ok [simp]:
  assumes "mq_client_ok st"
  shows "mq_client_ok (mq_client_push_message st t)"
proof -
  have "length m < mq_LINE_LENGTH" if "m \<in> set (mc_history (mq_client_push_message st t))" for m
    using that assms set_push_capped [of mq_MAX_MESSAGES "fit mq_LINE_LENGTH t" "mc_history st"]
    by (auto simp: mq_client_ok_def length_fit_less mq_LINE_LENGTH_def mq_sizes)
  with assms show ?thesis
    using mq_push_frame(1) [of st t]
    by (auto simp: mq_client_ok_def mq_client_push_message_def mq_sizes)
qed

lemma mq_find_user_absent:
  "mq_client_ok st \<Longrightarrow> mq_client_find_user st n = -1 \<longleftrightarrow> n \<notin> set (mc_names st)"
  by (auto simp: mq_client_find_user_def scan_None_set mq_client_okD mc_names_def)

text \<open>The two updates of the user list, on the names in use.\<close>

definition add_name :: "string \<Rightarrow> string list \<Rightarrow> string list" where
  "add_name n ns = (if n = [] \<or> n \<in> set ns \<or> mq_MAX_CLIENTS \<le> length ns then ns
    else ns @ [fit mq_MAX_NAME n])"

lemma mq_add_user_names [simp]:
  "mq_client_ok st \<Longrightarrow> mc_names (mq_client_add_user st n) = add_name n (mc_names st)"
  using mq_find_user_absent [of st n] mq_client_okD(5) [of st]
  by (auto simp: mq_client_add_user_def add_name_def mc_names_def take_append_slot mq_client_ok_def)

lemma mq_add_user_frame [simp]:
  "mc_history (mq_client_add_user st n) = mc_history st"
  "mc_name (mq_client_add_user st n) = mc_name st"
  by (simp_all add: mq_client_add_user_def mc_history_def)

lemma mq_add_user_ok [simp]:
  assumes "mq_client_ok st"
  shows "mq_client_ok (mq_client_add_user st n)"
proof -
  have "length u < mq_MAX_NAME" if "u \<in> set (mc_names (mq_client_add_user st n))" for u
    using that assms by (auto simp: add_name_def mq_client_ok_def length_fit_less mq_MAX_NAME_def
      split: if_splits)
  with assms show ?thesis
    using mq_add_user_frame(1) [of st n]
    by (auto simp: mq_client_ok_def) (auto simp: mq_client_add_user_def)
qed

lemma mq_remove_user_frame [simp]:
  "mc_history (mq_client_remove_user st n) = mc_history st"
  "mc_name (mq_client_remove_user st n) = mc_name st"
  by (simp_all add: mq_client_remove_user_def mc_history_def Let_def)

lemma mq_remove_user_found:
  assumes "mq_client_ok st" "mq_client_find_user st n \<noteq> -1"
  obtains i where "i < length (mc_names st)" "mc_names st ! i = n"
    "mc_names (mq_client_remove_user st n) = remove_nth i (mc_names st)"
    "length (mc_users (mq_client_remove_user st n)) = mq_MAX_CLIENTS"
    "mc_user_count (mq_client_remove_user st n) \<le> mq_MAX_CLIENTS"
proof -
  note len = mq_client_okD [OF assms(1)]
  from assms(2) obtain i where i: "scan (\<lambda>u. u = n) 0 (mc_user_count st) (mc_users st) = Some i"
    by (auto simp: mq_client_find_user_def)
  from scan_SomeD [OF i] have lt: "i < mc_user_count st" "mc_users st ! i = n" by auto
  let ?us = "memmove_elems i (Suc i) (mc_user_count st - i - 1) (mc_users st)"
  have "mc_user_count st - i - 1 = 0" if "\<not> i < mc_user_count st - 1" using that lt(1) by simp
  then have "(if i < mc_user_count st - 1 then ?us else mc_users st) = ?us"
    by (auto simp: memmove_elems_def)
  then have st': "mq_client_remove_user st n =
      st\<lparr>mc_users := ?us[mc_user_count st - 1 := []], mc_user_count := mc_user_count st - 1\<rparr>"
    using i by (simp add: mq_client_remove_user_def mq_client_find_user_def Let_def)
  have "mc_names (mq_client_remove_user st n) = remove_nth i (mc_names st)"
    using take_memmove_gap [OF lt(1), of "mc_users st"] len by (simp add: st' mc_names_def)
  moreover have "length ?us = mq_MAX_CLIENTS" using lt(1) len by (simp add: mq_MAX_CLIENTS_def)
  ultimately show ?thesis
    using that [of i] lt len by (simp add: st' mc_names_def mq_MAX_CLIENTS_def)
qed

lemma mq_remove_user_names:
  assumes "mq_client_ok st" "distinct (mc_names st)"
  shows "mc_names (mq_client_remove_user st n) = filter (\<lambda>u. u \<noteq> n) (mc_names st)"
proof (cases "mq_client_find_user st n = -1")
  case True
  then show ?thesis using mq_find_user_absent [OF assms(1)]
    by (auto simp: mq_client_remove_user_def intro!: filter_True [symmetric])
next
  case False
  from mq_remove_user_found [OF assms(1) False] obtain i where "i < length (mc_names st)"
    "mc_names st ! i = n" "mc_names (mq_client_remove_user st n) = remove_nth i (mc_names st)" by metis
  with remove_nth_filter [of "\<lambda>u. u" "mc_names st" i] assms(2) show ?thesis by simp
qed

lemma mq_remove_user_ok [simp]:
  assumes "mq_client_ok st"
  shows "mq_client_ok (mq_client_remove_user st n)"
proof (cases "mq_client_find_user st n = -1")
  case True
  with assms show ?thesis by (simp add: mq_client_remove_user_def)
next
  case False
  from mq_remove_user_found [OF assms False] obtain i where
    i: "mc_names (mq_client_remove_user st n) = remove_nth i (mc_names st)"
    "length (mc_users (mq_client_remove_user st n)) = mq_MAX_CLIENTS"
    "mc_user_count (mq_client_remove_user st n) \<le> mq_MAX_CLIENTS" by metis
  have "set (mc_names (mq_client_remove_user st n)) \<subseteq> set (mc_names st)"
    unfolding i(1) by (rule set_remove_nth_subset)
  with assms i(2,3) show ?thesis
    by (simp add: mq_client_ok_def subset_iff) (simp add: mq_client_remove_user_def Let_def)
qed

text \<open>The reset of the list, and one received text.\<close>

lemma mq_reset [simp]:
  "mc_names (st\<lparr>mc_user_count := 0\<rparr>) = []"
  "mc_history (st\<lparr>mc_user_count := n\<rparr>) = mc_history st"
  "mq_client_ok st \<Longrightarrow> mq_client_ok (st\<lparr>mc_user_count := 0\<rparr>)"
  by (simp_all add: mq_client_ok_def mc_names_def mc_history_def)

lemma mq_received_ok [simp]:
  "mq_client_ok st \<Longrightarrow> mq_client_ok (mq_process_received_text st t)"
  by (auto simp: mq_process_received_text_def mq_handle_control_message_def
    mq_process_control_message_def split: bool.splits option.splits)

lemma mq_received_all_ok [simp]:
  "mq_client_ok st \<Longrightarrow> mq_client_ok (foldl mq_process_received_text st ts)"
  by (induction ts arbitrary: st) simp_all

end
