(* ===== verification/Mq_System.thy ===== *)
theory Mq_System
  imports Mq_Client "HOL-Library.Multiset"
begin

text \<open>
  Server and clients of lab-13 together.  \<open>mq_view_run\<close> lets the server handle a list of
  messages while one client, with queue \<open>q0\<close>, processes what the server sends to it.  The
  client learns who is in the room from the texts alone; the main theorem says under which
  conditions on names and texts its list is the server's table.
\<close>

subsection \<open>How a client reads a line\<close>

lemma extract_suffix_eq:
  "mq_extract_name_with_suffix s suf n = Some m \<longleftrightarrow> s = m @ suf \<and> m \<noteq> [] \<and> length m < n"
proof
  assume a: "mq_extract_name_with_suffix s suf n = Some m"
  then have "length suf < length s" "drop (length s - length suf) s = suf"
    "length s - length suf < n" "m = take (length s - length suf) s"
    by (auto simp: mq_extract_name_with_suffix_def Let_def split: if_splits)
  then show "s = m @ suf \<and> m \<noteq> [] \<and> length m < n"
    by (metis append_take_drop_id diff_le_self length_take list.size(3) min.absorb2
      not_less_zero zero_less_diff)
qed (auto simp: mq_extract_name_with_suffix_def)

lemma extract_suffix_other:
  "\<not> ends_with s suf \<Longrightarrow> mq_extract_name_with_suffix s suf n = None"
  using extract_suffix_eq [of s suf n] by (cases "mq_extract_name_with_suffix s suf n")
    (auto simp: ends_with_iff)

lemma strstr_sender:
  "strstr n '': '' = None \<Longrightarrow> strstr (n @ '': '' @ y) '': '' = Some (length n)"
proof (induction n)
  case (Cons c n)
  then have none: "strstr n '': '' = None" and ns: "\<not> starts_with (c # n) '': ''"
    by (auto split: if_splits)
  then have "\<not> starts_with (c # n @ '': '' @ y) '': ''"
    by (cases n) (auto simp: starts_with_def)
  with Cons.IH [OF none] show ?case by simp
qed (simp add: starts_with_def)

text \<open>A name that cannot be mistaken: not empty, not too long, without the separator, and not
  the beginning of a control message.\<close>

definition tame_name :: "string \<Rightarrow> bool" where
  "tame_name n \<longleftrightarrow> n \<noteq> [] \<and> length n < mq_MAX_NAME \<and> strstr n '': '' = None \<and>
     \<not> starts_with (n @ '' '') USER_MESSAGE_PREFIX"

text \<open>A line that does not end like an announcement.\<close>

definition plain_line :: "string \<Rightarrow> bool" where
  "plain_line l \<longleftrightarrow> \<not> ends_with l JOIN_MESSAGE_SUFFIX \<and> \<not> ends_with l LEAVE_MESSAGE_SUFFIX"

lemma prefix_of_line:
  assumes "starts_with (n @ c # r) USER_MESSAGE_PREFIX" "\<not> starts_with (n @ '' '') USER_MESSAGE_PREFIX"
  shows "length n < 6 \<and> USER_MESSAGE_PREFIX ! length n = c \<or> length n = 6 \<and> c \<noteq> CHR '' '' \<and> USER_MESSAGE_PREFIX ! 6 = c"
proof -
  have len: "length USER_MESSAGE_PREFIX = 7" by (simp add: USER_MESSAGE_PREFIX_def)
  have eq: "take 7 (n @ c # r) = USER_MESSAGE_PREFIX" using assms(1) len by (simp add: starts_with_def)
  have lt: "length n < 7"
  proof (rule ccontr)
    assume "\<not> length n < 7"
    with eq assms(2) len show False by (simp add: starts_with_def)
  qed
  then have "USER_MESSAGE_PREFIX ! length n = c"
    using eq by (metis nth_append_length nth_take)
  moreover have "c \<noteq> CHR '' ''" if "length n = 6"
    using eq assms(2) len that by (auto simp: starts_with_def)
  ultimately show ?thesis using lt by (cases "length n = 6") auto
qed

lemma not_control:
  assumes "tame_name n" "c = CHR '' '' \<or> c = CHR '':''" "CHR '' '' \<in> set (c # r)"
  shows "mq_handle_control_message st (n @ c # r) = (False, st)"
proof -
  have "USER_MESSAGE_PREFIX ! k \<notin> {CHR '' '', CHR '':''}" if "k < 6" for k
    using that by (auto simp: USER_MESSAGE_PREFIX_def less_Suc_eq numeral_eq_Suc)
  moreover have "USER_MESSAGE_PREFIX ! 6 = CHR '' ''" by (simp add: USER_MESSAGE_PREFIX_def)
  ultimately have "\<not> starts_with (n @ c # r) USER_MESSAGE_PREFIX"
    using prefix_of_line [of n c r] assms(1,2) by (auto simp: tame_name_def)
  moreover have "CHR '' '' \<notin> set USERS_RESET_MESSAGE" by (simp add: USERS_RESET_MESSAGE_def)
  then have "n @ c # r \<noteq> USERS_RESET_MESSAGE" using assms(3) by (metis Un_iff set_append)
  ultimately show ?thesis by (simp add: mq_handle_control_message_def)
qed

lemma left_is_not_joined: "\<not> ends_with (n @ LEAVE_MESSAGE_SUFFIX) JOIN_MESSAGE_SUFFIX"
proof
  assume "ends_with (n @ LEAVE_MESSAGE_SUFFIX) JOIN_MESSAGE_SUFFIX"
  then obtain t where "n @ LEAVE_MESSAGE_SUFFIX = t @ JOIN_MESSAGE_SUFFIX" by (auto simp: ends_with_iff)
  from arg_cong [OF this, of "\<lambda>s. take 10 (rev s)"] show False
    by (simp add: LEAVE_MESSAGE_SUFFIX_def JOIN_MESSAGE_SUFFIX_def)
qed

lemma read_joined:
  assumes "tame_name n"
  shows "mq_process_received_text st (n @ JOIN_MESSAGE_SUFFIX) =
    mq_client_push_message (mq_client_add_user st n) (n @ JOIN_MESSAGE_SUFFIX)"
proof -
  have "mq_handle_control_message st (n @ JOIN_MESSAGE_SUFFIX) = (False, st)"
    unfolding JOIN_MESSAGE_SUFFIX_def by (rule not_control [OF assms]) simp_all
  moreover have "mq_extract_name_with_suffix (n @ JOIN_MESSAGE_SUFFIX) JOIN_MESSAGE_SUFFIX mq_MAX_NAME = Some n"
    using assms by (simp add: extract_suffix_eq tame_name_def)
  ultimately show ?thesis by (simp add: mq_process_received_text_def)
qed

lemma read_left:
  assumes "tame_name n"
  shows "mq_process_received_text st (n @ LEAVE_MESSAGE_SUFFIX) =
    mq_client_push_message (mq_client_remove_user st n) (n @ LEAVE_MESSAGE_SUFFIX)"
proof -
  have "mq_handle_control_message st (n @ LEAVE_MESSAGE_SUFFIX) = (False, st)"
    unfolding LEAVE_MESSAGE_SUFFIX_def by (rule not_control [OF assms]) simp_all
  moreover have "mq_extract_name_with_suffix (n @ LEAVE_MESSAGE_SUFFIX) LEAVE_MESSAGE_SUFFIX mq_MAX_NAME = Some n"
    using assms by (simp add: extract_suffix_eq tame_name_def)
  moreover note extract_suffix_other [OF left_is_not_joined]
  ultimately show ?thesis by (simp add: mq_process_received_text_def)
qed

lemma read_said:
  assumes "tame_name n" "plain_line (n @ '': '' @ x)"
  shows "mq_process_received_text st (n @ '': '' @ x) =
    mq_client_push_message (mq_client_add_user st n) (n @ '': '' @ x)"
proof -
  have "mq_handle_control_message st (n @ CHR '':'' # CHR '' '' # x) = (False, st)"
    by (rule not_control [OF assms(1)]) simp_all
  then have "mq_handle_control_message st (n @ '': '' @ x) = (False, st)" by simp
  moreover have "mq_extract_sender_name (n @ '': '' @ x) mq_MAX_NAME = Some n"
    using assms(1) strstr_sender [of n x] by (simp add: mq_extract_sender_name_def tame_name_def)
  moreover have "mq_extract_name_with_suffix (n @ '': '' @ x) JOIN_MESSAGE_SUFFIX mq_MAX_NAME = None"
    "mq_extract_name_with_suffix (n @ '': '' @ x) LEAVE_MESSAGE_SUFFIX mq_MAX_NAME = None"
    using assms(2) by (auto simp: plain_line_def intro: extract_suffix_other)
  ultimately show ?thesis by (simp add: mq_process_received_text_def)
qed

lemma read_reset: "mq_process_received_text st USERS_RESET_MESSAGE = st\<lparr>mc_user_count := 0\<rparr>"
  by (simp add: mq_process_received_text_def mq_handle_control_message_def mq_process_control_message_def)

lemma read_user:
  "mq_process_received_text st (USER_MESSAGE_PREFIX @ n) = mq_client_add_user st n"
  by (simp add: mq_process_received_text_def mq_handle_control_message_def
    mq_process_control_message_def) (simp add: USER_MESSAGE_PREFIX_def USERS_RESET_MESSAGE_def)

subsection \<open>What the server sends to one queue\<close>

fun delivered :: "int \<Rightarrow> mq_event list \<Rightarrow> string list" where
  "delivered q [] = []"
| "delivered q (Mq_send q' m ok # es) = (if q' = q \<and> ok then [msg_text m] else []) @ delivered q es"
| "delivered q (e # es) = delivered q es"

fun put_lines :: "mq_event list \<Rightarrow> string list" where
  "put_lines [] = []"
| "put_lines (Put_line l # es) = l # put_lines es"
| "put_lines (e # es) = put_lines es"

lemma delivered_append [simp]: "delivered q (es @ fs) = delivered q es @ delivered q fs"
  by (induction q es rule: delivered.induct) auto

lemma put_lines_append [simp]: "put_lines (es @ fs) = put_lines es @ put_lines fs"
  by (induction es rule: put_lines.induct) auto

text \<open>From here on every send is accepted; \<open>mq_answer q\<close> opens descriptor \<open>q\<close>.\<close>

definition mq_answer :: "int \<Rightarrow> mq_results" where
  "mq_answer q = \<lparr>opened = q, snapshot_sent = \<lambda>_. True, broadcast_sent = \<lambda>_. True\<rparr>"

lemma mq_answer_simps [simp]:
  "opened (mq_answer q) = q" "snapshot_sent (mq_answer q) = (\<lambda>_. True)"
  "broadcast_sent (mq_answer q) = (\<lambda>_. True)"
  by (simp_all add: mq_answer_def)

lemma delivered_to_client [simp]:
  "delivered q (mq_send_to_client True q' t) = (if q' = q then [fit mq_MAX_TEXT t] else [])"
  by (simp add: mq_send_to_client_def server_message_def)

lemma delivered_broadcast_from:
  "delivered q (broadcast_from (\<lambda>_. True) i cs t) =
     map (\<lambda>c. fit mq_MAX_TEXT t) (filter (\<lambda>c. ci_queue c = q) cs)"
  by (induction cs arbitrary: i) auto

lemma put_lines_sends [simp]:
  "put_lines (broadcast_from sent i cs t) = []" "put_lines (snapshot_from sent i q cs) = []"
  "put_lines (mq_send_to_client ok q t) = []"
proof -
  show send: "put_lines (mq_send_to_client ok q t) = []" for ok q t by (simp add: mq_send_to_client_def)
  show "put_lines (broadcast_from sent i cs t) = []"
    by (induction cs arbitrary: i) (simp_all add: send)
  show "put_lines (snapshot_from sent i q cs) = []"
    by (induction cs arbitrary: i) (simp_all add: send)
qed

lemma put_lines_broadcast [simp]: "put_lines (mq_broadcast sent s t) = []"
  by (simp add: mq_broadcast_def)

lemma put_lines_snapshot [simp]: "put_lines (mq_send_user_snapshot sent q s) = []"
  by (simp add: mq_send_user_snapshot_def)

definition distinct_queues :: "mq_server \<Rightarrow> bool" where
  "distinct_queues s \<longleftrightarrow> distinct (map ci_queue (mq_table s))"

lemma delivered_broadcast:
  assumes "distinct_queues s"
  shows "delivered q (mq_broadcast (\<lambda>_. True) s t) =
    (if q \<in> ci_queue ` set (mq_table s) then [fit mq_MAX_TEXT t] else [])"
proof (cases "q \<in> ci_queue ` set (mq_table s)")
  case True
  then obtain i where "i < length (mq_table s)" "ci_queue (mq_table s ! i) = q"
    by (auto simp: in_set_conv_nth)
  with filter_unique [of ci_queue "mq_table s" i] assms have
    "filter (\<lambda>c. ci_queue c = q) (mq_table s) = [mq_table s ! i]" by (simp add: distinct_queues_def)
  with True show ?thesis by (simp add: mq_broadcast_def delivered_broadcast_from mq_table_def)
next
  case False
  then have "filter (\<lambda>c. ci_queue c = q) (mq_table s) = []" by (auto simp: filter_empty_conv)
  with False show ?thesis by (simp add: mq_broadcast_def delivered_broadcast_from mq_table_def)
qed

lemma delivered_snapshot_from:
  assumes "\<forall>c \<in> set cs. length (ci_name c) < mq_MAX_NAME"
  shows "delivered q (snapshot_from (\<lambda>_. True) i q' cs) =
    (if q' = q then map (\<lambda>c. USER_MESSAGE_PREFIX @ ci_name c) cs else [])"
  using assms by (induction cs arbitrary: i) (auto simp: mq_sizes USER_MESSAGE_PREFIX_def)

lemma delivered_snapshot:
  assumes "mq_ok s"
  shows "delivered q (mq_send_user_snapshot (\<lambda>_. True) q' s) =
    (if q' = q then USERS_RESET_MESSAGE # map (\<lambda>c. USER_MESSAGE_PREFIX @ ci_name c) (mq_table s) else [])"
proof -
  have "fit mq_MAX_TEXT USERS_RESET_MESSAGE = USERS_RESET_MESSAGE"
    by (simp add: USERS_RESET_MESSAGE_def mq_MAX_TEXT_def)
  moreover have "\<forall>c \<in> set (mq_table s). length (ci_name c) < mq_MAX_NAME"
    using assms by (simp add: mq_ok_def)
  ultimately show ?thesis
    using delivered_snapshot_from [of "mq_table s" q 1 q'] by (simp add: mq_send_user_snapshot_def mq_table_def)
qed

text \<open>Reading a snapshot replaces the list of names.\<close>

lemma fold_add_name:
  "distinct (ns @ ms) \<Longrightarrow> length (ns @ ms) \<le> mq_MAX_CLIENTS \<Longrightarrow>
   \<forall>m \<in> set ms. m \<noteq> [] \<and> length m < mq_MAX_NAME \<Longrightarrow> foldl (\<lambda>ns m. add_name m ns) ns ms = ns @ ms"
proof (induction ms arbitrary: ns)
  case (Cons m ms)
  then have "add_name m ns = ns @ [m]" by (simp add: add_name_def)
  with Cons show ?case by simp
qed simp

lemma read_users:
  assumes "mq_client_ok st"
  shows "mc_names (foldl mq_process_received_text st (map (\<lambda>c. USER_MESSAGE_PREFIX @ ci_name c) cs)) =
      foldl (\<lambda>ns m. add_name m ns) (mc_names st) (map ci_name cs) \<and>
    mc_history (foldl mq_process_received_text st (map (\<lambda>c. USER_MESSAGE_PREFIX @ ci_name c) cs)) =
      mc_history st"
  using assms by (induction cs arbitrary: st) (simp_all add: read_user)

subsection \<open>The view of one client\<close>

fun mq_view_run :: "int \<Rightarrow> (ChatMessage \<times> int) list \<Rightarrow> mq_server \<Rightarrow> mq_client \<Rightarrow>
  mq_server \<times> mq_client \<times> string list" where
  "mq_view_run q0 [] s st = (s, st, [])"
| "mq_view_run q0 ((m, q) # es) s st =
     (case mq_pass (mq_answer q) m s of
        (s1, ev) \<Rightarrow>
          (case mq_view_run q0 es s1 (foldl mq_process_received_text st (delivered q0 ev)) of
             (s2, st2, out) \<Rightarrow> (s2, st2, put_lines ev @ out)))"

text \<open>
  A message the view is proved for: a join has a tame name that is not another member's, and
  \<^verbatim>\<open>mq_open\<close> returns a descriptor not in use; a text comes from a member under its own name and
  its line does not end like an announcement.
\<close>

definition polite :: "ChatMessage \<Rightarrow> int \<Rightarrow> mq_server \<Rightarrow> bool" where
  "polite m q s \<longleftrightarrow>
     (msg_command m = mq_CMD_JOIN \<longrightarrow> tame_name (msg_name m) \<and>
        (\<forall>c \<in> set (mq_table s). ci_pid c = msg_pid m \<longleftrightarrow> ci_name c = msg_name m) \<and>
        q \<notin> ci_queue ` set (mq_table s)) \<and>
     (msg_command m = mq_CMD_TEXT \<longrightarrow>
        (\<exists>c \<in> set (mq_table s). ci_pid c = msg_pid m \<and> ci_name c = msg_name m) \<and>
        plain_line (fit mq_MAX_TEXT (msg_name m @ '': '' @ msg_text m)))"

fun polite_run :: "(ChatMessage \<times> int) list \<Rightarrow> mq_server \<Rightarrow> bool" where
  "polite_run [] s = True"
| "polite_run ((m, q) # es) s = (polite m q s \<and> polite_run es (fst (mq_pass (mq_answer q) m s)))"

definition neat :: "mq_server \<Rightarrow> bool" where
  "neat s \<longleftrightarrow> mq_ok s \<and> distinct_queues s \<and> distinct (map ci_name (mq_table s)) \<and>
     (\<forall>c \<in> set (mq_table s). tame_name (ci_name c))"

lemma neat_start [simp]: "neat mq_start"
  by (simp add: neat_def distinct_queues_def)

lemma neat_pass:
  assumes "neat s" "polite m q s"
  shows "neat (fst (mq_pass (mq_answer q) m s))"
proof -
  let ?s' = "fst (mq_pass (mq_answer q) m s)"
  have ok: "mq_ok s" using assms(1) by (simp add: neat_def)
  have tab: "mq_table ?s' = pass_table q m (mq_table s)" and ok': "mq_ok ?s'"
    using mq_pass_table [OF ok, of "mq_answer q" m] by auto
  have "distinct (map ci_queue (mq_table ?s')) \<and> distinct (map ci_name (mq_table ?s')) \<and>
      (\<forall>c \<in> set (mq_table ?s'). tame_name (ci_name c))"
  proof (cases "msg_command m = mq_CMD_JOIN")
    case True
    with assms have "tame_name (msg_name m)" "q \<notin> ci_queue ` set (mq_table s)"
      and same: "\<forall>c \<in> set (mq_table s). ci_pid c = msg_pid m \<longleftrightarrow> ci_name c = msg_name m"
      by (auto simp: polite_def)
    moreover from this(1) have "fit mq_MAX_NAME (msg_name m) = msg_name m" by (simp add: tame_name_def)
    moreover have "msg_name m \<notin> ci_name ` set (mq_table s)" if "msg_pid m \<notin> ci_pid ` set (mq_table s)"
    proof
      assume "msg_name m \<in> ci_name ` set (mq_table s)"
      then obtain c where "c \<in> set (mq_table s)" "ci_name c = msg_name m" by auto
      with same that show False by force
    qed
    ultimately show ?thesis using assms(1) True
      by (auto simp: tab pass_table_def join_table_def neat_def distinct_queues_def)
  next
    case False
    with assms(1) show ?thesis
      by (auto simp: tab pass_table_def neat_def distinct_queues_def distinct_map_filter)
  qed
  with ok' show ?thesis by (simp add: neat_def distinct_queues_def)
qed

text \<open>The client with queue \<open>q0\<close> is a member and shows the table.\<close>

definition shows_table :: "int \<Rightarrow> mq_server \<Rightarrow> mq_client \<Rightarrow> bool" where
  "shows_table q0 s st \<longleftrightarrow> neat s \<and> mq_client_ok st \<and> q0 \<in> ci_queue ` set (mq_table s) \<and>
     mc_names st = map ci_name (mq_table s)"

definition push_lines :: "string list \<Rightarrow> string list \<Rightarrow> string list" where
  "push_lines ls h = fold (push_capped mq_MAX_MESSAGES) (map (fit mq_MAX_TEXT) ls) h"

lemma push_lines_simps [simp]:
  "push_lines [] h = h" "push_lines (ls @ ms) h = push_lines ms (push_lines ls h)"
  "push_lines (l # ls) h = push_lines ls (push_capped mq_MAX_MESSAGES (fit mq_MAX_TEXT l) h)"
  by (simp_all add: push_lines_def)

lemma fit_lines [simp]:
  "fit mq_LINE_LENGTH (fit mq_MAX_TEXT l) = fit mq_MAX_TEXT l"
  "fit mq_MAX_TEXT (fit line_size l) = fit mq_MAX_TEXT l"
  by (simp_all add: fit_larger fit_smaller mq_LINE_LENGTH_def line_size_def mq_sizes)

lemma tame_lines:
  assumes "tame_name n"
  shows "fit mq_MAX_TEXT (n @ JOIN_MESSAGE_SUFFIX) = n @ JOIN_MESSAGE_SUFFIX"
    "fit mq_MAX_TEXT (n @ LEAVE_MESSAGE_SUFFIX) = n @ LEAVE_MESSAGE_SUFFIX"
    "\<exists>y. fit mq_MAX_TEXT (n @ '': '' @ x) = n @ '': '' @ y"
    "fit mq_LINE_LENGTH (n @ JOIN_MESSAGE_SUFFIX) = n @ JOIN_MESSAGE_SUFFIX"
    "fit mq_LINE_LENGTH (n @ LEAVE_MESSAGE_SUFFIX) = n @ LEAVE_MESSAGE_SUFFIX"
proof -
  have len: "length n < 64" using assms by (simp add: tame_name_def mq_MAX_NAME_def)
  then show "fit mq_MAX_TEXT (n @ JOIN_MESSAGE_SUFFIX) = n @ JOIN_MESSAGE_SUFFIX"
    "fit mq_MAX_TEXT (n @ LEAVE_MESSAGE_SUFFIX) = n @ LEAVE_MESSAGE_SUFFIX"
    "fit mq_LINE_LENGTH (n @ JOIN_MESSAGE_SUFFIX) = n @ JOIN_MESSAGE_SUFFIX"
    "fit mq_LINE_LENGTH (n @ LEAVE_MESSAGE_SUFFIX) = n @ LEAVE_MESSAGE_SUFFIX"
    by (simp_all add: JOIN_MESSAGE_SUFFIX_def LEAVE_MESSAGE_SUFFIX_def mq_LINE_LENGTH_def mq_sizes)
  have "255 - length n = Suc (Suc (253 - length n))" using len by simp
  then show "\<exists>y. fit mq_MAX_TEXT (n @ '': '' @ x) = n @ '': '' @ y"
    using len by (simp add: fit_def mq_MAX_TEXT_def)
qed

lemma neatD:
  assumes "neat s"
  shows "mq_ok s" "distinct_queues s" "distinct (map ci_name (mq_table s))"
    "\<And>c. c \<in> set (mq_table s) \<Longrightarrow> tame_name (ci_name c)" "length (mq_table s) \<le> mq_MAX_CLIENTS"
  using assms mq_okD [of s] by (auto simp: neat_def mq_MAX_CLIENTS_def)

text \<open>One pass, message by message.\<close>

lemma view_text:
  assumes "shows_table q0 s st" "polite m q s" "msg_command m = mq_CMD_TEXT"
    "mq_pass (mq_answer q) m s = (s', ev)"
  shows "shows_table q0 s' (foldl mq_process_received_text st (delivered q0 ev))"
    and "mc_history (foldl mq_process_received_text st (delivered q0 ev)) =
      push_lines (put_lines ev) (mc_history st)"
proof -
  let ?n = "msg_name m" and ?line = "fit mq_MAX_TEXT (msg_name m @ '': '' @ msg_text m)"
  from assms(1) have neat: "neat s" and ok: "mq_client_ok st" and q0: "q0 \<in> ci_queue ` set (mq_table s)"
    and names: "mc_names st = map ci_name (mq_table s)" by (auto simp: shows_table_def)
  from assms(2,3) have mem: "?n \<in> set (mc_names st)" and plain: "plain_line ?line"
    by (auto simp: polite_def names mq_commands intro: rev_image_eqI)
  with neatD(4) [OF neat] names have tame: "tame_name ?n" by auto
  let ?l = "fit line_size (?n @ '': '' @ msg_text m)"
  from assms(3,4) have s': "s' = s" and ev: "ev = Put_line ?l # mq_broadcast (\<lambda>_. True) s ?l"
    by (auto simp: mq_pass_def mq_text_def mq_commands Let_def)
  from ev q0 have put: "put_lines ev = [?l]" and del: "delivered q0 ev = [?line]"
    by (simp_all add: delivered_broadcast [OF neatD(2) [OF neat]])
  obtain y where y: "?line = ?n @ '': '' @ y" using tame_lines(3) [OF tame] by blast
  have read: "mq_process_received_text st ?line = mq_client_push_message (mq_client_add_user st ?n) ?line"
    using read_said [OF tame] plain unfolding y by blast
  have fold: "foldl mq_process_received_text st (delivered q0 ev) =
      mq_client_push_message (mq_client_add_user st ?n) ?line"
    by (simp only: del foldl.simps read)
  have "add_name ?n (mc_names st) = mc_names st" using mem by (simp add: add_name_def)
  with neat ok q0 names show
    "shows_table q0 s' (foldl mq_process_received_text st (delivered q0 ev))"
    by (simp add: fold s' shows_table_def)
  show "mc_history (foldl mq_process_received_text st (delivered q0 ev)) =
      push_lines (put_lines ev) (mc_history st)"
    using ok by (simp add: fold put)
qed

lemma view_leave:
  assumes "shows_table q0 s st" "polite m q s" "msg_command m = mq_CMD_LEAVE"
    "mq_pass (mq_answer q) m s = (s', ev)" "q0 \<in> ci_queue ` set (mq_table s')"
  shows "shows_table q0 s' (foldl mq_process_received_text st (delivered q0 ev))"
    and "mc_history (foldl mq_process_received_text st (delivered q0 ev)) =
      push_lines (put_lines ev) (mc_history st)"
proof -
  from assms(1) have neat: "neat s" and ok: "mq_client_ok st"
    and names: "mc_names st = map ci_name (mq_table s)" by (auto simp: shows_table_def)
  have neat': "neat s'" using neat_pass [OF neat assms(2)] assms(4) by simp
  have tab: "mq_table s' = filter (\<lambda>c. ci_pid c \<noteq> msg_pid m) (mq_table s)"
    using mq_pass_table [OF neatD(1) [OF neat], of "mq_answer q" m] assms(3,4)
    by (simp add: pass_table_def mq_commands)
  have "shows_table q0 s' (foldl mq_process_received_text st (delivered q0 ev)) \<and>
      mc_history (foldl mq_process_received_text st (delivered q0 ev)) =
      push_lines (put_lines ev) (mc_history st)"
  proof (cases "mq_find_client s (msg_pid m) = -1")
    case True
    with assms(3,4) have "s' = s" "ev = []" by (auto simp: mq_pass_def mq_leave_def mq_commands)
    with assms(1) show ?thesis by simp
  next
    case False
    from mq_find_present [OF neatD(1) [OF neat] False] obtain i where
      i: "mq_find_client s (msg_pid m) = int i" "i < length (mq_table s)"
        "mq_table s ! i = mq_clients s ! i" "ci_pid (mq_clients s ! i) = msg_pid m" by metis
    let ?c = "mq_clients s ! i"
    let ?line = "ci_name ?c @ LEAVE_MESSAGE_SUFFIX"
    have c: "?c \<in> set (mq_table s)" using i(2,3) by (metis nth_mem)
    then have tame: "tame_name (ci_name ?c)" by (rule neatD(4) [OF neat])
    from assms(3,4) i have ev: "ev = Mq_close (ci_queue ?c) # Put_line (fit line_size ?line) #
        mq_broadcast (\<lambda>_. True) s' (fit line_size ?line)"
      by (auto simp: mq_pass_def mq_leave_def mq_commands Let_def LEAVE_MESSAGE_SUFFIX_def)
    have del: "delivered q0 ev = [?line]" and put: "put_lines ev = [fit line_size ?line]"
      using assms(5) tame_lines(2) [OF tame]
      by (simp_all add: ev delivered_broadcast [OF neatD(2) [OF neat']])
    note read = read_left [OF tame, of st]
    have "filter (\<lambda>n. n \<noteq> ci_name ?c) (map ci_name (mq_table s)) =
        map ci_name (filter (\<lambda>d. ci_name d \<noteq> ci_name ?c) (mq_table s))"
      by (simp add: filter_map o_def)
    also have "filter (\<lambda>d. ci_name d \<noteq> ci_name ?c) (mq_table s) = remove_nth i (mq_table s)"
      using remove_nth_filter [OF neatD(3) [OF neat] i(2)] i(3) by simp
    also have "\<dots> = mq_table s'"
      using remove_nth_filter [OF mq_okD(3) [OF neatD(1) [OF neat]] i(2)] i(3,4) tab by simp
    finally have "mc_names (mq_client_remove_user st (ci_name ?c)) = map ci_name (mq_table s')"
      using mq_remove_user_names [OF ok] neatD(3) [OF neat] names by simp
    with ok neat' assms(5) tame_lines(2,5) [OF tame] show ?thesis
      by (simp add: del put read shows_table_def)
  qed
  then show "shows_table q0 s' (foldl mq_process_received_text st (delivered q0 ev))"
    "mc_history (foldl mq_process_received_text st (delivered q0 ev)) =
      push_lines (put_lines ev) (mc_history st)" by auto
qed

text \<open>Reading the snapshot of a neat server: the names become the table's, whatever they were.\<close>

lemma read_snapshot:
  assumes "neat s" "mq_client_ok st"
  shows "mc_names (foldl mq_process_received_text st (delivered q (mq_send_user_snapshot (\<lambda>_. True) q s))) =
      map ci_name (mq_table s) \<and>
    mc_history (foldl mq_process_received_text st (delivered q (mq_send_user_snapshot (\<lambda>_. True) q s))) =
      mc_history st"
proof -
  have "foldl (\<lambda>ns m. add_name m ns) [] (map ci_name (mq_table s)) = [] @ map ci_name (mq_table s)"
    using neatD [OF assms(1)] by (intro fold_add_name) (auto simp: tame_name_def)
  with read_users [of "st\<lparr>mc_user_count := 0\<rparr>" "mq_table s"] assms(2) show ?thesis
    by (simp add: delivered_snapshot [OF neatD(1) [OF assms(1)]] read_reset)
qed

text \<open>The end of a join, for a client that is or is not the one that joins.\<close>

lemma view_welcome:
  fixes q :: int
  assumes "neat s" "mq_client_ok st" "q0 \<in> ci_queue ` set (mq_table s)"
    and tame: "tame_name (msg_name m)"
    and member: "\<forall>c \<in> set (mq_table s). ci_pid c = msg_pid m \<longleftrightarrow> ci_name c = msg_name m"
    and full: "msg_pid m \<in> ci_pid ` set (mq_table s) \<or> length (mq_table s) = mq_MAX_CLIENTS"
    and shown: "mc_names st = map ci_name (mq_table s) \<or>
      (\<exists>c \<in> set (mq_table s). ci_pid c = msg_pid m \<and> ci_queue c = q0) \<or>
      (\<exists>cs c. mq_table s = cs @ [c] \<and> ci_pid c = msg_pid m \<and> mc_names st = map ci_name cs)"
  defines "st' \<equiv> foldl mq_process_received_text st (delivered q0 (mq_welcome (mq_answer q) m s))"
  shows "shows_table q0 s st' \<and>
    mc_history st' = push_lines (put_lines (mq_welcome (mq_answer q) m s)) (mc_history st)"
proof -
  let ?n = "msg_name m" and ?line = "msg_name m @ JOIN_MESSAGE_SUFFIX"
  let ?q = "ci_queue (mq_clients s ! nat (mq_find_client s (msg_pid m)))"
  let ?found = "mq_find_client s (msg_pid m) \<noteq> -1"
  note ok = neatD(1) [OF assms(1)]
  have wev: "mq_welcome (mq_answer q) m s =
      (if ?found then mq_send_user_snapshot (\<lambda>_. True) ?q s else []) @
      Put_line (fit line_size ?line) # mq_broadcast (\<lambda>_. True) s (fit line_size ?line)"
    by (simp add: mq_welcome_def Let_def JOIN_MESSAGE_SUFFIX_def)
  define st1 where "st1 = (if ?found \<and> ?q = q0
    then foldl mq_process_received_text st (delivered q0 (mq_send_user_snapshot (\<lambda>_. True) q0 s)) else st)"
  have st': "st' = mq_process_received_text st1 ?line"
    using assms(3) tame_lines(1) [OF tame] delivered_snapshot [OF ok, of q0 ?q]
    by (simp add: st'_def st1_def wev delivered_broadcast [OF neatD(2) [OF assms(1)]])
  have ok1: "mq_client_ok st1" using assms(2) by (simp add: st1_def)
  have h1: "mc_history st1 = mc_history st" using read_snapshot [OF assms(1,2)] by (simp add: st1_def)
  have owner: "?q = ci_queue c \<and> ?found" if "c \<in> set (mq_table s)" "ci_pid c = msg_pid m" for c
  proof -
    have f: "?found" using that mq_find_absent [OF ok] by (auto intro: rev_image_eqI)
    from mq_find_present [OF ok f] obtain i where i: "mq_find_client s (msg_pid m) = int i"
      "i < length (mq_table s)" "mq_table s ! i = mq_clients s ! i" "ci_pid (mq_clients s ! i) = msg_pid m"
      by metis
    with that mq_okD(3) [OF ok] have "mq_clients s ! i = c"
      by (metis (no_types) distinct_map inj_onD nth_mem)
    with i(1) f show ?thesis by simp
  qed
  have names: "add_name ?n (mc_names st1) = map ci_name (mq_table s)"
  proof (cases "?found \<and> ?q = q0")
    case True
    then have "?n \<in> ci_name ` set (mq_table s)"
      using mq_find_absent [OF ok, of "msg_pid m"] member by force
    with True read_snapshot [OF assms(1,2)] show ?thesis by (simp add: st1_def add_name_def)
  next
    case False
    then have st1: "st1 = st" by (auto simp: st1_def)
    from False owner shown consider "mc_names st = map ci_name (mq_table s)"
      | cs c where "mq_table s = cs @ [c]" "ci_pid c = msg_pid m" "mc_names st = map ci_name cs"
      by metis
    then show ?thesis
    proof cases
      case 1
      with full member show ?thesis by (force simp: add_name_def st1)
    next
      case (2 cs c)
      then have "ci_name c = ?n" using member by simp
      with 2 neatD(3,5) [OF assms(1)] tame show ?thesis
        by (auto simp: add_name_def st1 tame_name_def)
    qed
  qed
  have "put_lines (mq_welcome (mq_answer q) m s) = [fit line_size ?line]" by (simp add: wev)
  with names ok1 h1 assms(1,3) tame_lines(1,4) [OF tame] show ?thesis
    by (simp add: st' read_joined [OF tame] shows_table_def)
qed

lemma view_join:
  assumes "neat s" "mq_client_ok st" "polite m q s" "msg_command m = mq_CMD_JOIN"
    "mq_pass (mq_answer q) m s = (s', ev)" "q0 \<in> ci_queue ` set (mq_table s')"
    and shown: "shows_table q0 s st \<or> q0 \<notin> ci_queue ` set (mq_table s)"
  shows "shows_table q0 s' (foldl mq_process_received_text st (delivered q0 ev)) \<and>
    mc_history (foldl mq_process_received_text st (delivered q0 ev)) =
      push_lines (put_lines ev) (mc_history st)"
proof -
  note ok = neatD(1) [OF assms(1)]
  have tame: "tame_name (msg_name m)"
    and same: "\<forall>c \<in> set (mq_table s). ci_pid c = msg_pid m \<longleftrightarrow> ci_name c = msg_name m"
    using assms(3,4) by (auto simp: polite_def)
  have neat': "neat s'" using neat_pass [OF assms(1,3)] assms(5) by simp
  have tab: "mq_table s' = join_table q m (mq_table s)"
    using mq_pass_table [OF ok, of "mq_answer q" m] assms(4,5) by (simp add: pass_table_def)
  have fit: "fit mq_MAX_NAME (msg_name m) = msg_name m" using tame by (simp add: tame_name_def)
  show ?thesis
  proof (cases "msg_pid m \<notin> ci_pid ` set (mq_table s) \<and> length (mq_table s) < mq_MAX_CLIENTS")
    case new: True
    show ?thesis
    proof (cases "q = -1")
      case True
      with new assms(4,5) ok mq_find_absent [OF ok] have "s' = s" "delivered q0 ev = []" "put_lines ev = []"
        by (auto simp: mq_pass_def mq_join_def mq_open_client_queue_def mq_okD(4))
      with shown assms(6) show ?thesis by auto
    next
      case False
      let ?c = "\<lparr>ci_pid = msg_pid m, ci_queue = q, ci_name = msg_name m\<rparr>"
      have tab': "mq_table s' = mq_table s @ [?c]" using new False by (simp add: tab join_table_def fit)
      from new False assms(4,5) ok mq_find_absent [OF ok] obtain pre where
        ev: "ev = pre @ mq_welcome (mq_answer q) m s'" "delivered q0 pre = []" "put_lines pre = []"
        by (auto simp: mq_pass_def mq_join_def mq_open_client_queue_def mq_okD(4) Let_def)
      have "mc_names st = map ci_name (mq_table s) \<or> q0 = q"
        using shown assms(6) tab' by (auto simp: shows_table_def)
      then have "mc_names st = map ci_name (mq_table s') \<or>
          (\<exists>c \<in> set (mq_table s'). ci_pid c = msg_pid m \<and> ci_queue c = q0) \<or>
          (\<exists>cs c. mq_table s' = cs @ [c] \<and> ci_pid c = msg_pid m \<and> mc_names st = map ci_name cs)"
        using tab' by force
      moreover have "\<forall>c \<in> set (mq_table s'). ci_pid c = msg_pid m \<longleftrightarrow> ci_name c = msg_name m"
        "msg_pid m \<in> ci_pid ` set (mq_table s') \<or> length (mq_table s') = mq_MAX_CLIENTS"
        using same tab' by auto
      ultimately show ?thesis
        using view_welcome [OF neat' assms(2,6) tame, of q] by (simp add: ev)
    qed
  next
    case old: False
    with tab have "mq_table s' = mq_table s" by (auto simp: join_table_def)
    with shown assms(6) have st: "shows_table q0 s st" by auto
    have s': "s' = s" and ev: "ev = mq_welcome (mq_answer q) m s"
      using old assms(4,5) mq_find_absent [OF ok, of "msg_pid m"]
      by (auto simp: mq_pass_def mq_join_def mq_okD(4) [OF ok])
    have "msg_pid m \<in> ci_pid ` set (mq_table s) \<or> length (mq_table s) = mq_MAX_CLIENTS"
      using old neatD(5) [OF assms(1)] by auto
    with view_welcome [OF assms(1,2) _ tame same, of q0 q] st show ?thesis
      by (simp add: s' ev shows_table_def)
  qed
qed

text \<open>Every message keeps the view, as long as the client is a member afterwards.\<close>

lemma view_pass:
  assumes "shows_table q0 s st" "polite m q s" "mq_pass (mq_answer q) m s = (s', ev)"
    "q0 \<in> ci_queue ` set (mq_table s')"
  shows "shows_table q0 s' (foldl mq_process_received_text st (delivered q0 ev)) \<and>
    mc_history (foldl mq_process_received_text st (delivered q0 ev)) =
      push_lines (put_lines ev) (mc_history st)"
proof -
  consider "msg_command m = mq_CMD_JOIN" | "msg_command m = mq_CMD_LEAVE" | "msg_command m = mq_CMD_TEXT"
    | "msg_command m \<notin> {mq_CMD_JOIN, mq_CMD_LEAVE, mq_CMD_TEXT}" by blast
  then show ?thesis
  proof cases
    case 1
    from assms(1) have "neat s" "mq_client_ok st" by (simp_all add: shows_table_def)
    from view_join [OF this assms(2) 1 assms(3,4)] assms(1) show ?thesis by blast
  next
    case 2
    with view_leave [OF assms(1,2) 2 assms(3,4)] show ?thesis by simp
  next
    case 3
    with view_text [OF assms(1,2) 3 assms(3)] show ?thesis by simp
  next
    case 4
    with assms show ?thesis by (auto simp: mq_pass_def)
  qed
qed

lemma member_kept:
  assumes "mq_ok s" "\<exists>c \<in> set (mq_table s). ci_pid c = p \<and> ci_queue c = q0"
    "\<not> (msg_command m = mq_CMD_LEAVE \<and> msg_pid m = p)"
  shows "\<exists>c \<in> set (mq_table (fst (mq_pass res m s))). ci_pid c = p \<and> ci_queue c = q0"
  using assms mq_pass_table [OF assms(1), of res m] by (auto simp: pass_table_def join_table_def)

definition stays :: "int \<Rightarrow> (ChatMessage \<times> int) list \<Rightarrow> bool" where
  "stays p es \<longleftrightarrow> (\<forall>m \<in> fst ` set es. \<not> (msg_command m = mq_CMD_LEAVE \<and> msg_pid m = p))"

lemma view_run:
  "shows_table q0 s st \<Longrightarrow> \<exists>c \<in> set (mq_table s). ci_pid c = p \<and> ci_queue c = q0 \<Longrightarrow>
   polite_run es s \<Longrightarrow> stays p es \<Longrightarrow> mq_view_run q0 es s st = (s', st', out) \<Longrightarrow>
   shows_table q0 s' st' \<and> mc_history st' = push_lines out (mc_history st)"
proof (induction es arbitrary: s st s' st' out)
  case (Cons e es)
  obtain m q where e: "e = (m, q)" by fastforce
  obtain s1 ev where pass: "mq_pass (mq_answer q) m s = (s1, ev)" by fastforce
  let ?st1 = "foldl mq_process_received_text st (delivered q0 ev)"
  obtain s2 st2 out2 where run: "mq_view_run q0 es s1 ?st1 = (s2, st2, out2)" by (metis prod_cases3)
  have "mq_ok s" using Cons.prems(1) by (simp add: shows_table_def neat_def)
  with member_kept [of s p q0 m "mq_answer q"] Cons.prems(2,4) e pass have
    member: "\<exists>c \<in> set (mq_table s1). ci_pid c = p \<and> ci_queue c = q0" by (simp add: stays_def)
  then have "q0 \<in> ci_queue ` set (mq_table s1)" by force
  with view_pass [OF Cons.prems(1) _ pass] Cons.prems(3) e have
    step: "shows_table q0 s1 ?st1" "mc_history ?st1 = push_lines (put_lines ev) (mc_history st)"
    by auto
  have "polite_run es s1" "stays p es" using Cons.prems(3,4) e pass by (auto simp: stays_def)
  from Cons.IH [OF step(1) member this run] step(2) Cons.prems(5) e pass run show ?case by auto
qed simp

definition mq_view_from :: "(ChatMessage \<times> int) list \<Rightarrow> mq_server" where
  "mq_view_from es = fold (\<lambda>(m, q) s. fst (mq_pass (mq_answer q) m s)) es mq_start"

lemma polite_neat: "polite_run es s \<Longrightarrow> neat s \<Longrightarrow> neat (fold (\<lambda>(m, q) s. fst (mq_pass (mq_answer q) m s)) es s)"
  by (induction es arbitrary: s) (auto simp: neat_pass)

lemma push_lines_last_n: "push_lines ls [] = last_n mq_MAX_MESSAGES (map (fit mq_MAX_TEXT) ls)"
  using fold_push_capped [of mq_MAX_MESSAGES "map (fit mq_MAX_TEXT) ls" "[]"]
  by (simp add: push_lines_def last_n_def mq_MAX_MESSAGES_def)

subsection \<open>Properties of the message queue chat\<close>

text \<open>A client that joins shows the table from then on.\<close>

lemma mq_view_shows:
  assumes "polite_run before mq_start" and "polite j q0 (mq_view_from before)"
    and "msg_command j = mq_CMD_JOIN" and "q0 \<noteq> -1"
    and "msg_pid j \<notin> ci_pid ` set (mq_table (mq_view_from before))"
    and "length (mq_table (mq_view_from before)) < mq_MAX_CLIENTS"
    and "mq_client_ok st"
    and "polite_run after (fst (mq_pass (mq_answer q0) j (mq_view_from before)))"
    and "stays (msg_pid j) after"
    and "mq_view_run q0 ((j, q0) # after) (mq_view_from before) st = (s', st', lines)"
  shows "shows_table q0 s' st' \<and> mc_history st' = push_lines lines (mc_history st)"
proof -
  let ?s = "mq_view_from before"
  have neat: "neat ?s" using polite_neat [OF assms(1)] by (simp add: mq_view_from_def)
  obtain s1 ev where pass: "mq_pass (mq_answer q0) j ?s = (s1, ev)" by fastforce
  let ?st1 = "foldl mq_process_received_text st (delivered q0 ev)"
  obtain s2 st2 out2 where run: "mq_view_run q0 after s1 ?st1 = (s2, st2, out2)" by (metis prod_cases3)
  have "mq_table s1 = mq_table ?s @
      [\<lparr>ci_pid = msg_pid j, ci_queue = q0, ci_name = fit mq_MAX_NAME (msg_name j)\<rparr>]"
    using mq_pass_table [OF neatD(1) [OF neat], of "mq_answer q0" j] pass assms(3-6)
    by (simp add: pass_table_def join_table_def)
  then have member: "\<exists>c \<in> set (mq_table s1). ci_pid c = msg_pid j \<and> ci_queue c = q0" by simp
  then have "q0 \<in> ci_queue ` set (mq_table s1)" by force
  moreover have "q0 \<notin> ci_queue ` set (mq_table ?s)" using assms(2,3) by (simp add: polite_def)
  ultimately have step: "shows_table q0 s1 ?st1 \<and> mc_history ?st1 = push_lines (put_lines ev) (mc_history st)"
    using view_join [OF neat assms(7,2,3) pass] by blast
  have "polite_run after s1" using assms(8) pass by simp
  from view_run [OF conjunct1 [OF step] member this assms(9) run] step assms(10) pass run show ?thesis
    by auto
qed

text \<open>
  Property C4.  When a client's list of users is the server's table.  The conditions: every send
  is accepted and \<^verbatim>\<open>mq_open\<close> returns descriptors that are not in use; every joining name is not empty,
  has at most 63 characters, holds no \<^verbatim>\<open>": "\<close>, does not begin like a system line and is that of no other
  member; every text comes from a member under its own name, in a line that does not end like an
  announcement; the client joins under an unused pid while the table has room, and does not leave.
  (Without the last condition on texts the claim is false: a phantom user appears.)  Then, whatever else
  happened before its join and happens after it, the list of users the client shows is at the end the
  server's table, name by name and in its order, and its history is what it had before followed by the
  lines the server printed since, each cut to 255 characters, 64 kept.
\<close>

theorem mq_view_matches_server:
  assumes "polite_run before mq_start" and "polite j q0 (mq_view_from before)"
    and "msg_command j = mq_CMD_JOIN" and "q0 \<noteq> -1"
    and "msg_pid j \<notin> ci_pid ` set (mq_table (mq_view_from before))"
    and "length (mq_table (mq_view_from before)) < mq_MAX_CLIENTS"
    and "mq_client_ok st"
    and "polite_run after (fst (mq_pass (mq_answer q0) j (mq_view_from before)))"
    and "stays (msg_pid j) after"
    and "mq_view_run q0 ((j, q0) # after) (mq_view_from before) st = (s', st', lines)"
  shows "mc_names st' = map ci_name (mq_table s') \<and>
    mc_history st' = fold (push_capped mq_MAX_MESSAGES) (map (fit mq_MAX_TEXT) lines) (mc_history st)"
  using mq_view_shows [OF assms] by (simp add: shows_table_def push_lines_def)

definition demo_hello :: "int \<Rightarrow> string \<Rightarrow> ChatMessage" where
  "demo_hello p n = \<lparr>msg_mtype = 1, msg_pid = p, msg_command = 1, msg_name = n, msg_text = []\<rparr>"

definition demo_says :: "int \<Rightarrow> string \<Rightarrow> string \<Rightarrow> ChatMessage" where
  "demo_says p n t = \<lparr>msg_mtype = 1, msg_pid = p, msg_command = 2, msg_name = n, msg_text = t\<rparr>"

definition demo_view :: "mq_server \<times> mq_client \<times> string list" where
  "demo_view = mq_view_run 6 ((demo_hello 8 ''bob'', 6) # [(demo_says 7 ''ann'' ''hi'', 0)])
     (mq_view_from [(demo_hello 7 ''ann'', 5)]) mq_client_init"

lemma mq_view_matches_server_witness:
  "mc_names (fst (snd demo_view)) = [''ann'', ''bob''] \<and>
   mc_history (fst (snd demo_view)) = [''bob joined the chat'', ''ann: hi'']"
proof -
  have run: "mq_view_run 6 ((demo_hello 8 ''bob'', 6) # [(demo_says 7 ''ann'' ''hi'', 0)])
      (mq_view_from [(demo_hello 7 ''ann'', 5)]) mq_client_init =
      (fst demo_view, fst (snd demo_view), snd (snd demo_view))"
    by (simp only: demo_view_def prod.collapse)
  have pre: "polite_run [(demo_hello 7 ''ann'', 5)] mq_start"
    "polite (demo_hello 8 ''bob'') 6 (mq_view_from [(demo_hello 7 ''ann'', 5)])"
    "msg_command (demo_hello 8 ''bob'') = mq_CMD_JOIN" "(6::int) \<noteq> -1"
    "msg_pid (demo_hello 8 ''bob'') \<notin> ci_pid ` set (mq_table (mq_view_from [(demo_hello 7 ''ann'', 5)]))"
    "length (mq_table (mq_view_from [(demo_hello 7 ''ann'', 5)])) < mq_MAX_CLIENTS"
    by code_simp+
  have post: "polite_run [(demo_says 7 ''ann'' ''hi'', 0)]
      (fst (mq_pass (mq_answer 6) (demo_hello 8 ''bob'') (mq_view_from [(demo_hello 7 ''ann'', 5)])))"
    "stays (msg_pid (demo_hello 8 ''bob'')) [(demo_says 7 ''ann'' ''hi'', 0)]"
    by code_simp+
  have "map ci_name (mq_table (fst demo_view)) = [''ann'', ''bob'']"
    "fold (push_capped mq_MAX_MESSAGES) (map (fit mq_MAX_TEXT) (snd (snd demo_view)))
      (mc_history mq_client_init) = [''bob joined the chat'', ''ann: hi'']"
    by code_simp+
  with mq_view_matches_server [OF pre mq_client_ok_init post run] show ?thesis by simp
qed

text \<open>
  Property C6.  The shape of the texts matters: when a member says something that ends in
  \<^verbatim>\<open> joined the chat\<close>, every client with a free place in its list adds a user who is not in
  the room, named after the whole line up to those words.
\<close>

theorem mq_phantom_user:
  assumes "neat s" "mq_client_ok st" "q0 \<in> ci_queue ` set (mq_table s)"
    and "mc_names st = map ci_name (mq_table s)" "length (mq_table s) < mq_MAX_CLIENTS"
    and "c \<in> set (mq_table s)" "length (ci_name c) + length x < 62"
    and "m = \<lparr>msg_mtype = 1, msg_pid = ci_pid c, msg_command = mq_CMD_TEXT, msg_name = ci_name c,
        msg_text = x @ JOIN_MESSAGE_SUFFIX\<rparr>"
    and "mq_pass (mq_answer q) m s = (s', ev)"
  shows "mc_names (foldl mq_process_received_text st (delivered q0 ev)) =
      map ci_name (mq_table s') @ [ci_name c @ '': '' @ x] \<and>
    ci_name c @ '': '' @ x \<notin> ci_name ` set (mq_table s')"
proof -
  let ?n = "ci_name c @ '': '' @ x" and ?line = "ci_name c @ '': '' @ x @ JOIN_MESSAGE_SUFFIX"
  have tame: "tame_name (ci_name c)" by (rule neatD(4) [OF assms(1,6)])
  have len: "length ?line < 256" using assms(7) by (simp add: JOIN_MESSAGE_SUFFIX_def)
  from assms(8,9) have s': "s' = s" and
    ev: "ev = Put_line (fit line_size ?line) # mq_broadcast (\<lambda>_. True) s (fit line_size ?line)"
    by (auto simp: mq_pass_def mq_text_def mq_commands Let_def)
  have del: "delivered q0 ev = [?line]"
    using assms(3) len by (simp add: ev delivered_broadcast [OF neatD(2) [OF assms(1)]] line_size_def mq_sizes)
  have "mq_handle_control_message st (ci_name c @ CHR '':'' # CHR '' '' # x @ JOIN_MESSAGE_SUFFIX) = (False, st)"
    by (rule not_control [OF tame]) simp_all
  then have control: "mq_handle_control_message st ?line = (False, st)" by simp
  have "mq_extract_name_with_suffix ?line JOIN_MESSAGE_SUFFIX mq_MAX_NAME = Some ?n"
    unfolding extract_suffix_eq using assms(7) by (simp add: mq_MAX_NAME_def)
  with control have read: "mq_process_received_text st ?line =
      mq_client_push_message (mq_client_add_user st ?n) ?line"
    by (simp add: mq_process_received_text_def)
  have sep: "strstr ?n '': '' = Some (length (ci_name c))"
    using strstr_sender tame by (simp add: tame_name_def)
  have fresh: "?n \<notin> ci_name ` set (mq_table s)"
    using neatD(4) [OF assms(1)] sep by (auto simp: tame_name_def)
  then have "add_name ?n (map ci_name (mq_table s)) = map ci_name (mq_table s) @ [?n]"
    using assms(5,7) by (simp add: add_name_def mq_MAX_NAME_def)
  with assms(2,4) fresh show ?thesis unfolding del s' foldl.simps read by (simp del: append_Cons)
qed

definition demo_phantom :: "mq_server \<times> mq_event list" where
  "demo_phantom = mq_pass (mq_answer 0)
     \<lparr>msg_mtype = 1, msg_pid = ci_pid (hd (mq_table (fst demo_view))), msg_command = mq_CMD_TEXT,
      msg_name = ci_name (hd (mq_table (fst demo_view))), msg_text = ''eve'' @ JOIN_MESSAGE_SUFFIX\<rparr>
     (fst demo_view)"

lemma mq_phantom_user_witness:
  "mc_names (foldl mq_process_received_text (fst (snd demo_view)) (delivered 6 (snd demo_phantom))) =
     [''ann'', ''bob'', ''ann: eve'']"
proof -
  have pre: "neat (fst demo_view)" "mq_client_ok (fst (snd demo_view))"
    "6 \<in> ci_queue ` set (mq_table (fst demo_view))"
    "mc_names (fst (snd demo_view)) = map ci_name (mq_table (fst demo_view))"
    "length (mq_table (fst demo_view)) < mq_MAX_CLIENTS"
    "hd (mq_table (fst demo_view)) \<in> set (mq_table (fst demo_view))"
    "length (ci_name (hd (mq_table (fst demo_view)))) + length ''eve'' < 62"
    by code_simp+
  have pass: "mq_pass (mq_answer 0)
     \<lparr>msg_mtype = 1, msg_pid = ci_pid (hd (mq_table (fst demo_view))), msg_command = mq_CMD_TEXT,
      msg_name = ci_name (hd (mq_table (fst demo_view))), msg_text = ''eve'' @ JOIN_MESSAGE_SUFFIX\<rparr>
     (fst demo_view) = (fst demo_phantom, snd demo_phantom)"
    by (simp only: demo_phantom_def prod.collapse)
  have "map ci_name (mq_table (fst demo_phantom)) @ [ci_name (hd (mq_table (fst demo_view))) @ '': '' @ ''eve''] =
      [''ann'', ''bob'', ''ann: eve'']" by code_simp
  with mq_phantom_user [OF pre refl pass] show ?thesis by simp
qed

subsection \<open>Descriptors\<close>

fun opened_queues :: "mq_event list \<Rightarrow> int list" where
  "opened_queues [] = []"
| "opened_queues (Mq_open n q # es) = (if q = -1 then [] else [q]) @ opened_queues es"
| "opened_queues (e # es) = opened_queues es"

fun closed_queues :: "mq_event list \<Rightarrow> int list" where
  "closed_queues [] = []"
| "closed_queues (Mq_close q # es) = q # closed_queues es"
| "closed_queues (e # es) = closed_queues es"

lemma opened_queues_append [simp]: "opened_queues (es @ fs) = opened_queues es @ opened_queues fs"
  by (induction es rule: opened_queues.induct) auto

lemma closed_queues_append [simp]: "closed_queues (es @ fs) = closed_queues es @ closed_queues fs"
  by (induction es rule: closed_queues.induct) auto

lemma queues_of_sends [simp]:
  "opened_queues (mq_send_to_client ok q t) = []" "closed_queues (mq_send_to_client ok q t) = []"
  by (simp_all add: mq_send_to_client_def)

lemma queues_of_broadcast [simp]:
  "opened_queues (broadcast_from sent i cs t) = []" "closed_queues (broadcast_from sent i cs t) = []"
  "opened_queues (snapshot_from sent i q cs) = []" "closed_queues (snapshot_from sent i q cs) = []"
  by (induction cs arbitrary: i) simp_all

lemma queues_of_welcome [simp]:
  "opened_queues (mq_welcome res m s) = []" "closed_queues (mq_welcome res m s) = []"
  by (simp_all add: mq_welcome_def mq_send_user_snapshot_def mq_broadcast_def Let_def)

text \<open>One pass: what is open afterwards.\<close>

lemma pass_descriptors:
  assumes "mq_ok s" "mq_pass res m s = (s', ev)"
  shows "mset (closed_queues ev) + mset (map ci_queue (mq_table s')) =
    mset (opened_queues ev) + mset (map ci_queue (mq_table s))"
proof -
  consider (join) "msg_command m = mq_CMD_JOIN" | (leave) "msg_command m = mq_CMD_LEAVE"
    | (other) "msg_command m \<noteq> mq_CMD_JOIN" "msg_command m \<noteq> mq_CMD_LEAVE" by blast
  then show ?thesis
  proof cases
    case join
    with assms show ?thesis
      by (auto simp: mq_pass_def mq_join_def mq_open_client_queue_def mq_add_client_table Let_def
        split: if_splits)
  next
    case leave
    show ?thesis
    proof (cases "mq_find_client s (msg_pid m) = -1")
      case True
      with leave assms(2) show ?thesis by (auto simp: mq_pass_def mq_leave_def mq_commands)
    next
      case False
      from mq_find_present [OF assms(1) False] obtain i where
        i: "mq_find_client s (msg_pid m) = int i" "i < mq_client_count s" "i < length (mq_table s)"
          "mq_table s ! i = mq_clients s ! i" by metis
      have "mset (map ci_queue (mq_table s)) =
          mset (map ci_queue (take i (mq_table s) @ mq_table s ! i # drop (Suc i) (mq_table s)))"
        using id_take_nth_drop [OF i(3)] by simp
      with i leave assms show ?thesis
        by (auto simp: mq_pass_def mq_leave_def mq_commands Let_def mq_broadcast_def
          mq_remove_client_table remove_nth_def)
    qed
  next
    case other
    with assms show ?thesis
      by (auto simp: mq_pass_def mq_text_def mq_broadcast_def Let_def split: if_splits)
  qed
qed

lemma loop_descriptors:
  "mq_ok s \<Longrightarrow> mq_loop q ps s = (s', ev) \<Longrightarrow>
   mset (closed_queues ev) + mset (map ci_queue (mq_table s')) =
     mset (opened_queues ev) + mset (map ci_queue (mq_table s)) + (if q \<noteq> -1 then {#q#} else {#})"
proof (induction q ps s arbitrary: s' ev rule: mq_loop.induct)
  case (3 q msg res ps s)
  obtain s1 ev1 where pass: "mq_pass res msg s = (s1, ev1)" by fastforce
  obtain s2 ev2 where run: "mq_loop q ps s1 = (s2, ev2)" by fastforce
  have "mq_ok s1" using mq_pass_table [OF 3(2), of res msg] pass by simp
  from 3(1) [OF pass [symmetric] this run] pass_descriptors [OF 3(2) pass] 3(3) pass run
  show ?case by (auto simp: ac_simps)
qed (auto simp: mq_cleanup_def)

text \<open>
  Property C5.  Whatever messages arrive and whatever the queue calls answer, a descriptor the
  server opened is closed exactly once, when its client leaves, or is still in the table; its own
  queue is closed and unlinked when the loop ends.
\<close>

theorem mq_server_descriptors:
  "case mq_loop q ps mq_start of (s, ev) \<Rightarrow>
     mset (closed_queues ev) + mset (map ci_queue (mq_table s)) =
     mset (opened_queues ev) + (if q \<noteq> -1 then {#q#} else {#})"
  using loop_descriptors [OF mq_ok_start] by (fastforce split: prod.splits)

text \<open>The client: what it opens it closes, whatever happens in between.\<close>

lemma client_frame [simp]:
  "mc_client_queue (mq_client_push_message st t) = mc_client_queue st"
  "mc_server_queue (mq_client_push_message st t) = mc_server_queue st"
  "mc_queue_name (mq_client_push_message st t) = mc_queue_name st"
  "mc_client_queue (mq_client_add_user st n) = mc_client_queue st"
  "mc_server_queue (mq_client_add_user st n) = mc_server_queue st"
  "mc_queue_name (mq_client_add_user st n) = mc_queue_name st"
  "mc_client_queue (mq_client_remove_user st n) = mc_client_queue st"
  "mc_server_queue (mq_client_remove_user st n) = mc_server_queue st"
  "mc_queue_name (mq_client_remove_user st n) = mc_queue_name st"
  "mc_client_queue (mq_client_clear_input st) = mc_client_queue st"
  "mc_server_queue (mq_client_clear_input st) = mc_server_queue st"
  "mc_queue_name (mq_client_clear_input st) = mc_queue_name st"
  "mc_client_queue (mq_client_stop_receiver st) = mc_client_queue st"
  "mc_server_queue (mq_client_stop_receiver st) = mc_server_queue st"
  "mc_queue_name (mq_client_stop_receiver st) = mc_queue_name st"
  by (simp_all add: mq_client_push_message_def mq_client_add_user_def mq_client_remove_user_def
    mq_client_clear_input_def mq_client_stop_receiver_def Let_def)

definition mc_handles :: "mq_client \<Rightarrow> int \<times> int \<times> string" where
  "mc_handles st = (mc_server_queue st, mc_client_queue st, mc_queue_name st)"

lemma received_handles: "mc_handles (foldl mq_process_received_text st ts) = mc_handles st"
proof (induction ts arbitrary: st)
  case (Cons t ts)
  have "mc_handles (mq_process_received_text st t) = mc_handles st"
    by (simp add: mc_handles_def mq_process_received_text_def mq_handle_control_message_def
      mq_process_control_message_def split: bool.splits option.splits)
  with Cons show ?case by simp
qed simp

lemma event_handles:
  "mq_client_event K ch ok st = (st', ev, stop) \<Longrightarrow>
   mc_handles st' = mc_handles st \<and> opened_queues ev = [] \<and> closed_queues ev = []"
  by (auto simp: mq_client_event_def mq_client_send_text_message_def mq_client_send_command_def
    mc_handles_def mq_client_remove_last_char_def mq_client_append_char_def split: if_splits)

lemma event_loop_handles:
  "mq_client_run_event_loop K ks st = (st', ev) \<Longrightarrow>
   mc_handles st' = mc_handles st \<and> opened_queues ev = [] \<and> closed_queues ev = []"
proof (induction ks arbitrary: st st' ev)
  case (Cons k ks)
  let ?st0 = "foldl mq_process_received_text st (mk_received k)"
  obtain st1 ev1 stop where e: "mq_client_event K (mk_pressed k) (mk_sent k) ?st0 = (st1, ev1, stop)"
    by (metis prod_cases3)
  obtain st2 ev2 where run: "mq_client_run_event_loop K ks st1 = (st2, ev2)" by fastforce
  from Cons.IH [OF run] event_handles [OF e] received_handles [of st "mk_received k"] Cons.prems e run
  show ?case by (auto split: if_splits)
qed simp

lemma cleanup_handles:
  "opened_queues (mq_client_cleanup j ok st) = [] \<and>
   closed_queues (mq_client_cleanup j ok st) =
     (case mc_handles st of (s, c, n) \<Rightarrow> filter (\<lambda>q. q \<noteq> -1) [s, c])"
  by (simp add: mq_client_cleanup_def mq_client_send_command_def mq_client_destroy_def mc_handles_def)

lemma connect_handles:
  assumes "mq_client_connect res st = (c, st', ev)" "mc_server_queue st = -1" "mc_client_queue st = -1"
  shows "closed_queues ev = [] \<and> mset (opened_queues ev) =
    (case mc_handles st' of (s, c, n) \<Rightarrow> mset (filter (\<lambda>q. q \<noteq> -1) [s, c]))"
  using assms by (auto simp: mq_client_connect_def mc_handles_def Let_def split: if_splits)

text \<open>
  On every path through the client's \<^verbatim>\<open>main\<close> (a failed screen, prompt, connect,
  join or thread start, or a full session with any keys and any received texts) exactly the
  queues it opened are closed again.
\<close>

theorem mq_client_releases:
  "case mq_client_main K res ks of (code, ev) \<Rightarrow> mset (closed_queues ev) = mset (opened_queues ev)"
proof -
  have init: "mc_server_queue mq_client_init = -1" "mc_client_queue mq_client_init = -1"
    by (simp_all add: mq_client_init_def)
  show ?thesis
  proof (cases "mm_ui_init res = -1 \<or> mm_prompt res = None")
    case True
    then show ?thesis using init
      by (auto simp: mq_client_main_def cleanup_handles mc_handles_def Let_def split: option.splits)
  next
    case False
    then obtain nm where nm: "mm_prompt res = Some nm" "mm_ui_init res \<noteq> -1" by auto
    obtain c st1 ev1 where con: "mq_client_connect (mm_connect res)
        (mq_client_add_user (mq_client_init\<lparr>mc_name := nm\<rparr>) nm) = (c, st1, ev1)" by (metis prod_cases3)
    obtain t st2 ev3 where thr: "mq_client_start_receiver (mm_thread res) st1 = (t, st2, ev3)"
      by (metis prod_cases3)
    obtain st3 ev4 where loop: "mq_client_run_event_loop K ks
        (mq_client_push_message st2 ''Connected to chat'') = (st3, ev4)" by fastforce
    have "mc_handles st2 = mc_handles st1" "opened_queues ev3 = []" "closed_queues ev3 = []"
      using thr by (auto simp: mq_client_start_receiver_def mc_handles_def split: if_splits)
    moreover have "mc_handles (mq_client_push_message st2 m) = mc_handles st2" for m
      by (simp add: mc_handles_def)
    ultimately show ?thesis
      using nm connect_handles [OF con] init event_loop_handles [OF loop]
      by (auto simp: mq_client_main_def Let_def con thr loop cleanup_handles
        mq_client_send_command_def split: prod.splits)
  qed
qed

end
