(* ===== verification/Chat_Screen.thy ===== *)
theory Chat_Screen
  imports Shm_System Mq_System
begin

text \<open>
  What the users of the two chats see: the first lines of each round of the clients' event loops,
  \<^verbatim>\<open>labs/lab-14/src/chat_client.c\<close> and \<^verbatim>\<open>labs/lab-13/src/chat_client.c\<close>, which hand a snapshot of the
  client's state to the drawing code.  lab-13 has its own copy of the drawing code,
  \<^verbatim>\<open>labs/lab-13/src/chat_ui.c\<close>, line by line the code of lab-14; its functions are the
  definitions \<open>mq_ui_init\<close> to \<open>mq_ui_draw\<close>.
\<close>

definition client_frame :: "int \<Rightarrow> int \<Rightarrow> (window \<Rightarrow> bool) \<Rightarrow> ClientState \<Rightarrow> ui_call list" where
  "client_frame rows cols made st =
     (case client_snapshot_state st of
        (ms, us) \<Rightarrow> chat_ui_draw rows cols made (client_name st) (input st) ms us)"

definition mq_ui_init :: "bool \<Rightarrow> ui_mode \<Rightarrow> int \<times> ui_mode \<times> ui_call list" where
  "mq_ui_init screen m = chat_ui_init screen m"

definition mq_ui_shutdown :: "bool \<Rightarrow> ui_call list" where
  "mq_ui_shutdown has_stdscr = chat_ui_shutdown has_stdscr"

definition mq_ui_prompt_name ::
  "nat \<Rightarrow> int \<Rightarrow> string option \<Rightarrow> ui_mode \<Rightarrow> int \<times> string \<times> ui_mode \<times> ui_call list" where
  "mq_ui_prompt_name n default_pid typed m = chat_ui_prompt_name n default_pid typed m"

definition mq_ui_draw ::
  "int \<Rightarrow> int \<Rightarrow> (window \<Rightarrow> bool) \<Rightarrow> string \<Rightarrow> string \<Rightarrow> string list \<Rightarrow> string list \<Rightarrow> ui_call list" where
  "mq_ui_draw rows cols made name line ms us = chat_ui_draw rows cols made name line ms us"

definition mq_client_frame :: "int \<Rightarrow> int \<Rightarrow> (window \<Rightarrow> bool) \<Rightarrow> mq_client \<Rightarrow> ui_call list" where
  "mq_client_frame rows cols made st =
     (case mq_snapshot_messages st of
        (ms, us) \<Rightarrow> mq_ui_draw rows cols made (mc_name st) (mc_input st) ms us)"

subsection \<open>The panes\<close>

text \<open>A list in a pane: one entry per row from row 1 on, cut to \<open>w\<close> characters, at most \<open>n\<close> rows.\<close>

definition pane :: "int \<Rightarrow> int \<Rightarrow> string list \<Rightarrow> (int \<times> string) list" where
  "pane n w ls = zip (map int [1..<Suc (nat n)]) (map (take (nat w)) (take (nat n) ls))"

lemma pane_length: "length (pane n w ls) = min (nat n) (length ls)"
  by (simp add: pane_def)

definition drawable :: "int \<Rightarrow> int \<Rightarrow> (window \<Rightarrow> bool) \<Rightarrow> bool" where
  "drawable rows cols made \<longleftrightarrow> 8 \<le> rows \<and> 50 \<le> cols \<and> (\<forall>w. made w)"

lemma draw_panes:
  assumes "drawable rows cols made"
  shows "rows_of Messages_win (chat_ui_draw rows cols made name line ms us) =
      pane (rows - 6) (cols - users_width_of cols - 4) ms"
    and "rows_of Users_win (chat_ui_draw rows cols made name line ms us) =
      pane (rows - 6) (users_width_of cols - 4) us"
    and "rows_of Input_win (chat_ui_draw rows cols made name line ms us) =
      [(1, name @ ''> '' @ line), (2, ''Enter - send, /exit - quit'')]"
  using assms by (simp_all add: drawable_def chat_ui_draw_def pane_def Let_def)

text \<open>
  Property C3.  The screen shows the room.  A client has connected under any name; requests of
  others, passes of the server, refreshes of its receiver thread and its own keys follow in any order,
  and fewer than \<open>2 ^ 32\<close> lines are printed in all.  The frame it draws after a refresh that gets the
  semaphore, on a terminal of at least 8 by 50 whose windows are made, shows: the room's messages in
  their order, followed by one notice for each send that was refused since the last line arrived (all
  together the last 64); the names of the members in their order; the client's name with the line
  typed so far, as the keys (characters, Backspace, Enter) leave it.  Messages and names have one row
  each, are cut to the width of the pane, and of more than there are rows the oldest are shown.
\<close>

theorem shm_screen_shows_room:
  assumes "view_run K es zero_room (client_joined nm res) fresh_expected = (r, st, g, lines)"
    and "length lines < 2 ^ 32" and "drawable rows cols made"
  shows "let frame = client_frame rows cols made (client_refresh_from_room st Sem_ok r) in
    rows_of Messages_win frame = pane (rows - 6) (cols - users_width_of cols - 4)
      (with_notices (if news g then 0 else notices g) (room_history r)) \<and>
    rows_of Users_win frame = pane (rows - 6) (users_width_of cols - 4) (map user_name (room_members r)) \<and>
    rows_of Input_win frame = [(1, nm @ ''> '' @ typed_line g), (2, ''Enter - send, /exit - quit'')]"
  using view_shows_room [OF assms(1,2)] draw_panes [OF assms(3)]
  by (simp add: client_frame_def)

text \<open>Ann joins, types \<^verbatim>\<open>ab\<close>, takes the second letter back, and has a send refused.\<close>

definition demo_view_events :: "view_event list" where
  "demo_view_events = [Room (Request demo_join), Room (Pass Sem_ok), Key 104 Sem_ok, Refresh Sem_ok,
     Key 10 Sem_error, Key 97 Sem_ok, Key 98 Sem_ok, Key 127 Sem_ok]"

definition demo_connected :: connect_results where
  "demo_connected = \<lparr>conn_shm_open = 3, conn_mmap = True, conn_getpid = 7\<rparr>"

definition demo_seen :: "ChatRoom \<times> ClientState \<times> expected \<times> string list" where
  "demo_seen = view_run demo_keys demo_view_events zero_room (client_joined ''ann'' demo_connected) fresh_expected"

lemma shm_screen_shows_room_witness:
  "let frame = client_frame 9 50 (\<lambda>w. True) (client_refresh_from_room (fst (snd demo_seen)) Sem_ok (fst demo_seen))
   in rows_of Messages_win frame = [(1, ''ann joined the chat''), (2, ''Failed to send message'')] \<and>
     rows_of Users_win frame = [(1, ''ann'')] \<and>
     rows_of Input_win frame = [(1, ''ann> a''), (2, ''Enter - send, /exit - quit'')]"
proof -
  have run: "view_run demo_keys demo_view_events zero_room (client_joined ''ann'' demo_connected) fresh_expected =
      (fst demo_seen, fst (snd demo_seen), fst (snd (snd demo_seen)), snd (snd (snd demo_seen)))"
    by (simp only: demo_seen_def prod.collapse)
  have "length (snd (snd (snd demo_seen))) = 1" by code_simp
  then have len: "length (snd (snd (snd demo_seen))) < 2 ^ 32" by simp
  have room: "room_history (fst demo_seen) = [''ann joined the chat'']"
    "map user_name (room_members (fst demo_seen)) = [''ann'']" by code_simp+
  have g: "fst (snd (snd demo_seen)) = \<lparr>typed_line = ''a'', news = False, notices = 1\<rparr>" by code_simp
  have draw: "drawable 9 50 (\<lambda>w. True)" by (simp add: drawable_def)
  show ?thesis
    using shm_screen_shows_room [OF run len draw]
    by (simp add: room g Let_def pane_def users_width_of_def upt_conv_Cons with_notices_def last_n_def
      CHAT_MAX_MESSAGES_def)
qed

subsection \<open>The message queue chat\<close>

lemma mq_snapshot_shows:
  assumes "mq_client_ok st"
  shows "mq_snapshot_messages st = (mc_history st, mc_names st)"
proof -
  have "map (fit mq_LINE_LENGTH) (mc_history st) = mc_history st" "map (fit mq_MAX_NAME) (mc_names st) = mc_names st"
    using assms by (auto simp: mq_client_ok_def intro!: map_idI)
  then show ?thesis by (simp add: mq_snapshot_messages_def mc_history_def mc_names_def)
qed

text \<open>The client of lab-13 shows the server's table, with the hypotheses under which its list of
  users equals it.\<close>

lemma mq_screen_shows_table:
  assumes "polite_run before mq_start" and "polite j q0 (mq_view_from before)"
    and "msg_command j = mq_CMD_JOIN" and "q0 \<noteq> -1"
    and "msg_pid j \<notin> ci_pid ` set (mq_table (mq_view_from before))"
    and "length (mq_table (mq_view_from before)) < mq_MAX_CLIENTS"
    and "mq_client_ok st"
    and "polite_run after (fst (mq_pass (mq_answer q0) j (mq_view_from before)))"
    and "stays (msg_pid j) after"
    and "mq_view_run q0 ((j, q0) # after) (mq_view_from before) st = (s', st', lines)"
    and "drawable rows cols made"
  shows "rows_of Users_win (mq_client_frame rows cols made st') =
      pane (rows - 6) (users_width_of cols - 4) (map ci_name (mq_table s')) \<and>
    rows_of Messages_win (mq_client_frame rows cols made st') =
      pane (rows - 6) (cols - users_width_of cols - 4) (push_lines lines (mc_history st))"
  using mq_view_shows [OF assms(1-10)] draw_panes [OF assms(11)]
  by (simp add: mq_client_frame_def mq_ui_draw_def shows_table_def mq_snapshot_shows)

end
