(* ===== verification/Bytes.thy ===== *)
theory Bytes
  imports C_Text "HOL-Library.Word"
begin

unbundle bit_operations_syntax

text \<open>
  Bytes in memory and on the wire: an \<^verbatim>\<open>int\<close> as it lies in memory (least significant byte
  first), the 16-bit fields of network headers (most significant byte first, what \<^verbatim>\<open>ntohs\<close> and
  \<^verbatim>\<open>htons\<close> do on such a machine), and the text a buffer holds.
\<close>

type_synonym byte = "8 word"

definition int_bytes :: "32 word \<Rightarrow> byte list" where
  "int_bytes w = [ucast w, ucast (drop_bit 8 w), ucast (drop_bit 16 w), ucast (drop_bit 24 w)]"

definition bytes_int :: "byte list \<Rightarrow> 32 word" where
  "bytes_int bs = ucast (bs ! 0) OR push_bit 8 (ucast (bs ! 1)) OR push_bit 16 (ucast (bs ! 2)) OR
     push_bit 24 (ucast (bs ! 3))"

lemma length_int_bytes [simp]: "length (int_bytes w) = 4"
  by (simp add: int_bytes_def)

lemma bytes_int_inverse [simp]: "bytes_int (int_bytes w) = w"
proof (rule bit_word_eqI)
  fix n assume "n < LENGTH(32)"
  then consider "n < 8" | "8 \<le> n" "n < 16" | "16 \<le> n" "n < 24" | "24 \<le> n" "n < 32" by fastforce
  then show "bit (bytes_int (int_bytes w)) n = bit w n"
    by cases (auto simp: bytes_int_def int_bytes_def bit_or_iff bit_push_bit_iff bit_ucast_iff
      bit_drop_bit_eq)
qed

text \<open>\<^verbatim>\<open>htons\<close> stored at an address, and \<^verbatim>\<open>ntohs\<close> of what is stored at offset \<open>i\<close>.\<close>

definition net16 :: "16 word \<Rightarrow> byte list" where
  "net16 w = [ucast (drop_bit 8 w), ucast w]"

definition get16 :: "byte list \<Rightarrow> nat \<Rightarrow> 16 word" where
  "get16 p i = push_bit 8 (ucast (p ! i)) OR ucast (p ! Suc i)"

lemma length_net16 [simp]: "length (net16 w) = 2"
  by (simp add: net16_def)

lemma get16_net16:
  assumes p: "drop i p = net16 w @ q"
  shows "get16 p i = w"
proof -
  have i: "i \<le> length p" using p by (cases "i \<le> length p") (auto simp: net16_def)
  from nth_drop [OF i, of 0] nth_drop [OF i, of 1] have
    "p ! i = ucast (drop_bit 8 w)" "p ! Suc i = ucast w" by (simp_all add: p net16_def)
  then have get: "get16 p i = push_bit 8 (ucast (ucast (drop_bit 8 w) :: byte)) OR ucast (ucast w :: byte)"
    by (simp add: get16_def)
  show ?thesis
  proof (rule bit_word_eqI)
    fix n assume "n < LENGTH(16)"
    then consider "n < 8" | "8 \<le> n" "n < 16" by fastforce
    then show "bit (get16 p i) n = bit w n"
      by cases (auto simp: get bit_or_iff bit_push_bit_iff bit_ucast_iff bit_drop_bit_eq)
  qed
qed

definition text_bytes :: "string \<Rightarrow> byte list" where
  "text_bytes s = map (\<lambda>c. of_nat (of_char c)) s"

definition bytes_text :: "byte list \<Rightarrow> string" where
  "bytes_text bs = map (\<lambda>b. char_of (unat b)) bs"

lemma length_text_bytes [simp]: "length (text_bytes s) = length s"
  by (simp add: text_bytes_def)

lemma length_bytes_text [simp]: "length (bytes_text bs) = length bs"
  by (simp add: bytes_text_def)

lemma bytes_text_inverse [simp]: "bytes_text (text_bytes s) = s"
proof -
  have "unat (of_nat (of_char c) :: byte) = of_char c" for c :: char
    by (simp add: unat_of_nat take_bit_eq_mod)
  then show ?thesis by (simp add: bytes_text_def text_bytes_def o_def)
qed

lemma bytes_text_take: "take n (bytes_text bs) = bytes_text (take n bs)"
  by (simp add: bytes_text_def take_map)

text \<open>An \<^verbatim>\<open>int\<close> that holds a number in range.\<close>

lemma sint_in_range: "- (2 ^ 31) \<le> i \<Longrightarrow> i < 2 ^ 31 \<Longrightarrow> sint (word_of_int i :: 32 word) = i"
  by (simp add: sint_sbintrunc' signed_take_bit_int_eq_self)

lemma sint_small: "n < 2 ^ 31 \<Longrightarrow> sint (of_nat n :: 32 word) = int n"
  using sint_in_range [of "int n"] by simp

end
