(* ===== verification/Taxi_Driver.thy ===== *)
theory Taxi_Driver
  imports Bytes
begin

text \<open>
  The driver process of \<^verbatim>\<open>final-tasks/taxi-cli/src/main.c\<close>: \<^verbatim>\<open>write_full\<close>, \<^verbatim>\<open>read_full\<close>,
  \<^verbatim>\<open>seconds_left\<close>, \<^verbatim>\<open>send_answer\<close>, the signal handlers and \<^verbatim>\<open>driver_loop\<close>.

  The results of \<^verbatim>\<open>read\<close>, \<^verbatim>\<open>write\<close>, \<^verbatim>\<open>poll\<close> and \<^verbatim>\<open>time\<close> and the arrival of signals are
  arguments: one \<open>driver_env\<close> per pass of the loop.  A list of results that runs out stands for a
  call that has not returned yet (\<open>None\<close>).
\<close>

subsection \<open>The structures in the pipes\<close>

definition CMD_TASK :: "32 word" where "CMD_TASK = 1"
definition CMD_STATUS :: "32 word" where "CMD_STATUS = 2"
definition CMD_EXIT :: "32 word" where "CMD_EXIT = 3"
definition ANSWER_OK :: "32 word" where "ANSWER_OK = 1"
definition ANSWER_AVAILABLE :: "32 word" where "ANSWER_AVAILABLE = 2"
definition ANSWER_BUSY :: "32 word" where "ANSWER_BUSY = 3"
definition ANSWER_ERROR :: "32 word" where "ANSWER_ERROR = 4"

lemmas taxi_codes = CMD_TASK_def CMD_STATUS_def CMD_EXIT_def ANSWER_OK_def ANSWER_AVAILABLE_def
  ANSWER_BUSY_def ANSWER_ERROR_def

record command =
  cmd_type :: "32 word"
  cmd_timer :: "32 word"

record answer =
  ans_type :: "32 word"
  ans_timer :: "32 word"

text \<open>The two-field structures in memory.\<close>

definition command_bytes :: "command \<Rightarrow> 8 word list" where
  "command_bytes c = int_bytes (cmd_type c) @ int_bytes (cmd_timer c)"

definition bytes_command :: "8 word list \<Rightarrow> command" where
  "bytes_command bs = \<lparr>cmd_type = bytes_int (take 4 bs), cmd_timer = bytes_int (drop 4 bs)\<rparr>"

definition answer_bytes :: "answer \<Rightarrow> 8 word list" where
  "answer_bytes a = int_bytes (ans_type a) @ int_bytes (ans_timer a)"

definition bytes_answer :: "8 word list \<Rightarrow> answer" where
  "bytes_answer bs = \<lparr>ans_type = bytes_int (take 4 bs), ans_timer = bytes_int (drop 4 bs)\<rparr>"

lemma length_struct_bytes [simp]: "length (command_bytes c) = 8" "length (answer_bytes a) = 8"
  by (simp_all add: command_bytes_def answer_bytes_def)

lemma bytes_command_inverse [simp]: "bytes_command (command_bytes c) = c"
  by (simp add: bytes_command_def command_bytes_def)

lemma bytes_answer_inverse [simp]: "bytes_answer (answer_bytes a) = a"
  by (simp add: bytes_answer_def answer_bytes_def)

subsection \<open>Whole writes and reads\<close>

datatype write_result = Wrote nat | Write_eintr | Write_error

text \<open>The return value and the bytes that reached the pipe.\<close>

fun write_full :: "write_result list \<Rightarrow> 8 word list \<Rightarrow> (int \<times> 8 word list) option" where
  "write_full rs [] = Some (0, [])"
| "write_full [] (b # bs) = None"
| "write_full (Write_eintr # rs) (b # bs) = write_full rs (b # bs)"
| "write_full (Write_error # rs) (b # bs) = Some (-1, [])"
| "write_full (Wrote n # rs) (b # bs) =
     map_option (\<lambda>(r, out). (r, take n (b # bs) @ out)) (write_full rs (drop n (b # bs)))"

text \<open>\<open>Got bs\<close>: \<^verbatim>\<open>read\<close> returned these bytes, at most as many as asked for; none at end of file.\<close>

datatype read_result = Got "8 word list" | Read_eintr | Read_error

fun read_full :: "read_result list \<Rightarrow> nat \<Rightarrow> (int \<times> 8 word list) option" where
  "read_full rs 0 = Some (1, [])"
| "read_full [] (Suc n) = None"
| "read_full (Read_eintr # rs) (Suc n) = read_full rs (Suc n)"
| "read_full (Read_error # rs) (Suc n) = Some (-1, [])"
| "read_full (Got bs # rs) (Suc n) =
     (let got = take (Suc n) bs
      in if got = [] then Some (0, [])
         else map_option (\<lambda>(r, out). (r, got @ out)) (read_full rs (Suc n - length got)))"

lemma write_full_whole: "write_full rs bs = Some (r, out) \<Longrightarrow> r = 0 \<and> out = bs \<or> r = -1"
  by (induction rs bs arbitrary: out rule: write_full.induct) (auto split: prod.splits)

text \<open>A reader at a pipe that holds \<open>bs\<close>: every read returns some of what is left, or is
  interrupted.\<close>

fun reads_from :: "read_result list \<Rightarrow> 8 word list \<Rightarrow> bool" where
  "reads_from rs [] = True"
| "reads_from [] (b # bs) = False"
| "reads_from (Read_eintr # rs) (b # bs) = reads_from rs (b # bs)"
| "reads_from (Read_error # rs) (b # bs) = False"
| "reads_from (Got got # rs) (b # bs) =
     (got \<noteq> [] \<and> got = take (length got) (b # bs) \<and> reads_from rs (drop (length got) (b # bs)))"

lemma read_full_whole: "reads_from rs bs \<Longrightarrow> read_full rs (length bs) = Some (1, bs)"
proof (induction rs bs rule: reads_from.induct)
  case (5 got rs b bs)
  from 5(2) have ne: "got \<noteq> []" and got: "got = take (length got) (b # bs)"
    and rest: "reads_from rs (drop (length got) (b # bs))" by auto
  from arg_cong [OF got, of length] have le: "length got \<le> Suc (length bs)" by simp
  then have whole: "take (Suc (length bs)) got = got" by simp
  have "read_full rs (length (drop (length got) (b # bs))) = Some (1, drop (length got) (b # bs))"
    using 5(1) ne got rest by blast
  then have "read_full rs (Suc (length bs) - length got) = Some (1, drop (length got) (b # bs))"
    by (simp only: length_drop length_Cons)
  moreover have "got @ drop (length got) (b # bs) = b # bs"
    by (metis append_take_drop_id got)
  ultimately show ?case using ne whole by (simp add: Let_def)
qed auto

text \<open>A writer that the pipe lets make progress finishes.\<close>

lemma write_full_progress:
  "\<forall>r \<in> set rs. \<exists>n. r = Wrote (Suc n) \<Longrightarrow> length bs \<le> length rs \<Longrightarrow> write_full rs bs = Some (0, bs)"
proof (induction rs bs rule: write_full.induct)
  case (5 n rs b bs)
  then obtain k where "n = Suc k" by auto
  with 5 show ?case by simp
qed auto

subsection \<open>The driver\<close>

record driver_state =
  g_timer_done :: bool
  g_need_stop :: bool
  is_busy :: bool
  busy_until :: int

definition timer_handler :: "driver_state \<Rightarrow> driver_state" where
  "timer_handler d = d\<lparr>g_timer_done := True\<rparr>"

definition stop_handler :: "driver_state \<Rightarrow> driver_state" where
  "stop_handler d = d\<lparr>g_need_stop := True\<rparr>"

datatype poll_result = Poll_eintr | Poll_error | Polled bool bool

text \<open>What happens during one pass: signals before the test of \<^verbatim>\<open>g_need_stop\<close>, signals between
  the first and the second test of \<^verbatim>\<open>g_timer_done\<close>, the calls' results (\<open>Polled hup in\<close>).\<close>

record driver_env =
  alarm_before :: bool
  stop_before :: bool
  polled :: poll_result
  alarm_during :: bool
  stop_during :: bool
  reads :: "read_result list"
  now :: int
  writes :: "write_result list"

definition signals :: "bool \<Rightarrow> bool \<Rightarrow> driver_state \<Rightarrow> driver_state" where
  "signals al stop d =
     (let d1 = (if al then timer_handler d else d) in if stop then stop_handler d1 else d1)"

definition seconds_left :: "int \<Rightarrow> int \<Rightarrow> 32 word" where
  "seconds_left t until = (if until \<le> t then 0 else word_of_int (until - t))"

datatype driver_event = Answered answer "8 word list" | Alarm_set "32 word" | Driver_perror string
  | Driver_close int | Driver_exit int

text \<open>How a pass ends: another pass, the loop is left, or a call has not returned.\<close>

datatype pass_end = Again | Left_loop | Waiting

definition send_answer :: "write_result list \<Rightarrow> 32 word \<Rightarrow> 32 word \<Rightarrow> driver_event list \<times> pass_end" where
  "send_answer ws ty timer =
     (let a = \<lparr>ans_type = ty, ans_timer = timer\<rparr>
      in case write_full ws (answer_bytes a) of
           None \<Rightarrow> ([], Waiting)
         | Some (r, out) \<Rightarrow>
             (Answered a out # (if r = -1 then [Driver_perror ''write''] else []), Again))"

definition reset_timer :: "driver_state \<Rightarrow> driver_state" where
  "reset_timer d =
     (if g_timer_done d then d\<lparr>g_timer_done := False, is_busy := False, busy_until := 0\<rparr> else d)"

text \<open>The commands: the new state, the events, how the pass ends.\<close>

definition driver_command ::
  "driver_env \<Rightarrow> command \<Rightarrow> driver_state \<Rightarrow> driver_state \<times> driver_event list \<times> pass_end" where
  "driver_command e c d =
     (if cmd_type c = CMD_TASK then
        if is_busy d then
          (d, send_answer (writes e) ANSWER_BUSY (seconds_left (now e) (busy_until d)))
        else
          (case send_answer (writes e) ANSWER_OK (cmd_timer c) of
             (ev, fin) \<Rightarrow>
               (d\<lparr>is_busy := True, busy_until := now e + sint (cmd_timer c)\<rparr>,
                Alarm_set (cmd_timer c) # ev, fin))
      else if cmd_type c = CMD_STATUS then
        (d, (if is_busy d
             then send_answer (writes e) ANSWER_BUSY (seconds_left (now e) (busy_until d))
             else send_answer (writes e) ANSWER_AVAILABLE 0))
      else if cmd_type c = CMD_EXIT then (d, [], Left_loop)
      else (d, send_answer (writes e) ANSWER_ERROR 0))"

definition driver_pass ::
  "driver_env \<Rightarrow> driver_state \<Rightarrow> driver_state \<times> driver_event list \<times> pass_end" where
  "driver_pass e d =
     (let d0 = signals (alarm_before e) (stop_before e) d
      in if g_need_stop d0 then (d0, [], Left_loop)
         else
           let d1 = signals (alarm_during e) (stop_during e) (reset_timer d0)
           in case polled e of
                Poll_eintr \<Rightarrow> (d1, [], Again)
              | Poll_error \<Rightarrow> (d1, [Driver_perror ''poll''], Left_loop)
              | Polled hup pin \<Rightarrow>
                  if hup then (d1, [], Left_loop)
                  else if pin then
                    (case read_full (reads e) 8 of
                       None \<Rightarrow> (d1, [], Waiting)
                     | Some (status, bs) \<Rightarrow>
                         if status \<le> 0 then (d1, [], Left_loop)
                         else driver_command e (bytes_command bs) (reset_timer d1))
                  else (d1, [], Again))"

definition driver_start :: driver_state where
  "driver_start = \<lparr>g_timer_done = False, g_need_stop = False, is_busy = False, busy_until = 0\<rparr>"

fun driver_passes ::
  "driver_env list \<Rightarrow> driver_state \<Rightarrow> driver_state \<times> driver_event list \<times> pass_end" where
  "driver_passes [] d = (d, [], Again)"
| "driver_passes (e # es) d =
     (case driver_pass e d of
        (d1, ev, fin) \<Rightarrow>
          if fin \<noteq> Again then (d1, ev, fin)
          else (case driver_passes es d1 of (d2, ev2, fin2) \<Rightarrow> (d2, ev @ ev2, fin2)))"

text \<open>\<^verbatim>\<open>driver_loop\<close> with the result of \<^verbatim>\<open>setup_driver_signals\<close>; both ends are closed on the
  way out.\<close>

definition setup_driver_signals :: "bool \<Rightarrow> bool \<Rightarrow> driver_event list" where
  "setup_driver_signals alrm term =
     (if alrm \<and> term then [] else [Driver_perror ''sigaction'', Driver_exit 1])"

definition driver_loop :: "bool \<Rightarrow> bool \<Rightarrow> int \<Rightarrow> int \<Rightarrow> driver_env list \<Rightarrow> driver_event list" where
  "driver_loop alrm term read_fd write_fd es =
     (if setup_driver_signals alrm term \<noteq> [] then setup_driver_signals alrm term
      else (case driver_passes es driver_start of
              (d, ev, fin) \<Rightarrow>
                if fin = Left_loop
                then ev @ [Driver_close read_fd, Driver_close write_fd, Driver_exit 0] else ev))"

subsection \<open>What a driver promises\<close>

text \<open>The abstract driver: free, or busy until a moment.  An answer is \<open>None\<close> only for
  \<^verbatim>\<open>CMD_EXIT\<close>.\<close>

definition serve :: "command \<Rightarrow> int \<Rightarrow> int option \<Rightarrow> answer option \<times> int option" where
  "serve c t b =
     (if cmd_type c = CMD_EXIT then (None, b)
      else if cmd_type c = CMD_TASK then
        (case b of
           Some u \<Rightarrow> (Some \<lparr>ans_type = ANSWER_BUSY, ans_timer = seconds_left t u\<rparr>, b)
         | None \<Rightarrow> (Some \<lparr>ans_type = ANSWER_OK, ans_timer = cmd_timer c\<rparr>, Some (t + sint (cmd_timer c))))
      else if cmd_type c = CMD_STATUS then
        (case b of
           Some u \<Rightarrow> (Some \<lparr>ans_type = ANSWER_BUSY, ans_timer = seconds_left t u\<rparr>, b)
         | None \<Rightarrow> (Some \<lparr>ans_type = ANSWER_AVAILABLE, ans_timer = 0\<rparr>, b))
      else (Some \<lparr>ans_type = ANSWER_ERROR, ans_timer = 0\<rparr>, b))"

text \<open>One entry per pass: whether the task's alarm went off, and the command read with the time.\<close>

fun drv_spec :: "(bool \<times> (command \<times> int) option) list \<Rightarrow> int option \<Rightarrow> answer list" where
  "drv_spec [] b = []"
| "drv_spec ((fired, None) # xs) b = drv_spec xs (if fired then None else b)"
| "drv_spec ((fired, Some (c, t)) # xs) b =
     (case serve c t (if fired then None else b) of
        (None, b1) \<Rightarrow> []
      | (Some a, b1) \<Rightarrow> a # drv_spec xs b1)"

definition drv_abs :: "driver_state \<Rightarrow> int option" where
  "drv_abs d = (if is_busy d \<and> \<not> g_timer_done d then Some (busy_until d) else None)"

fun answers :: "driver_event list \<Rightarrow> answer list" where
  "answers [] = []"
| "answers (Answered a bs # es) = a # answers es"
| "answers (e # es) = answers es"

fun sent_bytes :: "driver_event list \<Rightarrow> 8 word list" where
  "sent_bytes [] = []"
| "sent_bytes (Answered a bs # es) = bs @ sent_bytes es"
| "sent_bytes (e # es) = sent_bytes es"

lemma answers_append [simp]: "answers (es @ fs) = answers es @ answers fs"
  by (induction es rule: answers.induct) auto

text \<open>A pass whose calls bring the input \<open>x\<close>: an interrupted poll, or a whole command and an
  answer pipe that takes what is written.\<close>

definition delivers :: "driver_env \<Rightarrow> bool \<times> (command \<times> int) option \<Rightarrow> bool" where
  "delivers e x \<longleftrightarrow> fst x = (alarm_before e \<or> alarm_during e) \<and> \<not> stop_before e \<and> \<not> stop_during e \<and>
     (case snd x of
        None \<Rightarrow> polled e = Poll_eintr
      | Some (c, t) \<Rightarrow> polled e = Polled False True \<and> reads_from (reads e) (command_bytes c) \<and>
          t = now e \<and> (\<forall>r \<in> set (writes e). \<exists>n. r = Wrote (Suc n)) \<and> 8 \<le> length (writes e))"

lemma send_answer_whole:
  "\<forall>r \<in> set ws. \<exists>n. r = Wrote (Suc n) \<Longrightarrow> 8 \<le> length ws \<Longrightarrow>
   send_answer ws ty t =
     ([Answered \<lparr>ans_type = ty, ans_timer = t\<rparr> (answer_bytes \<lparr>ans_type = ty, ans_timer = t\<rparr>)], Again)"
  by (simp add: send_answer_def write_full_progress Let_def)

lemma need_stop_frame [simp]:
  "g_need_stop (signals al False d) = g_need_stop d" "g_need_stop (reset_timer d) = g_need_stop d"
  by (simp_all add: signals_def reset_timer_def timer_handler_def Let_def)

lemma pass_quiet:
  assumes "delivers e (fired, None)" "\<not> g_need_stop d" "driver_pass e d = (d', ev, fin)"
  shows "drv_abs d' = (if fired then None else drv_abs d) \<and> ev = [] \<and> fin = Again \<and> \<not> g_need_stop d'"
  using assms by (auto simp: delivers_def driver_pass_def signals_def reset_timer_def timer_handler_def
    drv_abs_def Let_def split: if_splits)

lemma pass_serves:
  assumes "delivers e (fired, Some (c, t))" "\<not> g_need_stop d" "driver_pass e d = (d', ev, fin)"
  shows "(case serve c t (if fired then None else drv_abs d) of (a, b) \<Rightarrow>
      drv_abs d' = b \<and> \<not> g_need_stop d' \<and>
      (case a of None \<Rightarrow> answers ev = [] \<and> fin = Left_loop
       | Some x \<Rightarrow> answers ev = [x] \<and> sent_bytes ev = answer_bytes x \<and> fin = Again))"
proof -
  let ?d1 = "reset_timer (signals (alarm_during e) False (reset_timer (signals (alarm_before e) False d)))"
  from assms(1) have sig: "\<not> stop_before e" "\<not> stop_during e" "fired = (alarm_before e \<or> alarm_during e)"
    and p: "polled e = Polled False True" "t = now e"
    and ws: "\<forall>r \<in> set (writes e). \<exists>n. r = Wrote (Suc n)" "8 \<le> length (writes e)"
    and "reads_from (reads e) (command_bytes c)"
    by (auto simp: delivers_def)
  then have "read_full (reads e) 8 = Some (1, command_bytes c)"
    using read_full_whole [of "reads e" "command_bytes c"] by simp
  with sig p assms(2,3) have cmd: "driver_command e c ?d1 = (d', ev, fin)"
    by (simp add: driver_pass_def Let_def)
  have d1: "\<not> g_timer_done ?d1" "\<not> g_need_stop ?d1"
      "(if is_busy ?d1 then Some (busy_until ?d1) else None) = (if fired then None else drv_abs d)"
    using sig(3) assms(2) by (auto simp: signals_def reset_timer_def timer_handler_def drv_abs_def)
  note send = send_answer_whole [OF ws]
  show ?thesis
    using cmd d1(1,2) unfolding d1(3) [symmetric] p(2)
    by (auto simp: driver_command_def serve_def send drv_abs_def taxi_codes split: if_splits)
qed

lemma passes_refine:
  "list_all2 delivers es xs \<Longrightarrow> \<not> g_need_stop d \<Longrightarrow> driver_passes es d = (d', ev, fin) \<Longrightarrow>
   answers ev = drv_spec xs (drv_abs d)"
proof (induction es xs arbitrary: d ev rule: list_all2_induct)
  case (Cons e es x xs)
  obtain fired i where x: "x = (fired, i)" by fastforce
  obtain d1 ev1 fin1 where pass: "driver_pass e d = (d1, ev1, fin1)" by (metis prod_cases3)
  obtain d2 ev2 fin2 where run: "driver_passes es d1 = (d2, ev2, fin2)" by (metis prod_cases3)
  show ?case
  proof (cases i)
    case None
    with pass_quiet [OF _ Cons.prems(1) pass] Cons x have
      "drv_abs d1 = (if fired then None else drv_abs d)" "ev1 = []" "fin1 = Again" "\<not> g_need_stop d1"
      by auto
    with Cons.IH [OF this(4)] Cons.prems(2) x None pass run show ?thesis by auto
  next
    case (Some ct)
    obtain c t where ct: "ct = (c, t)" by fastforce
    have "delivers e (fired, Some (c, t))" using Cons.hyps(1) x Some ct by simp
    note step = pass_serves [OF this Cons.prems(1) pass]
    obtain a b where serve: "serve c t (if fired then None else drv_abs d) = (a, b)" by fastforce
    show ?thesis
    proof (cases a)
      case None
      with step serve Cons.prems(2) x Some ct pass show ?thesis by auto
    next
      case (Some y)
      with step serve have "drv_abs d1 = b" "\<not> g_need_stop d1" "answers ev1 = [y]" "fin1 = Again" by auto
      with Cons.IH [OF this(2)] serve Some Cons.prems(2) x \<open>i = Some ct\<close> ct pass run show ?thesis by auto
    qed
  qed
qed simp

end
