(* ===== verification/Taxi_Cli.thy ===== *)
theory Taxi_Cli
  imports Taxi_Driver "HOL-Library.Multiset"
begin

text \<open>
  The command line of \<^verbatim>\<open>final-tasks/taxi-cli/src/main.c\<close>: the table of drivers, the commands and
  \<^verbatim>\<open>main\<close>, next to the driver process of theory \<open>Taxi_Driver\<close>.

  The answers of the system calls of one command are the record \<open>taxi_env\<close>; what the command does
  is the list of events it returns.  \<open>None\<close> as a result of a command means that it waits in
  \<^verbatim>\<open>read\<close> or \<^verbatim>\<open>write\<close>.  A write into the pipe of a dead driver raises \<^verbatim>\<open>SIGPIPE\<close>, which the
  program does not handle: such a run ends there and is no run of the model.
\<close>

definition MAX_DRIVERS :: nat where "MAX_DRIVERS = 32"
definition MAX_LINE :: nat where "MAX_LINE = 128"

record driver =
  drv_pid :: int
  to_driver :: int
  from_driver :: int

record taxi =
  drivers :: "driver list"
  drivers_count :: nat

text \<open>One exchange with a driver: how the write and the read go.\<close>

record exchange =
  asked :: "write_result list"
  replied :: "read_result list"

record taxi_env =
  pipe_to :: "(int \<times> int) option"
  pipe_from :: "(int \<times> int) option"
  forked :: int
  exchanges :: "exchange list"

datatype taxi_event = Out string | Perr string | Piped int int | Fd_closed int | Waited int
  | Sent int "8 word list"

definition find_driver :: "taxi \<Rightarrow> int \<Rightarrow> nat option" where
  "find_driver s pid = scan (\<lambda>d. drv_pid d = pid) 0 (drivers_count s) (drivers s)"

text \<open>The return value, the answer read, the events.\<close>

definition ask_driver ::
  "exchange \<Rightarrow> driver \<Rightarrow> command \<Rightarrow> (int \<times> answer option \<times> taxi_event list) option" where
  "ask_driver x d c =
     (case write_full (asked x) (command_bytes c) of
        None \<Rightarrow> None
      | Some (w, out) \<Rightarrow>
          if w = -1 then Some (-1, None, [Sent (to_driver d) out, Perr ''write''])
          else (case read_full (replied x) 8 of
                  None \<Rightarrow> None
                | Some (r, bs) \<Rightarrow>
                    if r \<le> 0 then Some (-1, None, [Sent (to_driver d) out, Perr ''read''])
                    else Some (0, Some (bytes_answer bs), [Sent (to_driver d) out])))"

definition answer_line :: "answer \<Rightarrow> string" where
  "answer_line a =
     (if ans_type a = ANSWER_OK then ''Task accepted''
      else if ans_type a = ANSWER_AVAILABLE then ''Available''
      else if ans_type a = ANSWER_BUSY then ''Busy '' @ show_int (sint (ans_timer a))
      else ''Error'')"

text \<open>In the child (\<^verbatim>\<open>fork\<close> returned 0) the result is the pair of ends it goes on with in
  \<^verbatim>\<open>driver_loop\<close>, which never returns.\<close>

datatype created = Child int int | Parent int taxi

definition create_driver :: "taxi_env \<Rightarrow> taxi \<Rightarrow> created \<times> taxi_event list" where
  "create_driver e s =
     (if drivers_count s \<ge> MAX_DRIVERS then (Parent (-1) s, [Out ''Too many drivers''])
      else case pipe_to e of
          None \<Rightarrow> (Parent (-1) s, [Perr ''pipe''])
        | Some (t0, t1) \<Rightarrow>
            (case pipe_from e of
               None \<Rightarrow> (Parent (-1) s, [Piped t0 t1, Perr ''pipe''])
             | Some (f0, f1) \<Rightarrow>
                 let ev = [Piped t0 t1, Piped f0 f1]
                 in if forked e = -1 then
                      (Parent (-1) s,
                       ev @ [Perr ''fork'', Fd_closed t0, Fd_closed t1, Fd_closed f0, Fd_closed f1])
                    else if forked e = 0 then (Child t0 f1, ev @ [Fd_closed t1, Fd_closed f0])
                    else
                      (Parent 0 (s\<lparr>drivers := (drivers s)[drivers_count s :=
                           \<lparr>drv_pid = forked e, to_driver = t1, from_driver = f0\<rparr>],
                         drivers_count := drivers_count s + 1\<rparr>),
                       ev @ [Fd_closed t0, Fd_closed f1, Out (''Created driver '' @ show_int (forked e))])))"

text \<open>How a command ends: the next prompt, the end of the loop, waiting in a call, or, in the
  child, the driver.\<close>

datatype line_end = Next | Stop | Blocked | Become_driver int int

definition print_reply :: "exchange list \<Rightarrow> driver \<Rightarrow> command \<Rightarrow> taxi_event list \<times> line_end" where
  "print_reply xs d c =
     (case xs of
        [] \<Rightarrow> ([], Blocked)
      | x # _ \<Rightarrow>
          (case ask_driver x d c of
             None \<Rightarrow> ([], Blocked)
           | Some (r, a, ev) \<Rightarrow> (ev @ (if r = 0 then [Out (answer_line (the a))] else []), Next)))"

definition send_task :: "taxi_env \<Rightarrow> taxi \<Rightarrow> int \<Rightarrow> int \<Rightarrow> taxi_event list \<times> line_end" where
  "send_task e s pid timer =
     (case find_driver s pid of
        None \<Rightarrow> ([Out ''Driver not found''], Next)
      | Some i \<Rightarrow> print_reply (exchanges e) (drivers s ! i)
                    \<lparr>cmd_type = CMD_TASK, cmd_timer = word_of_int timer\<rparr>)"

definition get_status :: "taxi_env \<Rightarrow> taxi \<Rightarrow> int \<Rightarrow> taxi_event list \<times> line_end" where
  "get_status e s pid =
     (case find_driver s pid of
        None \<Rightarrow> ([Out ''Driver not found''], Next)
      | Some i \<Rightarrow> print_reply (exchanges e) (drivers s ! i) \<lparr>cmd_type = CMD_STATUS, cmd_timer = 0\<rparr>)"

fun get_drivers_from :: "exchange list \<Rightarrow> driver list \<Rightarrow> taxi_event list \<times> line_end" where
  "get_drivers_from xs [] = ([], Next)"
| "get_drivers_from xs (d # ds) =
     (case print_reply xs d \<lparr>cmd_type = CMD_STATUS, cmd_timer = 0\<rparr> of
        (ev, fin) \<Rightarrow>
          let ev1 = Out (show_int (drv_pid d) @ '': '') # ev
          in if fin = Blocked then (ev1, Blocked)
             else (case get_drivers_from (tl xs) ds of (ev2, fin2) \<Rightarrow> (ev1 @ ev2, fin2)))"

definition get_drivers :: "taxi_env \<Rightarrow> taxi \<Rightarrow> taxi_event list \<times> line_end" where
  "get_drivers e s = get_drivers_from (exchanges e) (take (drivers_count s) (drivers s))"

fun stop_drivers_from :: "write_result list list \<Rightarrow> driver list \<Rightarrow> taxi_event list \<times> line_end" where
  "stop_drivers_from ws [] = ([], Stop)"
| "stop_drivers_from [] (d # ds) = ([], Blocked)"
| "stop_drivers_from (w # ws) (d # ds) =
     (case write_full w (command_bytes \<lparr>cmd_type = CMD_EXIT, cmd_timer = 0\<rparr>) of
        None \<Rightarrow> ([], Blocked)
      | Some (r, out) \<Rightarrow>
          (case stop_drivers_from ws ds of
             (ev, fin) \<Rightarrow>
               ([Sent (to_driver d) out, Fd_closed (to_driver d), Fd_closed (from_driver d),
                 Waited (drv_pid d)] @ ev, fin)))"

definition stop_drivers :: "write_result list list \<Rightarrow> taxi \<Rightarrow> taxi_event list \<times> line_end" where
  "stop_drivers ws s = stop_drivers_from ws (take (drivers_count s) (drivers s))"

definition print_help :: "taxi_event list" where
  "print_help = map Out [''Commands:'', ''create_driver'', ''send_task <pid> <task_timer>'',
     ''get_status <pid>'', ''get_drivers'', ''exit'']"

text \<open>\<^verbatim>\<open>sscanf(line, "%*s %d", ...)\<close> and \<^verbatim>\<open>sscanf(line, "%*s %d %d", ...)\<close>\<close>

definition scan_int_arg :: "string \<Rightarrow> int option" where
  "scan_int_arg line =
     Option.bind (scan_s line) (\<lambda>(w, r). Option.bind (scan_d r) (\<lambda>(i, r1). Some i))"

definition scan_int_args :: "string \<Rightarrow> (int \<times> int) option" where
  "scan_int_args line =
     Option.bind (scan_s line) (\<lambda>(w, r). Option.bind (scan_d r) (\<lambda>(i, r1).
       Option.bind (scan_d r1) (\<lambda>(j, r2). Some (i, j))))"

definition taxi_line :: "taxi_env \<Rightarrow> string \<Rightarrow> taxi \<Rightarrow> taxi \<times> taxi_event list \<times> line_end" where
  "taxi_line e buffer s =
     (let line = until_nul buffer
      in case scan_s line of
           None \<Rightarrow> (s, [], Next)
         | Some (word, rest) \<Rightarrow>
             let command = fit MAX_LINE word
             in if command = ''create_driver'' then
                  (case create_driver e s of
                     (Child r w, ev) \<Rightarrow> (s, ev, Become_driver r w)
                   | (Parent res s1, ev) \<Rightarrow> (s1, ev, Next))
                else if command = ''send_task'' then
                  (case scan_int_args line of
                     None \<Rightarrow> (s, [Out ''Usage: send_task <pid> <task_timer>''], Next)
                   | Some (pid, timer) \<Rightarrow>
                       if timer \<le> 0 then (s, [Out ''Usage: send_task <pid> <task_timer>''], Next)
                       else (s, send_task e s pid timer))
                else if command = ''get_status'' then
                  (case scan_int_arg line of
                     None \<Rightarrow> (s, [Out ''Usage: get_status <pid>''], Next)
                   | Some pid \<Rightarrow> (s, get_status e s pid))
                else if command = ''get_drivers'' then (s, get_drivers e s)
                else if command = ''help'' then (s, print_help, Next)
                else if command = ''exit'' then (s, [], Stop)
                else (s, [Out ''Unknown command''], Next))"

text \<open>The loop over standard input, one \<open>taxi_env\<close> per line.\<close>

fun taxi_loop :: "taxi_env list \<Rightarrow> string \<Rightarrow> taxi \<Rightarrow> taxi \<times> taxi_event list \<times> line_end" where
  "taxi_loop [] input s = (s, [], Blocked)"
| "taxi_loop (e # es) input s =
     (case fgets MAX_LINE input of
        None \<Rightarrow> (s, [Out ''taxi> ''], Stop)
      | Some (line, rest) \<Rightarrow>
          (case taxi_line e line s of
             (s1, ev, fin) \<Rightarrow>
               if fin = Next
               then (case taxi_loop es rest s1 of (s2, ev2, fin2) \<Rightarrow> (s2, Out ''taxi> '' # ev @ ev2, fin2))
               else (s1, Out ''taxi> '' # ev, fin)))"

definition taxi_start :: taxi where
  "taxi_start = \<lparr>drivers = replicate MAX_DRIVERS \<lparr>drv_pid = 0, to_driver = 0, from_driver = 0\<rparr>,
     drivers_count = 0\<rparr>"

definition taxi_main ::
  "taxi_env list \<Rightarrow> write_result list list \<Rightarrow> string \<Rightarrow> taxi \<times> taxi_event list \<times> line_end" where
  "taxi_main es ws input =
     (case taxi_loop es input taxi_start of
        (s, ev, fin) \<Rightarrow>
          if fin = Stop
          then (case stop_drivers ws s of (ev2, fin2) \<Rightarrow> (s, print_help @ ev @ ev2, fin2))
          else (s, print_help @ ev, fin))"

subsection \<open>Descriptors and children\<close>

fun opened_ends :: "taxi_event list \<Rightarrow> int list" where
  "opened_ends [] = []"
| "opened_ends (Piped r w # es) = r # w # opened_ends es"
| "opened_ends (e # es) = opened_ends es"

fun closed_ends :: "taxi_event list \<Rightarrow> int list" where
  "closed_ends [] = []"
| "closed_ends (Fd_closed fd # es) = fd # closed_ends es"
| "closed_ends (e # es) = closed_ends es"

text \<open>The ends of a pipe whose partner, the second pipe of the pair, could not be made.\<close>

fun lost_ends :: "taxi_event list \<Rightarrow> int list" where
  "lost_ends [] = []"
| "lost_ends (Piped r w # Perr m # es) = (if m = ''pipe'' then [r, w] else []) @ lost_ends es"
| "lost_ends (e # es) = lost_ends es"

fun waited :: "taxi_event list \<Rightarrow> int list" where
  "waited [] = []"
| "waited (Waited p # es) = p # waited es"
| "waited (e # es) = waited es"

lemma opened_ends_append [simp]: "opened_ends (es @ fs) = opened_ends es @ opened_ends fs"
  by (induction es rule: opened_ends.induct) auto

lemma closed_ends_append [simp]: "closed_ends (es @ fs) = closed_ends es @ closed_ends fs"
  by (induction es rule: closed_ends.induct) auto

lemma waited_append [simp]: "waited (es @ fs) = waited es @ waited fs"
  by (induction es rule: waited.induct) auto

lemma lost_ends_quiet: "opened_ends es = [] \<Longrightarrow> lost_ends (es @ fs) = lost_ends fs"
  by (induction es rule: opened_ends.induct) auto

lemma lost_ends_append:
  "\<forall>m fs1. fs \<noteq> Perr m # fs1 \<Longrightarrow> lost_ends (es @ fs) = lost_ends es @ lost_ends fs"
proof (induction es)
  case (Cons e es)
  show ?case
  proof (cases es)
    case Nil
    with Cons.prems show ?thesis by (cases e; cases fs; cases "hd fs") auto
  next
    case es: (Cons e2 es2)
    with Cons.IH [OF Cons.prems] show ?thesis by (cases e; cases e2) auto
  qed
qed simp

definition quiet :: "taxi_event list \<Rightarrow> bool" where
  "quiet ev \<longleftrightarrow> opened_ends ev = [] \<and> closed_ends ev = [] \<and> waited ev = []"

lemma quiet_simps [simp]:
  "quiet []" "quiet (Out l # ev) = quiet ev" "quiet (Perr l # ev) = quiet ev"
  "quiet (Sent fd bs # ev) = quiet ev" "quiet es \<Longrightarrow> quiet fs \<Longrightarrow> quiet (es @ fs)"
  "quiet (map Out ls)"
  by (simp_all add: quiet_def) (induction ls; simp)

lemma quiet_print_reply: "print_reply xs d c = (ev, fin) \<Longrightarrow> quiet ev"
  by (auto simp: print_reply_def ask_driver_def split: list.splits option.splits if_splits)

lemma quiet_get_drivers_from: "get_drivers_from xs ds = (ev, fin) \<Longrightarrow> quiet ev"
proof (induction xs ds arbitrary: ev fin rule: get_drivers_from.induct)
  case (2 xs d ds)
  obtain ev1 fin1 where r: "print_reply xs d \<lparr>cmd_type = CMD_STATUS, cmd_timer = 0\<rparr> = (ev1, fin1)" by fastforce
  obtain ev2 fin2 where g: "get_drivers_from (tl xs) ds = (ev2, fin2)" by fastforce
  from quiet_print_reply [OF r] 2 r g show ?case by (auto simp: Let_def split: if_splits)
qed simp

lemma quiet_send_task: "send_task e s p t = (ev, fin) \<Longrightarrow> quiet ev"
  by (auto simp: send_task_def split: option.splits dest: quiet_print_reply)

lemma quiet_get_status: "get_status e s p = (ev, fin) \<Longrightarrow> quiet ev"
  by (auto simp: get_status_def split: option.splits dest: quiet_print_reply)

lemma quiet_get_drivers: "get_drivers e s = (ev, fin) \<Longrightarrow> quiet ev"
  by (auto simp: get_drivers_def dest: quiet_get_drivers_from)

lemmas quiet_commands = quiet_send_task quiet_get_status quiet_get_drivers

definition taxi_table :: "taxi \<Rightarrow> driver list" where
  "taxi_table s = take (drivers_count s) (drivers s)"

definition taxi_ends :: "taxi \<Rightarrow> int list" where
  "taxi_ends s = concat (map (\<lambda>d. [to_driver d, from_driver d]) (taxi_table s))"

definition taxi_ok :: "taxi \<Rightarrow> bool" where
  "taxi_ok s \<longleftrightarrow> length (drivers s) = MAX_DRIVERS \<and> drivers_count s \<le> MAX_DRIVERS"

lemma taxi_ok_start [simp]: "taxi_ok taxi_start" "taxi_table taxi_start = []"
  by (simp_all add: taxi_ok_def taxi_start_def taxi_table_def)

lemma create_driver_ends:
  assumes "taxi_ok s" "create_driver e s = (Parent r s', ev)"
  shows "taxi_ok s' \<and> mset (closed_ends ev) + mset (lost_ends ev) + mset (taxi_ends s') = mset (opened_ends ev) + mset (taxi_ends s)
    \<and> waited ev = []"
proof -
  have "take (Suc (drivers_count s)) ((drivers s)[drivers_count s := d]) = taxi_table s @ [d]"
    if "drivers_count s < MAX_DRIVERS" for d
    using that assms(1) by (simp add: taxi_ok_def taxi_table_def take_append_slot)
  with assms show ?thesis
    by (auto simp: create_driver_def taxi_ok_def taxi_ends_def taxi_table_def Let_def
      split: if_splits option.splits)
qed

lemma taxi_line_ends:
  assumes "taxi_ok s" "taxi_line e b s = (s', ev, fin)" "\<forall>r w. fin \<noteq> Become_driver r w"
  shows "taxi_ok s' \<and> mset (closed_ends ev) + mset (lost_ends ev) + mset (taxi_ends s') = mset (opened_ends ev) + mset (taxi_ends s)
    \<and> waited ev = []"
proof -
  have q: "taxi_ok s \<and> mset (closed_ends ev) + mset (lost_ends ev) + mset (taxi_ends s) = mset (opened_ends ev) + mset (taxi_ends s)
      \<and> waited ev = []" if "quiet ev"
    using that assms(1) lost_ends_quiet [of ev "[]"] by (simp add: quiet_def)
  obtain c ev1 where create: "create_driver e s = (c, ev1)" by fastforce
  show ?thesis
  proof (cases "scan_s (until_nul b)")
    case None
    with assms q show ?thesis by (auto simp: taxi_line_def)
  next
    case (Some wr)
    obtain w r where wr: "wr = (w, r)" by fastforce
    show ?thesis
    proof (cases "fit MAX_LINE w = ''create_driver''")
      case True
      with Some wr assms(2,3) create obtain res where "create_driver e s = (Parent res s', ev)"
        by (auto simp: taxi_line_def split: created.splits)
      from create_driver_ends [OF assms(1) this] show ?thesis .
    next
      case False
      from False Some wr assms(2) have "s' = s \<and> quiet ev"
        by (auto simp: taxi_line_def Let_def print_help_def split: option.splits if_splits prod.splits
          dest: quiet_commands)
      with q show ?thesis by simp
    qed
  qed
qed

lemma taxi_loop_starts: "taxi_loop es input s = (s', ev, fin) \<Longrightarrow> \<forall>m fs. ev \<noteq> Perr m # fs"
  by (cases es) (auto split: option.splits prod.splits if_splits)

lemma taxi_loop_ends:
  "taxi_ok s \<Longrightarrow> taxi_loop es input s = (s', ev, fin) \<Longrightarrow> \<forall>r w. fin \<noteq> Become_driver r w \<Longrightarrow>
   taxi_ok s' \<and> mset (closed_ends ev) + mset (lost_ends ev) + mset (taxi_ends s') =
     mset (opened_ends ev) + mset (taxi_ends s) \<and> waited ev = []"
proof (induction es arbitrary: input s s' ev fin)
  case (Cons e es)
  show ?case
  proof (cases "fgets MAX_LINE input")
    case None
    with Cons.prems show ?thesis by auto
  next
    case (Some lr)
    obtain l rest where lr: "lr = (l, rest)" by fastforce
    obtain s1 ev1 fin1 where line: "taxi_line e l s = (s1, ev1, fin1)" by (metis prod_cases3)
    obtain s2 ev2 fin2 where loop: "taxi_loop es rest s1 = (s2, ev2, fin2)" by (metis prod_cases3)
    show ?thesis
    proof (cases "fin1 = Next")
      case True
      with taxi_line_ends [OF Cons.prems(1) line] have
        one: "taxi_ok s1" "mset (closed_ends ev1) + mset (lost_ends ev1) + mset (taxi_ends s1) =
            mset (opened_ends ev1) + mset (taxi_ends s)" "waited ev1 = []" by auto
      from True Some lr line loop Cons.prems(2) have
        eq: "s' = s2" "fin = fin2" "ev = Out ''taxi> '' # ev1 @ ev2" by auto
      with Cons.IH [OF one(1) loop] Cons.prems(3) have
        two: "taxi_ok s2" "mset (closed_ends ev2) + mset (lost_ends ev2) + mset (taxi_ends s2) =
            mset (opened_ends ev2) + mset (taxi_ends s1)" "waited ev2 = []" by auto
      have lost: "lost_ends (ev1 @ ev2) = lost_ends ev1 @ lost_ends ev2"
        by (rule lost_ends_append [OF taxi_loop_starts [OF loop]])
      from arg_cong2 [OF one(2) two(2), of "(+)"]
      have "mset (closed_ends ev1) + mset (closed_ends ev2) + (mset (lost_ends ev1) + mset (lost_ends ev2)) +
          mset (taxi_ends s2) = mset (opened_ends ev1) + mset (opened_ends ev2) + mset (taxi_ends s)"
        by (simp add: ac_simps)
      with one two eq lost show ?thesis by simp
    next
      case False
      with Some lr line Cons.prems(2) have "s' = s1" "fin = fin1" "ev = Out ''taxi> '' # ev1" by auto
      with taxi_line_ends [OF Cons.prems(1) line] Cons.prems(3) show ?thesis by simp
    qed
  qed
qed simp

lemma stop_drivers_ends:
  "stop_drivers_from ws ds = (ev, Stop) \<Longrightarrow>
   opened_ends ev = [] \<and> closed_ends ev = concat (map (\<lambda>d. [to_driver d, from_driver d]) ds) \<and>
   waited ev = map drv_pid ds \<and> (\<forall>m fs. ev \<noteq> Perr m # fs)"
  by (induction ws ds arbitrary: ev rule: stop_drivers_from.induct)
    (auto split: option.splits prod.splits)

subsection \<open>Properties of the taxi program\<close>

text \<open>
  Property C8.  A driver process, through any signals and interrupted polls and with commands
  and answers cut into any pieces by the pipes, answers exactly like the abstract driver: a task
  is accepted when it is free and makes it busy for its time, a task or a status request meets
  \<^verbatim>\<open>Busy\<close> with the seconds that remain until the alarm has gone off, an alarm that goes off
  while a command is on its way counts before it, and the exit command ends it.
\<close>

theorem taxi_driver_refines:
  assumes "list_all2 delivers es inputs" and "driver_passes es driver_start = (d, ev, fin)"
  shows "answers ev = drv_spec inputs None"
  using passes_refine [OF assms(1) _ assms(2)] by (simp add: driver_start_def drv_abs_def)

definition demo_pass_env :: "bool \<Rightarrow> command \<Rightarrow> int \<Rightarrow> driver_env" where
  "demo_pass_env al c t = \<lparr>alarm_before = al, stop_before = False, polled = Polled False True,
     alarm_during = False, stop_during = False,
     reads = [Got (take 3 (command_bytes c)), Read_eintr, Got (drop 3 (command_bytes c))],
     now = t, writes = replicate 8 (Wrote 5)\<rparr>"

definition demo_task :: "32 word \<Rightarrow> command" where
  "demo_task t = \<lparr>cmd_type = CMD_TASK, cmd_timer = t\<rparr>"

definition demo_drive :: "driver_state \<times> driver_event list \<times> pass_end" where
  "demo_drive = driver_passes [demo_pass_env False (demo_task 5) 100, demo_pass_env False (demo_task 9) 102,
     demo_pass_env True (demo_task 9) 106] driver_start"

lemma taxi_driver_refines_witness:
  "answers (fst (snd demo_drive)) =
     [\<lparr>ans_type = ANSWER_OK, ans_timer = 5\<rparr>, \<lparr>ans_type = ANSWER_BUSY, ans_timer = 3\<rparr>,
      \<lparr>ans_type = ANSWER_OK, ans_timer = 9\<rparr>]"
proof -
  let ?inputs = "[(False, Some (demo_task 5, 100)), (False, Some (demo_task 9, 102)),
    (True, Some (demo_task 9, 106))]"
  have run: "driver_passes [demo_pass_env False (demo_task 5) 100, demo_pass_env False (demo_task 9) 102,
      demo_pass_env True (demo_task 9) 106] driver_start =
      (fst demo_drive, fst (snd demo_drive), snd (snd demo_drive))"
    by (simp only: demo_drive_def prod.collapse)
  have del: "delivers (demo_pass_env al c t) (al, Some (c, t))" for al c t
    by (simp add: delivers_def demo_pass_env_def command_bytes_def int_bytes_def)
  have "drv_spec ?inputs None =
     [\<lparr>ans_type = ANSWER_OK, ans_timer = 5\<rparr>, \<lparr>ans_type = ANSWER_BUSY, ans_timer = 3\<rparr>,
      \<lparr>ans_type = ANSWER_OK, ans_timer = 9\<rparr>]"
    by (simp add: serve_def demo_task_def taxi_codes seconds_left_def)
  with taxi_driver_refines [OF _ run, of ?inputs] del show ?thesis by simp
qed

text \<open>
  Property C9.  What a session that ends regularly (at \<^verbatim>\<open>exit\<close> or the end of the input, without
  waiting for ever in a call) leaves behind: of the pipe ends it opened, each is closed exactly once (in
  the fork error path, after the fork, or when the drivers are stopped), except the two ends of each
  pipe whose partner could not be made, which are never closed; and it waits for every driver in its
  table, once and in order.
\<close>

theorem taxi_releases:
  assumes "taxi_main es ws input = (s, ev, Stop)"
  shows "mset (closed_ends ev) + mset (lost_ends ev) = mset (opened_ends ev) \<and>
    waited ev = map drv_pid (taxi_table s)"
proof -
  obtain s1 ev1 fin where loop: "taxi_loop es input taxi_start = (s1, ev1, fin)" by (metis prod_cases3)
  with assms have fin: "fin = Stop" by (auto simp: taxi_main_def split: if_splits prod.splits)
  with assms loop obtain ev2 where
    stop: "stop_drivers ws s = (ev2, Stop)" "ev = print_help @ ev1 @ ev2" "s1 = s"
    by (auto simp: taxi_main_def split: prod.splits)
  note st = stop_drivers_ends [OF stop(1) [unfolded stop_drivers_def]]
  have qh: "quiet print_help" by (simp add: print_help_def)
  then have "lost_ends ev = lost_ends ev1 @ lost_ends ev2"
    using st lost_ends_append [of ev2 ev1] by (simp add: stop(2) quiet_def lost_ends_quiet)
  moreover have "lost_ends ev2 = []" using st lost_ends_quiet [of ev2 "[]"] by simp
  moreover have "taxi_ends taxi_start = []" by (simp add: taxi_ends_def)
  ultimately show ?thesis
    using taxi_loop_ends [OF taxi_ok_start(1) loop] fin stop st qh
    by (auto simp: quiet_def taxi_ends_def taxi_table_def ac_simps)
qed

definition nl :: string where "nl = [CHR 0x0A]"

definition demo_taxi_env :: taxi_env where
  "demo_taxi_env = \<lparr>pipe_to = Some (3, 4), pipe_from = Some (5, 6), forked = 77, exchanges = []\<rparr>"

text \<open>Two drivers are asked for; for the second one only the first pipe can be made.\<close>

definition demo_half_env :: taxi_env where
  "demo_half_env = \<lparr>pipe_to = Some (7, 8), pipe_from = None, forked = 78, exchanges = []\<rparr>"

definition demo_taxi :: "taxi \<times> taxi_event list \<times> line_end" where
  "demo_taxi = taxi_main [demo_taxi_env, demo_half_env, demo_taxi_env] [[Wrote 8]]
     (''create_driver'' @ nl @ ''create_driver'' @ nl @ ''exit'' @ nl)"

lemma taxi_releases_witness:
  "mset (closed_ends (fst (snd demo_taxi))) + {#7, 8#} = {#3, 4, 5, 6, 7, 8#} \<and> waited (fst (snd demo_taxi)) = [77]"
proof -
  have "snd (snd demo_taxi) = Stop" by code_simp
  then have run: "taxi_main [demo_taxi_env, demo_half_env, demo_taxi_env] [[Wrote 8]]
      (''create_driver'' @ nl @ ''create_driver'' @ nl @ ''exit'' @ nl) = (fst demo_taxi, fst (snd demo_taxi), Stop)"
    by (metis demo_taxi_def prod.collapse)
  have "opened_ends (fst (snd demo_taxi)) = [3, 4, 5, 6, 7, 8]" "lost_ends (fst (snd demo_taxi)) = [7, 8]"
    "map drv_pid (taxi_table (fst demo_taxi)) = [77]"
    by code_simp+
  with taxi_releases [OF run] show ?thesis by simp
qed

text \<open>
  When the second \<^verbatim>\<open>pipe\<close> of \<^verbatim>\<open>create_driver\<close> fails, the two ends of the first one
  stay open: nothing closes them, then or at the end, since no driver is recorded.
\<close>

theorem taxi_pipe_leak:
  assumes "drivers_count s < MAX_DRIVERS" "pipe_to e = Some (r, w)" "pipe_from e = None"
  shows "create_driver e s = (Parent (-1) s, [Piped r w, Perr ''pipe'']) \<and>
    closed_ends (snd (create_driver e s)) = [] \<and> opened_ends (snd (create_driver e s)) = [r, w]"
  using assms by (simp add: create_driver_def)

lemma taxi_pipe_leak_witness:
  "create_driver (demo_taxi_env\<lparr>pipe_from := None\<rparr>) taxi_start =
     (Parent (-1) taxi_start, [Piped 3 4, Perr ''pipe''])"
  using taxi_pipe_leak [of taxi_start "demo_taxi_env\<lparr>pipe_from := None\<rparr>" 3 4]
  by (simp add: taxi_start_def demo_taxi_env_def MAX_DRIVERS_def)

text \<open>One exchange: the command line asks, the driver handles one pass, its answer is read back.\<close>

lemma ask_and_serve:
  assumes "\<forall>r \<in> set (asked x). \<exists>n. r = Wrote (Suc n)" "8 \<le> length (asked x)"
    and "delivers e (fired, Some (c, t))" "\<not> g_need_stop d" "driver_pass e d = (d', ev, fin)"
    and "serve c t (if fired then None else drv_abs d) = (Some a, b)"
    and "reads_from (replied x) (sent_bytes ev)"
  shows "ask_driver x drv c = Some (0, Some a, [Sent (to_driver drv) (command_bytes c)]) \<and> drv_abs d' = b"
proof -
  have "sent_bytes ev = answer_bytes a" "drv_abs d' = b"
    using pass_serves [OF assms(3,4,5)] assms(6) by auto
  moreover from this assms(7) have "read_full (replied x) 8 = Some (1, answer_bytes a)"
    using read_full_whole [of "replied x" "answer_bytes a"] by simp
  moreover have "write_full (asked x) (command_bytes c) = Some (0, command_bytes c)"
    using write_full_progress [OF assms(1)] assms(2) by simp
  ultimately show ?thesis by (simp add: ask_driver_def)
qed

text \<open>The line as it is typed, and how it is read.\<close>

definition task_line :: "int \<Rightarrow> int \<Rightarrow> string" where
  "task_line pid timer = ''send_task '' @ show_int pid @ '' '' @ show_int timer @ nl"

lemma scan_task_line:
  "scan_s (task_line p t) = Some (''send_task'', '' '' @ show_int p @ '' '' @ show_int t @ nl)"
  "scan_int_args (task_line p t) = Some (p, t)"
proof -
  show one: "scan_s (task_line p t) = Some (''send_task'', '' '' @ show_int p @ '' '' @ show_int t @ nl)"
    by (simp add: scan_s_def task_line_def is_space_def)
  have d: "scan_d ('' '' @ r) = scan_d r" for r
    by (rule scan_d_spaces) (simp add: is_space_def)
  have "scan_d (show_int p @ '' '' @ show_int t @ nl) = Some (p, '' '' @ show_int t @ nl)"
    "scan_d (show_int t @ nl) = Some (t, nl)"
    by (rule scan_d_show_int, simp add: is_digit_def nl_def)+
  with one d show "scan_int_args (task_line p t) = Some (p, t)"
    by (simp add: scan_int_args_def)
qed

lemma task_line_string: "until_nul (task_line p t) = task_line p t"
proof -
  have "c_string (task_line p t)"
    using show_int_no_nul [of p] show_int_no_nul [of t] by (simp add: task_line_def nl_def c_string_def)
  then show ?thesis by (auto simp: until_nul_def c_string_def takeWhile_eq_all_conv)
qed

text \<open>
  From the typed line to the driver and back: \<^verbatim>\<open>send_task <pid> <timer>\<close> for a
  driver in the table prints \<open>Task accepted\<close> when that driver is free (or its alarm has just gone
  off) and makes it busy until the time plus the timer, and prints \<open>Busy\<close> with the remaining
  seconds, and changes nothing, when it is not; whatever way the bytes of the two structures are
  cut up in the pipes.
\<close>

theorem taxi_send_task:
  assumes "find_driver s pid = Some i" and "0 < timer" "timer < 2 ^ 31"
    and "exchanges env = [x]"
    and "\<forall>r \<in> set (asked x). \<exists>n. r = Wrote (Suc n)" "8 \<le> length (asked x)"
    and "delivers e (fired, Some (\<lparr>cmd_type = CMD_TASK, cmd_timer = word_of_int timer\<rparr>, t))"
    and "\<not> g_need_stop d" "driver_pass e d = (d', ev, fin)"
    and "reads_from (replied x) (sent_bytes ev)"
  shows "\<exists>bytes. taxi_line env (task_line pid timer) s =
      (s, [Sent (to_driver (drivers s ! i)) bytes,
           Out (case if fired then None else drv_abs d of
                  None \<Rightarrow> ''Task accepted''
                | Some u \<Rightarrow> ''Busy '' @ show_int (sint (seconds_left t u)))], Next) \<and>
    drv_abs d' = (case if fired then None else drv_abs d of None \<Rightarrow> Some (t + timer) | Some u \<Rightarrow> Some u)"
proof -
  let ?c = "\<lparr>cmd_type = CMD_TASK, cmd_timer = word_of_int timer\<rparr>"
  have timer: "sint (word_of_int timer :: 32 word) = timer"
    using assms(2,3) by (simp add: sint_sbintrunc' signed_take_bit_int_eq_self)
  have "fst (serve ?c t (if fired then None else drv_abs d)) \<noteq> None"
    by (simp add: serve_def taxi_codes split: option.split)
  then obtain a b where serve: "serve ?c t (if fired then None else drv_abs d) = (Some a, b)"
    by (metis option.exhaust prod.collapse)
  have ask: "ask_driver x drv ?c = Some (0, Some a, [Sent (to_driver drv) (command_bytes ?c)])" and b: "drv_abs d' = b"
    for drv using ask_and_serve [OF assms(5-9) serve assms(10)] by auto
  have fitw: "fit MAX_LINE ''send_task'' = ''send_task''" by (simp add: MAX_LINE_def)
  have "taxi_line env (task_line pid timer) s = (s, send_task env s pid timer)"
    using assms(2) by (simp add: taxi_line_def task_line_string scan_task_line fitw Let_def)
  also have "send_task env s pid timer =
      ([Sent (to_driver (drivers s ! i)) (command_bytes ?c), Out (answer_line a)], Next)"
    by (simp add: send_task_def assms(1,4) print_reply_def ask)
  finally show ?thesis
    using serve b timer
    by (auto simp: serve_def taxi_codes answer_line_def split: option.splits if_splits) metis
qed

definition demo_served :: "driver_state \<times> driver_event list \<times> pass_end" where
  "demo_served = driver_pass (demo_pass_env False \<lparr>cmd_type = CMD_TASK, cmd_timer = word_of_int 5\<rparr> 100) driver_start"

definition demo_exchange :: exchange where
  "demo_exchange = \<lparr>asked = replicate 8 (Wrote 3),
     replied = [Got (take 5 (sent_bytes (fst (snd demo_served)))), Got (drop 5 (sent_bytes (fst (snd demo_served))))]\<rparr>"

definition demo_cab :: taxi where
  "demo_cab = fst (taxi_line demo_taxi_env ''create_driver'' taxi_start)"

lemma taxi_send_task_witness:
  "\<exists>bytes. taxi_line (demo_taxi_env\<lparr>exchanges := [demo_exchange]\<rparr>) (task_line 77 5) demo_cab =
     (demo_cab, [Sent 4 bytes, Out ''Task accepted''], Next)"
proof -
  have find: "find_driver demo_cab 77 = Some 0" and fd: "to_driver (drivers demo_cab ! 0) = 4" by code_simp+
  have xs: "exchanges (demo_taxi_env\<lparr>exchanges := [demo_exchange]\<rparr>) = [demo_exchange]" by simp
  have asked: "\<forall>r \<in> set (asked demo_exchange). \<exists>n. r = Wrote (Suc n)" "8 \<le> length (asked demo_exchange)"
    by (simp_all add: demo_exchange_def eval_nat_numeral)
  have del: "delivers (demo_pass_env False \<lparr>cmd_type = CMD_TASK, cmd_timer = word_of_int 5\<rparr> 100)
      (False, Some (\<lparr>cmd_type = CMD_TASK, cmd_timer = word_of_int 5\<rparr>, 100))"
    by (simp add: delivers_def demo_pass_env_def command_bytes_def int_bytes_def eval_nat_numeral)
  have go: "\<not> g_need_stop driver_start" by (simp add: driver_start_def)
  have pass: "driver_pass (demo_pass_env False \<lparr>cmd_type = CMD_TASK, cmd_timer = word_of_int 5\<rparr> 100) driver_start =
      (fst demo_served, fst (snd demo_served), snd (snd demo_served))"
    by (simp only: demo_served_def prod.collapse)
  have reply: "reads_from (replied demo_exchange) (sent_bytes (fst (snd demo_served)))" by code_simp
  have "drv_abs driver_start = None" by (simp add: driver_start_def drv_abs_def)
  with taxi_send_task [OF find _ _ xs asked del go pass reply] fd show ?thesis by auto
qed

end
