(* ===== verification/Taxi_System.thy ===== *)
theory Taxi_System
  imports Taxi_Cli
begin

text \<open>
  The taxi program as a whole (\<^verbatim>\<open>final-tasks/taxi-cli/src/main.c\<close>): the command line of \<open>Taxi_Cli\<close>
  with all the drivers it has started, each a process of \<open>Taxi_Driver\<close> at its pipes, through a session of typed lines.
  A driver reads the very bytes that the command line wrote into its pipe, and the command line the
  bytes of the answer, both in any pieces; in between, alarms go off and polls are interrupted.
\<close>

subsection \<open>Typed lines\<close>

datatype ride = Hire | Job int int | Ask int | Ask_all

fun ride_line :: "ride \<Rightarrow> string" where
  "ride_line Hire = ''create_driver''"
| "ride_line (Job p t) = ''send_task '' @ show_int p @ '' '' @ show_int t"
| "ride_line (Ask p) = ''get_status '' @ show_int p"
| "ride_line Ask_all = ''get_drivers''"

fun ride_ok :: "ride \<Rightarrow> bool" where
  "ride_ok (Job p t) \<longleftrightarrow> \<bar>p\<bar> < 2 ^ 31 \<and> 0 < t \<and> t < 2 ^ 31"
| "ride_ok (Ask p) \<longleftrightarrow> \<bar>p\<bar> < 2 ^ 31"
| "ride_ok _ \<longleftrightarrow> True"

lemma ride_line_chars: "CHR 0x0A \<notin> set (ride_line r)" "c_string (ride_line r)"
proof -
  have nat: "CHR 0x0A \<notin> set (show_nat n)" for n using show_nat_digits [of n] by (auto simp: is_digit_def)
  then have "CHR 0x0A \<notin> set (show_int i)" for i by (simp add: show_int_def)
  then show "CHR 0x0A \<notin> set (ride_line r)" by (cases r) simp_all
  show "c_string (ride_line r)"
    using show_int_no_nul by (cases r) (auto simp: c_string_def)
qed

lemma ride_line_fgets:
  assumes "ride_ok r"
  shows "fgets MAX_LINE (ride_line r @ nl @ rest) = Some (ride_line r @ nl, rest)"
proof -
  have len: "length (show_int i) \<le> 11" if "\<bar>i\<bar> < 2 ^ 31" for i using that by (intro length_show_int) simp
  have "length (ride_line r) < MAX_LINE - 1"
  proof (cases r)
    case (Job p t)
    with assms len [of p] len [of t] show ?thesis by (simp add: MAX_LINE_def)
  next
    case (Ask p)
    with assms len [of p] show ?thesis by (simp add: MAX_LINE_def)
  qed (simp_all add: MAX_LINE_def)
  from fgets_line [OF ride_line_chars(1) this, of rest] show ?thesis by (simp add: nl_def)
qed

lemma ride_line_string: "until_nul (ride_line r @ nl) = ride_line r @ nl"
  using ride_line_chars(2) [of r] by (auto simp: until_nul_def c_string_def nl_def takeWhile_eq_all_conv)

subsection \<open>One exchange, seen from both ends\<close>

text \<open>The passes of the driver up to the one that reads the command.\<close>

record visit =
  v_cli :: exchange
  v_passes :: "driver_env list"

definition fires :: "driver_env \<Rightarrow> bool" where
  "fires e \<longleftrightarrow> alarm_before e \<or> alarm_during e"

text \<open>A driver that reads the bytes \<open>sent\<close> as one command, after passes in which its poll was
  interrupted.\<close>

definition hears :: "driver_env list \<Rightarrow> 8 word list \<Rightarrow> bool" where
  "hears es sent \<longleftrightarrow>
     es \<noteq> [] \<and> (\<forall>e \<in> set (butlast es). delivers e (fires e, None)) \<and>
     (let e = last es
      in \<not> stop_before e \<and> \<not> stop_during e \<and> polled e = Polled False True \<and> reads_from (reads e) sent \<and>
         (\<forall>r \<in> set (writes e). \<exists>n. r = Wrote (Suc n)) \<and> 8 \<le> length (writes e))"

definition takes_all :: "write_result list \<Rightarrow> bool" where
  "takes_all ws \<longleftrightarrow> (\<forall>r \<in> set ws. \<exists>n. r = Wrote (Suc n)) \<and> 8 \<le> length ws"

definition visit_ok :: "visit \<Rightarrow> 8 word list \<Rightarrow> 8 word list \<Rightarrow> bool" where
  "visit_ok v sent answer \<longleftrightarrow>
     takes_all (asked (v_cli v)) \<and> reads_from (replied (v_cli v)) answer \<and> hears (v_passes v) sent"

lemma write_command: "takes_all ws \<Longrightarrow> write_full ws (command_bytes c) = Some (0, command_bytes c)"
  by (rule write_full_progress) (simp_all add: takes_all_def)

text \<open>What the abstract fleet sees of it: whether an alarm has gone off, and the time.\<close>

definition view :: "visit \<Rightarrow> bool \<times> int" where
  "view v = ((\<exists>e \<in> set (v_passes v). fires e), now (last (v_passes v)))"

lemma idle_passes:
  "\<forall>e \<in> set is. delivers e (fires e, None) \<Longrightarrow> \<not> g_need_stop d \<Longrightarrow>
   \<exists>d1. driver_passes (is @ es) d = driver_passes es d1 \<and> \<not> g_need_stop d1 \<and>
     drv_abs d1 = (if \<exists>e \<in> set is. fires e then None else drv_abs d)"
proof (induction "is" arbitrary: d)
  case (Cons e es')
  obtain d1 ev fin where pass: "driver_pass e d = (d1, ev, fin)" by (metis prod_cases3)
  from pass_quiet [OF _ Cons.prems(2) pass, of "fires e"] Cons.prems(1)
  have one: "drv_abs d1 = (if fires e then None else drv_abs d)" "ev = []" "fin = Again" "\<not> g_need_stop d1" by auto
  from Cons.IH [OF _ one(4)] Cons.prems(1) obtain d2 where
    "driver_passes (es' @ es) d1 = driver_passes es d2" "\<not> g_need_stop d2"
    "drv_abs d2 = (if \<exists>e \<in> set es'. fires e then None else drv_abs d1)" by auto
  with one pass show ?case by (intro exI [of _ d2]) (auto split: prod.splits)
qed auto

lemma hears_pass:
  assumes "hears es (command_bytes c)" "\<not> g_need_stop d"
  obtains d1 where "driver_passes es d = driver_passes [last es] d1" "\<not> g_need_stop d1"
    "delivers (last es) (fires (last es), Some (c, now (last es)))"
    "(if fires (last es) then None else drv_abs d1) = (if \<exists>e \<in> set es. fires e then None else drv_abs d)"
proof -
  let ?e = "last es"
  have ps: "es = butlast es @ [?e]" using assms(1) by (simp add: hears_def)
  have idle: "\<forall>e \<in> set (butlast es). delivers e (fires e, None)"
    and del: "delivers ?e (fires ?e, Some (c, now ?e))"
    using assms(1) by (auto simp: hears_def delivers_def fires_def Let_def)
  obtain d1 where d1: "driver_passes es d = driver_passes [?e] d1" "\<not> g_need_stop d1"
    "drv_abs d1 = (if \<exists>e \<in> set (butlast es). fires e then None else drv_abs d)"
    using idle_passes [OF idle assms(2), of "[?e]"] ps by metis
  have "(\<exists>e \<in> set es. fires e) \<longleftrightarrow> (\<exists>e \<in> set (butlast es). fires e) \<or> fires ?e"
    by (subst ps) auto
  with d1 del that show thesis by simp
qed

lemma visit_serves:
  assumes "visit_ok v (command_bytes c) answer" "\<not> g_need_stop d"
    "driver_passes (v_passes v) d = (d', ev, fin)"
    "serve c (snd (view v)) (if fst (view v) then None else drv_abs d) = (Some a, b)"
  shows "sent_bytes ev = answer_bytes a \<and> drv_abs d' = b \<and> \<not> g_need_stop d'"
proof -
  let ?e = "last (v_passes v)"
  from assms(1) have "hears (v_passes v) (command_bytes c)" by (simp add: visit_ok_def)
  then obtain d1 where d1: "driver_passes (v_passes v) d = driver_passes [?e] d1" "\<not> g_need_stop d1"
    "delivers ?e (fires ?e, Some (c, now ?e))" "(if fires ?e then None else drv_abs d1) = (if fst (view v) then None else drv_abs d)"
    unfolding view_def fst_conv by (rule hears_pass [OF _ assms(2)])
  obtain d2 ev2 fin2 where pass: "driver_pass ?e d1 = (d2, ev2, fin2)" by (metis prod_cases3)
  have "serve c (now ?e) (if fires ?e then None else drv_abs d1) = (Some a, b)" using assms(4) d1(4) by (simp add: view_def)
  with pass_serves [OF d1(3,2) pass]
  have "drv_abs d2 = b" "\<not> g_need_stop d2" "sent_bytes ev2 = answer_bytes a" "fin2 = Again" by auto
  with pass d1(1) assms(3) show ?thesis by auto
qed

text \<open>The command that ends a driver.\<close>

definition farewell :: "8 word list" where
  "farewell = command_bytes \<lparr>cmd_type = CMD_EXIT, cmd_timer = 0\<rparr>"

lemma driver_leaves:
  assumes "hears es farewell" "\<not> g_need_stop d"
  shows "\<exists>d' ev. driver_passes es d = (d', ev, Left_loop) \<and> answers ev = []"
proof -
  obtain d1 where d1: "driver_passes es d = driver_passes [last es] d1" "\<not> g_need_stop d1"
    "delivers (last es) (fires (last es), Some (\<lparr>cmd_type = CMD_EXIT, cmd_timer = 0\<rparr>, now (last es)))"
    using hears_pass [OF assms [unfolded farewell_def]] by blast
  obtain d2 ev2 fin2 where pass: "driver_pass (last es) d1 = (d2, ev2, fin2)" by (metis prod_cases3)
  from pass_serves [OF d1(3,2) pass] have "answers ev2 = []" "fin2 = Left_loop"
    by (auto simp: serve_def)
  with d1(1) pass show ?thesis by auto
qed

fun sents :: "taxi_event list \<Rightarrow> (int \<times> 8 word list) list" where
  "sents [] = []"
| "sents (Sent fd bs # es) = (fd, bs) # sents es"
| "sents (e # es) = sents es"

fun shown_lines :: "taxi_event list \<Rightarrow> string list" where
  "shown_lines [] = []"
| "shown_lines (Out l # es) = l # shown_lines es"
| "shown_lines (e # es) = shown_lines es"

lemma sents_append [simp]: "sents (es @ fs) = sents es @ sents fs"
  by (induction es rule: sents.induct) auto

lemma shown_lines_append [simp]: "shown_lines (es @ fs) = shown_lines es @ shown_lines fs"
  by (induction es rule: shown_lines.induct) auto

text \<open>The end of the command line: it sends one command, whole, and shows the answer.\<close>

lemma print_reply_sends:
  "print_reply (x # xs) d c = (ev, Next) \<Longrightarrow> \<exists>out. sents ev = [(to_driver d, out)]"
  by (auto simp: print_reply_def ask_driver_def split: option.splits if_splits)

lemma print_reply_shows:
  assumes "print_reply (v_cli v # xs) d c = (ev, Next)" "sents ev = [(fd, out)]" "visit_ok v out answer"
  shows "out = command_bytes c \<and> (answer = answer_bytes a \<longrightarrow> ev = [Sent (to_driver d) out, Out (answer_line a)])"
proof -
  have w: "write_full (asked (v_cli v)) (command_bytes c) = Some (0, command_bytes c)"
    using assms(3) by (intro write_command) (simp add: visit_ok_def)
  moreover have "read_full (replied (v_cli v)) 8 = Some (1, answer_bytes a)" if "answer = answer_bytes a"
    using read_full_whole [of "replied (v_cli v)" "answer_bytes a"] assms(3) that by (simp add: visit_ok_def)
  ultimately show ?thesis
    using assms(1,2) by (auto simp: print_reply_def ask_driver_def split: option.splits if_splits)
qed

subsection \<open>The fleet\<close>

text \<open>The abstract fleet: process ids in the order of the table, free or busy until a moment.\<close>

type_synonym fleet = "(int \<times> int option) list"

text \<open>What a driver says to a task (\<open>Some\<close> its time) or a question (\<open>None\<close>), and what it is then.\<close>

definition reply :: "int option \<Rightarrow> bool \<times> int \<Rightarrow> int option \<Rightarrow> string \<times> int option" where
  "reply what w b =
     (case (if fst w then None else b) of
        Some u \<Rightarrow> (''Busy '' @ show_int (sint (seconds_left (snd w) u)), Some u)
      | None \<Rightarrow> (case what of
           None \<Rightarrow> (''Available'', None)
         | Some timer \<Rightarrow> (''Task accepted'', Some (snd w + timer))))"

definition ask_one :: "int \<Rightarrow> int option \<Rightarrow> (bool \<times> int) list \<Rightarrow> fleet \<Rightarrow> fleet \<times> string list" where
  "ask_one p what ws fl =
     (case scan (\<lambda>x. fst x = p) 0 (length fl) fl of
        None \<Rightarrow> (fl, [''Driver not found''])
      | Some i \<Rightarrow> (case reply what (hd ws) (snd (fl ! i)) of (m, b) \<Rightarrow> (fl[i := (fst (fl ! i), b)], [m])))"

fun ask_each :: "(bool \<times> int) list \<Rightarrow> fleet \<Rightarrow> fleet \<times> string list" where
  "ask_each ws [] = ([], [])"
| "ask_each ws ((p, b) # fl) =
     (case reply None (hd ws) b of
        (m, b1) \<Rightarrow> (case ask_each (tl ws) fl of (fl1, ms) \<Rightarrow> ((p, b1) # fl1, (show_int p @ '': '') # m # ms)))"

definition hire :: "int \<Rightarrow> fleet \<Rightarrow> fleet \<times> string list" where
  "hire p fl =
     (if MAX_DRIVERS \<le> length fl then (fl, [''Too many drivers''])
      else (fl @ [(p, None)], [''Created driver '' @ show_int p]))"

fun fleet_turn :: "ride \<Rightarrow> int \<Rightarrow> (bool \<times> int) list \<Rightarrow> fleet \<Rightarrow> fleet \<times> string list" where
  "fleet_turn Hire p ws fl = hire p fl"
| "fleet_turn (Job p t) _ ws fl = ask_one p (Some t) ws fl"
| "fleet_turn (Ask p) _ ws fl = ask_one p None ws fl"
| "fleet_turn Ask_all _ ws fl = ask_each ws fl"

text \<open>A turn of the whole system: the line, what the system calls of the command line return, and the
  exchanges it makes.\<close>

record turn =
  tu_ride :: ride
  tu_env :: taxi_env
  tu_visits :: "visit list"

fun fleet_session :: "turn list \<Rightarrow> fleet \<Rightarrow> fleet \<times> string list list" where
  "fleet_session [] fl = (fl, [])"
| "fleet_session (u # us) fl =
     (case fleet_turn (tu_ride u) (forked (tu_env u)) (map view (tu_visits u)) fl of
        (fl1, ms) \<Rightarrow> (case fleet_session us fl1 of (fl2, mss) \<Rightarrow> (fl2, ms # mss)))"

subsection \<open>Command line and drivers together\<close>

text \<open>
  Each command sent goes to the driver whose pipe it was written into: from \<open>ds\<close> to \<open>ds'\<close> the
  drivers make the passes of the visits, in the order of the commands.
\<close>

fun linked :: "driver list \<Rightarrow> visit list \<Rightarrow> (int \<times> 8 word list) list \<Rightarrow> driver_state list \<Rightarrow> driver_state list \<Rightarrow> bool" where
  "linked tbl [] [] ds ds' \<longleftrightarrow> ds' = ds"
| "linked tbl (v # vs) ((fd, out) # bs) ds ds' \<longleftrightarrow>
     (\<exists>i < length tbl. to_driver (tbl ! i) = fd \<and>
        (case driver_passes (v_passes v) (ds ! i) of
           (d', ev, fin) \<Rightarrow> visit_ok v out (sent_bytes ev) \<and> linked tbl vs bs (ds[i := d']) ds'))"
| "linked tbl _ _ ds ds' \<longleftrightarrow> False"

text \<open>The kernel gives a new driver a process id, two pipes and ends that are not in use.\<close>

definition turn_ok :: "turn \<Rightarrow> taxi \<Rightarrow> bool" where
  "turn_ok u s \<longleftrightarrow> ride_ok (tu_ride u) \<and> exchanges (tu_env u) = map v_cli (tu_visits u) \<and>
     (tu_ride u = Hire \<longrightarrow> 0 < forked (tu_env u) \<and> pipe_from (tu_env u) \<noteq> None \<and>
       (case pipe_to (tu_env u) of None \<Rightarrow> False | Some (r, w) \<Rightarrow> w \<notin> to_driver ` set (taxi_table s)))"

inductive fleet_run :: "turn list \<Rightarrow> taxi \<Rightarrow> driver_state list \<Rightarrow> taxi \<Rightarrow> driver_state list \<Rightarrow> string list list \<Rightarrow> bool" where
  over: "fleet_run [] s ds s ds []"
| turn: "turn_ok u s \<Longrightarrow> taxi_line (tu_env u) (ride_line (tu_ride u) @ nl) s = (s1, ev, Next) \<Longrightarrow>
    linked (taxi_table s) (tu_visits u) (sents ev) ds ds1 \<Longrightarrow>
    fleet_run us s1 (ds1 @ replicate (drivers_count s1 - drivers_count s) driver_start) s2 ds2 outs \<Longrightarrow>
    fleet_run (u # us) s ds s2 ds2 (shown_lines ev # outs)"

definition fleet_of :: "taxi \<Rightarrow> driver_state list \<Rightarrow> fleet" where
  "fleet_of s ds = zip (map drv_pid (taxi_table s)) (map drv_abs ds)"

definition system_ok :: "taxi \<Rightarrow> driver_state list \<Rightarrow> bool" where
  "system_ok s ds \<longleftrightarrow> taxi_ok s \<and> length ds = drivers_count s \<and> (\<forall>d \<in> set ds. \<not> g_need_stop d) \<and>
     distinct (map to_driver (taxi_table s))"

subsection \<open>One line\<close>

definition cmd_of :: "int option \<Rightarrow> command" where
  "cmd_of what = (case what of
     None \<Rightarrow> \<lparr>cmd_type = CMD_STATUS, cmd_timer = 0\<rparr> | Some t \<Rightarrow> \<lparr>cmd_type = CMD_TASK, cmd_timer = word_of_int t\<rparr>)"

definition what_ok :: "int option \<Rightarrow> bool" where
  "what_ok what \<longleftrightarrow> (case what of None \<Rightarrow> True | Some t \<Rightarrow> 0 < t \<and> t < 2 ^ 31)"

lemma serve_reply:
  assumes "what_ok what" "reply what w b = (m, b1)"
  shows "\<exists>a. serve (cmd_of what) (snd w) (if fst w then None else b) = (Some a, b1) \<and> answer_line a = m"
proof -
  have "sint (word_of_int t :: 32 word) = t" if "0 < t" "t < 2 ^ 31" for t
    using that by (simp add: sint_sbintrunc' signed_take_bit_int_eq_self)
  with assms show ?thesis
    by (auto simp: reply_def serve_def cmd_of_def what_ok_def taxi_codes answer_line_def split: option.splits if_splits)
qed

lemma served_exchange:
  assumes "print_reply (map v_cli vs) (tbl ! k) (cmd_of what) = (ev, Next)"
    and "linked tbl vs (sents ev @ bs) ds ds'"
    and "distinct (map to_driver tbl)" "k < length tbl" "length ds = length tbl" "\<not> g_need_stop (ds ! k)" "what_ok what"
  obtains v vs' d' where "vs = v # vs'" "linked tbl vs' bs (ds[k := d']) ds'" "\<not> g_need_stop d'"
    "reply what (view v) (drv_abs (ds ! k)) = (hd (shown_lines ev), drv_abs d')" "shown_lines ev = [hd (shown_lines ev)]"
proof (cases vs)
  case Nil
  with assms(1) show thesis by (simp add: print_reply_def)
next
  case (Cons v vs')
  with assms(1) have pr: "print_reply (v_cli v # map v_cli vs') (tbl ! k) (cmd_of what) = (ev, Next)" by simp
  obtain out where out: "sents ev = [(to_driver (tbl ! k), out)]" using print_reply_sends [OF pr] by blast
  with assms(2) Cons obtain i where i: "i < length tbl" "to_driver (tbl ! i) = to_driver (tbl ! k)"
    and li: "case driver_passes (v_passes v) (ds ! i) of (d', evd, fin) \<Rightarrow>
      visit_ok v out (sent_bytes evd) \<and> linked tbl vs' bs (ds[i := d']) ds'" by auto
  have "i = k" using i assms(3,4) by (simp add: distinct_conv_nth) (metis)
  obtain d' evd fin where run: "driver_passes (v_passes v) (ds ! k) = (d', evd, fin)" by (metis prod_cases3)
  with li \<open>i = k\<close> have ok: "visit_ok v out (sent_bytes evd)" and rest: "linked tbl vs' bs (ds[k := d']) ds'" by auto
  obtain m b1 where rep: "reply what (view v) (drv_abs (ds ! k)) = (m, b1)" by fastforce
  from serve_reply [OF assms(7) rep] obtain a where
    a: "serve (cmd_of what) (snd (view v)) (if fst (view v) then None else drv_abs (ds ! k)) = (Some a, b1)" "answer_line a = m"
    by blast
  note told = print_reply_shows [OF pr out ok]
  then have "visit_ok v (command_bytes (cmd_of what)) (sent_bytes evd)" using ok by simp
  from visit_serves [OF this assms(6) run a(1)]
  have d': "sent_bytes evd = answer_bytes a" "drv_abs d' = b1" "\<not> g_need_stop d'" by auto
  with told a(2) have "shown_lines ev = [m]" by auto
  with that Cons rest d' rep show thesis by simp
qed

lemma each_exchange:
  assumes "get_drivers_from (map v_cli vs) rest = (ev, Next)" "rest = drop k tbl" "k \<le> length tbl"
    and "linked tbl vs (sents ev) ds ds'"
    and "distinct (map to_driver tbl)" "length ds = length tbl" "\<forall>d \<in> set ds. \<not> g_need_stop d"
  shows "ask_each (map view vs) (drop k (zip (map drv_pid tbl) (map drv_abs ds))) =
      (drop k (zip (map drv_pid tbl) (map drv_abs ds')), shown_lines ev) \<and>
    length ds' = length ds \<and> take k ds' = take k ds \<and> (\<forall>d \<in> set ds'. \<not> g_need_stop d)"
  using assms
proof (induction rest arbitrary: k vs ev ds)
  case Nil
  then show ?case by (cases vs) auto
next
  case (Cons d0 rest)
  then have k: "k < length tbl" "d0 = tbl ! k" "rest = drop (Suc k) tbl"
    by (metis drop_eq_Nil leI list.distinct(1), metis Cons_nth_drop_Suc drop_eq_Nil leI list.distinct(1) list.inject,
        metis Cons_nth_drop_Suc drop_eq_Nil leI list.distinct(1) list.inject)
  obtain ev1 fin1 where p: "print_reply (map v_cli vs) d0 (cmd_of None) = (ev1, fin1)" by fastforce
  obtain ev2 fin2 where g: "get_drivers_from (tl (map v_cli vs)) rest = (ev2, fin2)" by fastforce
  from Cons.prems(1) p g have fin: "fin1 \<noteq> Blocked" "fin2 = Next"
    "ev = Out (show_int (drv_pid d0) @ '': '') # ev1 @ ev2"
    by (auto simp: cmd_of_def Let_def split: if_splits)
  from p fin(1) have "fin1 = Next" by (auto simp: print_reply_def split: list.splits option.splits)
  with p k have p1: "print_reply (map v_cli vs) (tbl ! k) (cmd_of None) = (ev1, Next)" by simp
  have "linked tbl vs (sents ev1 @ sents ev2) ds ds'" using Cons.prems(4) fin(3) by simp
  from served_exchange [OF p1 this Cons.prems(5) k(1) Cons.prems(6)] Cons.prems(6,7) k(1)
  obtain v vs' d' where v: "vs = v # vs'" "linked tbl vs' (sents ev2) (ds[k := d']) ds'" "\<not> g_need_stop d'"
    "reply None (view v) (drv_abs (ds ! k)) = (hd (shown_lines ev1), drv_abs d')" "shown_lines ev1 = [hd (shown_lines ev1)]"
    by (auto simp: what_ok_def)
  have "get_drivers_from (map v_cli vs') rest = (ev2, Next)" using g fin(2) v(1) by simp
  from Cons.IH [OF this k(3) _ v(2) Cons.prems(5)] k(1) Cons.prems(6,7) v(3)
  have ih: "ask_each (map view vs') (drop (Suc k) (zip (map drv_pid tbl) (map drv_abs (ds[k := d'])))) =
      (drop (Suc k) (zip (map drv_pid tbl) (map drv_abs ds')), shown_lines ev2)"
    "length ds' = length ds" "take (Suc k) ds' = take (Suc k) (ds[k := d'])" "\<forall>d \<in> set ds'. \<not> g_need_stop d"
    by (auto simp: dest!: set_update_subset_insert [THEN subsetD])
  have dk: "ds' ! k = d'" "take k ds' = take k ds"
    using ih(2,3) k(1) Cons.prems(6)
    by (metis lessI nth_list_update_eq nth_take, metis lessI less_imp_le min.absorb1 take_take take_update_cancel order_refl)
  have zip: "drop k (zip (map drv_pid tbl) (map drv_abs xs)) =
      (drv_pid d0, drv_abs (xs ! k)) # drop (Suc k) (zip (map drv_pid tbl) (map drv_abs xs))" if "length xs = length tbl" for xs
    using that k(1,2) by (subst Cons_nth_drop_Suc [symmetric]) simp_all
  have later: "drop (Suc k) (zip (map drv_pid tbl) (map drv_abs (ds[k := d']))) = drop (Suc k) (zip (map drv_pid tbl) (map drv_abs ds))"
    by (simp add: drop_zip drop_map)
  show ?case
    using zip [OF Cons.prems(6)] zip [of ds'] ih(1,2,4) dk v(1,4,5) Cons.prems(6) fin(3) unfolding later
    by (auto split: prod.splits)
qed

text \<open>How the typed lines are read.\<close>

lemma typed_words:
  "scan_s (ride_line Hire @ nl) = Some (''create_driver'', nl)"
  "scan_s (ride_line Ask_all @ nl) = Some (''get_drivers'', nl)"
  "scan_s (ride_line (Ask p) @ nl) = Some (''get_status'', '' '' @ show_int p @ nl)"
  "scan_int_arg (ride_line (Ask p) @ nl) = Some p"
  "scan_s (''exit'' @ nl) = Some (''exit'', nl)"
proof -
  show "scan_s (ride_line Hire @ nl) = Some (''create_driver'', nl)"
    "scan_s (ride_line Ask_all @ nl) = Some (''get_drivers'', nl)"
    "scan_s (''exit'' @ nl) = Some (''exit'', nl)"
    by (simp_all add: scan_s_def nl_def is_space_def)
  show w: "scan_s (ride_line (Ask p) @ nl) = Some (''get_status'', '' '' @ show_int p @ nl)"
    by (simp add: scan_s_def is_space_def)
  have "scan_d ('' '' @ show_int p @ nl) = scan_d (show_int p @ nl)"
    by (rule scan_d_spaces) (simp add: is_space_def)
  also have "scan_d (show_int p @ nl) = Some (p, nl)"
    by (rule scan_d_show_int) (simp add: is_digit_def nl_def)
  finally show "scan_int_arg (ride_line (Ask p) @ nl) = Some p" using w by (simp add: scan_int_arg_def)
qed

lemma typed_task: "ride_line (Job p t) @ nl = task_line p t" by (simp add: task_line_def)

lemma taxi_line_ride:
  assumes "ride_ok r"
  shows "taxi_line e (ride_line r @ nl) s =
    (case r of
       Hire \<Rightarrow> (case create_driver e s of (Child rd wr, ev) \<Rightarrow> (s, ev, Become_driver rd wr) | (Parent res s1, ev) \<Rightarrow> (s1, ev, Next))
     | Job p t \<Rightarrow> (s, send_task e s p t)
     | Ask p \<Rightarrow> (s, get_status e s p)
     | Ask_all \<Rightarrow> (s, get_drivers e s))"
proof -
  have "fit MAX_LINE w = w" if "w \<in> {''create_driver'', ''send_task'', ''get_status'', ''get_drivers''}" for w
    using that by (auto simp: MAX_LINE_def)
  then show ?thesis
    using assms typed_words(1-4) scan_task_line
    unfolding taxi_line_def Let_def ride_line_string by (cases r) (simp_all only: typed_task, simp_all)
qed

lemma send_task_cmd:
  "send_task e s p t = (case find_driver s p of None \<Rightarrow> ([Out ''Driver not found''], Next)
     | Some i \<Rightarrow> print_reply (exchanges e) (drivers s ! i) (cmd_of (Some t)))"
  "get_status e s p = (case find_driver s p of None \<Rightarrow> ([Out ''Driver not found''], Next)
     | Some i \<Rightarrow> print_reply (exchanges e) (drivers s ! i) (cmd_of None))"
  by (simp_all add: send_task_def get_status_def cmd_of_def split: option.split)

lemma find_fleet:
  assumes "system_ok s ds"
  shows "scan (\<lambda>x. fst x = p) 0 (length (fleet_of s ds)) (fleet_of s ds) = find_driver s p"
    and "find_driver s p = Some i \<Longrightarrow> i < length ds \<and> drivers s ! i = taxi_table s ! i \<and>
      fleet_of s ds ! i = (drv_pid (taxi_table s ! i), drv_abs (ds ! i))"
proof -
  have len: "length (taxi_table s) = drivers_count s" "length ds = drivers_count s" "drivers_count s \<le> length (drivers s)"
    using assms by (simp_all add: system_ok_def taxi_ok_def taxi_table_def)
  then have fl: "length (fleet_of s ds) = drivers_count s" by (simp add: fleet_of_def)
  show "scan (\<lambda>x. fst x = p) 0 (length (fleet_of s ds)) (fleet_of s ds) = find_driver s p"
    unfolding fl find_driver_def using len
    by (intro scan_cong) (simp add: fleet_of_def taxi_table_def)
  assume "find_driver s p = Some i"
  then have "i < drivers_count s" by (auto simp: find_driver_def dest: scan_SomeD)
  with len show "i < length ds \<and> drivers s ! i = taxi_table s ! i \<and>
      fleet_of s ds ! i = (drv_pid (taxi_table s ! i), drv_abs (ds ! i))"
    by (simp add: fleet_of_def taxi_table_def)
qed

lemma one_driver:
  assumes "system_ok s ds" "what_ok what"
    and "(case find_driver s p of None \<Rightarrow> ([Out ''Driver not found''], Next)
       | Some i \<Rightarrow> print_reply (map v_cli vs) (drivers s ! i) (cmd_of what)) = (ev, Next)"
    and "linked (taxi_table s) vs (sents ev) ds ds1"
  shows "system_ok s ds1 \<and> ask_one p what (map view vs) (fleet_of s ds) = (fleet_of s ds1, shown_lines ev)"
proof (cases "find_driver s p")
  case None
  with assms(3,4) have "ds1 = ds" by (cases vs) auto
  with None assms(1,3) show ?thesis by (auto simp: ask_one_def find_fleet)
next
  case (Some i)
  note f = find_fleet(2) [OF assms(1) Some]
  have len: "length ds = length (taxi_table s)" and d: "distinct (map to_driver (taxi_table s))"
    using assms(1) by (simp_all add: system_ok_def taxi_ok_def taxi_table_def)
  have pr: "print_reply (map v_cli vs) (taxi_table s ! i) (cmd_of what) = (ev, Next)" using assms(3) Some f by simp
  have "\<not> g_need_stop (ds ! i)" using assms(1) f by (simp add: system_ok_def)
  from served_exchange [OF pr, of "[]", simplified, OF assms(4) d _ len this assms(2)] f len
  obtain v vs' d' where v: "vs = v # vs'" "linked (taxi_table s) vs' [] (ds[i := d']) ds1" "\<not> g_need_stop d'"
    "reply what (view v) (drv_abs (ds ! i)) = (hd (shown_lines ev), drv_abs d')" "shown_lines ev = [hd (shown_lines ev)]"
    by auto
  then have ds1: "ds1 = ds[i := d']" by (cases vs') auto
  have "fleet_of s ds1 = (fleet_of s ds)[i := (drv_pid (taxi_table s ! i), drv_abs d')]"
    using f len by (intro nth_equalityI) (auto simp: ds1 fleet_of_def nth_list_update)
  moreover have "system_ok s ds1"
    using assms(1) v(3) by (auto simp: ds1 system_ok_def dest!: set_update_subset_insert [THEN subsetD])
  ultimately show ?thesis
    using find_fleet(1) [OF assms(1), of p] Some f v(1,4,5) by (simp add: ask_one_def)
qed

lemma hire_turn:
  assumes "system_ok s ds" "turn_ok u s" "tu_ride u = Hire" "create_driver (tu_env u) s = (c, ev)" "linked (taxi_table s) vs (sents ev) ds ds1"
  shows "\<exists>res s1. c = Parent res s1 \<and> ds1 = ds \<and>
    system_ok s1 (ds @ replicate (drivers_count s1 - drivers_count s) driver_start) \<and>
    hire (forked (tu_env u)) (fleet_of s ds) =
      (fleet_of s1 (ds @ replicate (drivers_count s1 - drivers_count s) driver_start), shown_lines ev)"
proof -
  have len: "length (taxi_table s) = drivers_count s" "length ds = drivers_count s" "length (drivers s) = MAX_DRIVERS"
    using assms(1) by (simp_all add: system_ok_def taxi_ok_def taxi_table_def)
  then have fl: "length (fleet_of s ds) = drivers_count s" by (simp add: fleet_of_def)
  obtain r0 w0 where to: "pipe_to (tu_env u) = Some (r0, w0)" "w0 \<notin> to_driver ` set (taxi_table s)"
    using assms(2,3) by (auto simp: turn_ok_def split: option.splits)
  obtain r1 w1 where fr: "pipe_from (tu_env u) = Some (r1, w1)" using assms(2,3) by (auto simp: turn_ok_def)
  have pid: "0 < forked (tu_env u)" using assms(2,3) by (simp add: turn_ok_def)
  show ?thesis
  proof (cases "MAX_DRIVERS \<le> drivers_count s")
    case True
    with assms(4) have "c = Parent (-1) s" "ev = [Out ''Too many drivers'']" by (simp_all add: create_driver_def)
    with assms(1,5) True fl show ?thesis by (cases vs) (auto simp: hire_def)
  next
    case False
    let ?d = "\<lparr>drv_pid = forked (tu_env u), to_driver = w0, from_driver = r1\<rparr>"
    let ?s1 = "s\<lparr>drivers := (drivers s)[drivers_count s := ?d], drivers_count := Suc (drivers_count s)\<rparr>"
    have c: "c = Parent 0 ?s1" and ev: "sents ev = []" "shown_lines ev = [''Created driver '' @ show_int (forked (tu_env u))]"
      using assms(4) False to(1) fr pid by (auto simp: create_driver_def Let_def)
    have "ds1 = ds" using assms(5) ev(1) by (cases vs) auto
    moreover have tbl: "taxi_table ?s1 = taxi_table s @ [?d]"
      using False len(3) by (simp add: taxi_table_def take_append_slot)
    moreover have "fleet_of ?s1 (ds @ [driver_start]) = fleet_of s ds @ [(forked (tu_env u), None)]"
      using len by (simp add: fleet_of_def tbl drv_abs_def driver_start_def)
    moreover have "system_ok ?s1 (ds @ [driver_start])"
      using assms(1) to(2) False len by (auto simp: system_ok_def tbl taxi_ok_def driver_start_def)
    ultimately show ?thesis using c ev(2) False fl by (simp add: hire_def)
  qed
qed

lemma turn_refines:
  assumes "system_ok s ds" "turn_ok u s"
    and "taxi_line (tu_env u) (ride_line (tu_ride u) @ nl) s = (s1, ev, Next)"
    and "linked (taxi_table s) (tu_visits u) (sents ev) ds ds1"
  shows "system_ok s1 (ds1 @ replicate (drivers_count s1 - drivers_count s) driver_start) \<and>
    fleet_turn (tu_ride u) (forked (tu_env u)) (map view (tu_visits u)) (fleet_of s ds) =
      (fleet_of s1 (ds1 @ replicate (drivers_count s1 - drivers_count s) driver_start), shown_lines ev)"
proof -
  have ride: "ride_ok (tu_ride u)" and xs: "exchanges (tu_env u) = map v_cli (tu_visits u)"
    using assms(2) by (simp_all add: turn_ok_def)
  note line = assms(3) [unfolded taxi_line_ride [OF ride] send_task_cmd xs]
  show ?thesis
  proof (cases "tu_ride u")
    case Hire
    obtain c evc where c: "create_driver (tu_env u) s = (c, evc)" by fastforce
    with line Hire have "evc = ev" by (auto split: created.splits)
    from hire_turn [OF assms(1,2) Hire c [unfolded this] assms(4)] line c Hire show ?thesis by auto
  next
    case (Job p t)
    with line ride one_driver [OF assms(1) _ _ assms(4), of "Some t" p] show ?thesis by (auto simp: what_ok_def)
  next
    case (Ask p)
    with line one_driver [OF assms(1) _ _ assms(4), of None p] show ?thesis by (auto simp: what_ok_def)
  next
    case Ask_all
    with line have g: "get_drivers_from (map v_cli (tu_visits u)) (taxi_table s) = (ev, Next)" and s1: "s1 = s"
      by (auto simp: get_drivers_def xs taxi_table_def)
    have len: "length (taxi_table s) = drivers_count s" "length ds = drivers_count s"
      and ok: "distinct (map to_driver (taxi_table s))" "\<forall>d \<in> set ds. \<not> g_need_stop d"
      using assms(1) by (simp_all add: system_ok_def taxi_ok_def taxi_table_def)
    from each_exchange [of "tu_visits u" "taxi_table s" ev 0, OF g _ _ assms(4) ok(1) _ ok(2)] len assms(1) Ask_all s1
    show ?thesis by (simp add: fleet_of_def system_ok_def)
  qed
qed

lemma fleet_run_refines:
  "fleet_run us s ds s2 ds2 outs \<Longrightarrow> system_ok s ds \<Longrightarrow>
   fleet_session us (fleet_of s ds) = (fleet_of s2 ds2, outs) \<and> system_ok s2 ds2 \<and>
   (\<exists>ev. taxi_loop (map tu_env us @ [e]) (concat (map (\<lambda>u. ride_line (tu_ride u) @ nl) us) @ ''exit'' @ nl) s = (s2, ev, Stop) \<and>
     shown_lines ev = concat (map (\<lambda>ls. ''taxi> '' # ls) outs) @ [''taxi> ''])"
proof (induction rule: fleet_run.induct)
  case (over s ds)
  have "fgets MAX_LINE (''exit'' @ nl) = Some (''exit'' @ nl, [])"
    using fgets_line [of "''exit''" MAX_LINE "[]"] by (simp add: MAX_LINE_def nl_def)
  moreover have "taxi_line e (''exit'' @ nl) s = (s, [], Stop)"
    using typed_words(5) by (simp add: taxi_line_def until_nul_def nl_def MAX_LINE_def)
  ultimately show ?case using over by simp
next
  case (turn u s s1 ev ds ds1 us s2 ds2 outs)
  from turn_refines [OF turn.prems turn.hyps(1-3)] turn.IH obtain ev2 where ok: "system_ok s2 ds2" and
    t: "fleet_turn (tu_ride u) (forked (tu_env u)) (map view (tu_visits u)) (fleet_of s ds) =
      (fleet_of s1 (ds1 @ replicate (drivers_count s1 - drivers_count s) driver_start), shown_lines ev)"
    and ih: "fleet_session us (fleet_of s1 (ds1 @ replicate (drivers_count s1 - drivers_count s) driver_start)) = (fleet_of s2 ds2, outs)"
    "taxi_loop (map tu_env us @ [e]) (concat (map (\<lambda>u. ride_line (tu_ride u) @ nl) us) @ ''exit'' @ nl) s1 = (s2, ev2, Stop)"
    "shown_lines ev2 = concat (map (\<lambda>ls. ''taxi> '' # ls) outs) @ [''taxi> '']"
    by blast
  have "ride_ok (tu_ride u)" using turn.hyps(1) by (simp add: turn_ok_def)
  from ride_line_fgets [OF this] ih turn.hyps(2) t ok show ?case by simp
qed

text \<open>At the end every driver is told to leave, and waited for.\<close>

definition goodbyes :: "driver list \<Rightarrow> taxi_event list" where
  "goodbyes tbl = concat (map (\<lambda>d. [Sent (to_driver d) farewell, Fd_closed (to_driver d), Fd_closed (from_driver d),
     Waited (drv_pid d)]) tbl)"

lemma stop_all:
  "length ws = length tbl \<Longrightarrow> \<forall>w \<in> set ws. takes_all w \<Longrightarrow> stop_drivers_from ws tbl = (goodbyes tbl, Stop)"
  by (induction ws tbl rule: list_induct2) (simp_all add: goodbyes_def write_command farewell_def)

text \<open>
  Property C7.  The whole taxi program: the command line with all the drivers it has started, for any
  session of typed lines that create drivers, send tasks and ask for the status of one driver or of
  all, and then exit; whatever pieces the bytes come in, and whenever alarms go off.  What is printed,
  line by line, is what the abstract fleet says: each driver, in the order of the table, is free, or
  busy for the time of its task until its alarm; and the table and the states of the processes are
  those of the fleet at the end.  Then every driver is told to leave, its pipes are closed and it is
  waited for; and a driver that reads this leaves its loop.
\<close>

theorem taxi_fleet:
  assumes "fleet_run us taxi_start [] s ds outs" "length ws = length ds" "\<forall>w \<in> set ws. takes_all w"
  shows "fleet_session us [] = (fleet_of s ds, outs) \<and>
    (\<exists>ev. taxi_main (map tu_env us @ [e]) ws (concat (map (\<lambda>u. ride_line (tu_ride u) @ nl) us) @ ''exit'' @ nl) =
        (s, print_help @ ev @ goodbyes (taxi_table s), Stop) \<and>
      shown_lines ev = concat (map (\<lambda>ls. ''taxi> '' # ls) outs) @ [''taxi> '']) \<and>
    (\<forall>d \<in> set ds. \<forall>es. hears es farewell \<longrightarrow> (\<exists>d' ev. driver_passes es d = (d', ev, Left_loop)))"
proof -
  have start: "system_ok taxi_start []" by (simp add: system_ok_def) (simp add: taxi_start_def)
  from fleet_run_refines [OF assms(1) start, of e] obtain ev where
    run: "fleet_session us [] = (fleet_of s ds, outs)" "system_ok s ds"
      "taxi_loop (map tu_env us @ [e]) (concat (map (\<lambda>u. ride_line (tu_ride u) @ nl) us) @ ''exit'' @ nl) taxi_start = (s, ev, Stop)"
      "shown_lines ev = concat (map (\<lambda>ls. ''taxi> '' # ls) outs) @ [''taxi> '']"
    by (auto simp: fleet_of_def)
  have "length ws = length (taxi_table s)"
    using assms(2) run(2) by (simp add: system_ok_def taxi_ok_def taxi_table_def)
  from stop_all [OF this assms(3)] have "stop_drivers ws s = (goodbyes (taxi_table s), Stop)"
    by (simp add: stop_drivers_def taxi_table_def)
  with run show ?thesis using driver_leaves by (fastforce simp: taxi_main_def system_ok_def)
qed

text \<open>A driver is hired, gets a task, and all are asked.\<close>

definition demo_visit :: "command \<Rightarrow> int \<Rightarrow> answer \<Rightarrow> visit" where
  "demo_visit c t a = \<lparr>v_cli = \<lparr>asked = replicate 8 (Wrote 3),
       replied = [Got (take 5 (answer_bytes a)), Read_eintr, Got (drop 5 (answer_bytes a))]\<rparr>,
     v_passes = [demo_pass_env False c t]\<rparr>"

definition demo_turns :: "turn list" where
  "demo_turns = map (\<lambda>(r, vs). \<lparr>tu_ride = r, tu_env = demo_taxi_env\<lparr>exchanges := map v_cli vs\<rparr>, tu_visits = vs\<rparr>)
     [(Hire, []),
      (Job 77 5, [demo_visit (cmd_of (Some 5)) 100 \<lparr>ans_type = ANSWER_OK, ans_timer = 5\<rparr>]),
      (Ask_all, [demo_visit (cmd_of None) 102 \<lparr>ans_type = ANSWER_BUSY, ans_timer = 3\<rparr>])]"

lemma demo_visit_ok: "visit_ok (demo_visit c t a) (command_bytes c) (answer_bytes a)"
  by (simp add: visit_ok_def hears_def takes_all_def demo_visit_def demo_pass_env_def command_bytes_def answer_bytes_def int_bytes_def
      eval_nat_numeral Let_def)

definition demo_busy :: driver_state where
  "demo_busy = driver_start\<lparr>is_busy := True, busy_until := 105\<rparr>"

lemma demo_passes:
  "driver_passes (v_passes (demo_visit (cmd_of (Some 5)) 100 \<lparr>ans_type = ANSWER_OK, ans_timer = 5\<rparr>)) driver_start =
     (demo_busy, [Alarm_set 5, Answered \<lparr>ans_type = ANSWER_OK, ans_timer = 5\<rparr> (answer_bytes \<lparr>ans_type = ANSWER_OK, ans_timer = 5\<rparr>)], Again)"
  "driver_passes (v_passes (demo_visit (cmd_of None) 102 \<lparr>ans_type = ANSWER_BUSY, ans_timer = 3\<rparr>)) demo_busy =
     (demo_busy, [Answered \<lparr>ans_type = ANSWER_BUSY, ans_timer = 3\<rparr> (answer_bytes \<lparr>ans_type = ANSWER_BUSY, ans_timer = 3\<rparr>)], Again)"
  by code_simp+

lemma demo_lines:
  "taxi_line (tu_env (demo_turns ! 0)) (ride_line Hire @ nl) taxi_start =
     (demo_cab, [Piped 3 4, Piped 5 6, Fd_closed 3, Fd_closed 6, Out ''Created driver 77''], Next)"
  "taxi_line (tu_env (demo_turns ! 1)) (ride_line (Job 77 5) @ nl) demo_cab =
     (demo_cab, [Sent 4 (command_bytes (cmd_of (Some 5))), Out ''Task accepted''], Next)"
  "taxi_line (tu_env (demo_turns ! 2)) (ride_line Ask_all @ nl) demo_cab =
     (demo_cab, [Out ''77: '', Sent 4 (command_bytes (cmd_of None)), Out ''Busy 3''], Next)"
  by code_simp+

lemma demo_fleet_run:
  "fleet_run demo_turns taxi_start [] demo_cab [demo_busy]
     [[''Created driver 77''], [''Task accepted''], [''77: '', ''Busy 3'']]"
proof -
  have tbl: "taxi_table demo_cab = [\<lparr>drv_pid = 77, to_driver = 4, from_driver = 5\<rparr>]" "drivers_count demo_cab = 1"
    "taxi_table taxi_start = []" "drivers_count taxi_start = 0" by code_simp+
  have turns: "demo_turns = [demo_turns ! 0, demo_turns ! 1, demo_turns ! 2]" by (simp add: demo_turns_def)
  have rides: "tu_ride (demo_turns ! 0) = Hire" "tu_ride (demo_turns ! 1) = Job 77 5" "tu_ride (demo_turns ! 2) = Ask_all"
    by (simp_all add: demo_turns_def)
  note visits = demo_visit_ok [of "cmd_of (Some 5)" 100] demo_visit_ok [of "cmd_of None" 102]
  have ok: "turn_ok (demo_turns ! 0) taxi_start" "turn_ok (demo_turns ! 1) demo_cab" "turn_ok (demo_turns ! 2) demo_cab"
    using tbl by (simp_all add: turn_ok_def demo_turns_def demo_taxi_env_def)
  have l1: "linked (taxi_table taxi_start) (tu_visits (demo_turns ! 0)) [] [] []" by (simp add: demo_turns_def)
  have l2: "linked (taxi_table demo_cab) (tu_visits (demo_turns ! 1)) [(4, command_bytes (cmd_of (Some 5)))] [driver_start] [demo_busy]"
    using visits(1) by (simp add: demo_turns_def tbl demo_passes(1))
  have l3: "linked (taxi_table demo_cab) (tu_visits (demo_turns ! 2)) [(4, command_bytes (cmd_of None))] [demo_busy] [demo_busy]"
    using visits(2) by (simp add: demo_turns_def tbl demo_passes(2))
  have r3: "fleet_run [demo_turns ! 2] demo_cab [demo_busy] demo_cab [demo_busy] [[''77: '', ''Busy 3'']]"
    using turn [OF ok(3), unfolded rides, OF demo_lines(3) _ over, of "[demo_busy]" "[demo_busy]"] l3 tbl(2) by simp
  have r2: "fleet_run [demo_turns ! 1, demo_turns ! 2] demo_cab [driver_start] demo_cab [demo_busy]
      [[''Task accepted''], [''77: '', ''Busy 3'']]"
    using turn [OF ok(2), unfolded rides, OF demo_lines(2), of "[driver_start]" "[demo_busy]"] l2 r3 tbl(2) by simp
  show ?thesis
    by (subst turns) (use turn [OF ok(1), unfolded rides, OF demo_lines(1), of "[]" "[]"] l1 r2 tbl(2,4) in simp)
qed

lemma taxi_fleet_witness:
  "\<exists>ev. taxi_main (map tu_env demo_turns @ [demo_taxi_env]) [replicate 8 (Wrote 8)]
      (concat (map (\<lambda>u. ride_line (tu_ride u) @ nl) demo_turns) @ ''exit'' @ nl) =
        (demo_cab, print_help @ ev @ goodbyes (taxi_table demo_cab), Stop) \<and>
    shown_lines ev = [''taxi> '', ''Created driver 77'', ''taxi> '', ''Task accepted'', ''taxi> '', ''77: '', ''Busy 3'', ''taxi> '']"
  using taxi_fleet [OF demo_fleet_run, of "[replicate 8 (Wrote 8)]" demo_taxi_env] by (simp add: takes_all_def)

end
