(* ===== verification/Raw_Echo.thy ===== *)
theory Raw_Echo
  imports Bytes Interfaces
begin

text \<open>
  The echo server and client over raw sockets, \<^verbatim>\<open>final-tasks/raw-echo/src/server.c\<close> and
  \<^verbatim>\<open>final-tasks/raw-echo/src/client.c\<close>.

  A received packet is the whole buffer of 512 bytes after \<^verbatim>\<open>recv\<close>, whatever was in the part
  the call did not fill: the code reads the length from the header, not from the call.  The
  header fields are read at the offsets of \<^verbatim>\<open>struct iphdr\<close> and \<^verbatim>\<open>struct udphdr\<close>.
\<close>

definition SERVER_PORT :: "16 word" where "SERVER_PORT = 7777"
definition ECHO_MAX_CLIENTS :: nat where "ECHO_MAX_CLIENTS = 32"
definition ECHO_MAX_TEXT :: nat where "ECHO_MAX_TEXT = 256"
definition IPPROTO_UDP :: byte where "IPPROTO_UDP = 17"

subsection \<open>Headers\<close>

definition ip_header_length :: "byte list \<Rightarrow> nat" where
  "ip_header_length p = 4 * (unat (p ! 0) mod 16)"

definition ip_protocol :: "byte list \<Rightarrow> byte" where
  "ip_protocol p = p ! 9"

definition ip_source :: "byte list \<Rightarrow> 32 word" where
  "ip_source p = bytes_int (drop 12 p)"

definition udp_source :: "byte list \<Rightarrow> 16 word" where
  "udp_source p = get16 p (ip_header_length p)"

definition udp_dest :: "byte list \<Rightarrow> 16 word" where
  "udp_dest p = get16 p (ip_header_length p + 2)"

definition udp_len :: "byte list \<Rightarrow> 16 word" where
  "udp_len p = get16 p (ip_header_length p + 4)"

text \<open>\<^verbatim>\<open>ntohs(len) - sizeof(struct udphdr)\<close> is computed in \<^verbatim>\<open>size_t\<close> and cut to the buffer.\<close>

definition udp_text_length :: "byte list \<Rightarrow> nat" where
  "udp_text_length p =
     (let n = unat (of_nat (unat (udp_len p)) - 8 :: 64 word)
      in if n \<ge> ECHO_MAX_TEXT then ECHO_MAX_TEXT - 1 else n)"

definition udp_text :: "byte list \<Rightarrow> string" where
  "udp_text p = until_nul (bytes_text (take (udp_text_length p) (drop (ip_header_length p + 8) p)))"

text \<open>A datagram as both programs build it: ports and length in network order, no checksum.\<close>

definition udp_packet :: "16 word \<Rightarrow> 16 word \<Rightarrow> string \<Rightarrow> byte list" where
  "udp_packet src dst text =
     net16 src @ net16 dst @ net16 (of_nat (8 + length text)) @ net16 0 @ text_bytes text"

subsection \<open>The server\<close>

record echo_client =
  ec_ip :: "32 word"
  ec_port :: "16 word"
  ec_count :: "32 word"

record echo_server =
  es_clients :: "echo_client list"
  es_count :: nat

datatype echo_event = Echo_print string | Echo_perror string
  | Sendto "32 word" "16 word" "byte list" bool

definition echo_find_client :: "echo_server \<Rightarrow> 32 word \<Rightarrow> 16 word \<Rightarrow> int" where
  "echo_find_client s ip port =
     index_of (scan (\<lambda>c. ec_ip c = ip \<and> ec_port c = port) 0 (es_count s) (es_clients s))"

definition echo_get_client :: "echo_server \<Rightarrow> 32 word \<Rightarrow> 16 word \<Rightarrow> int \<times> echo_server" where
  "echo_get_client s ip port =
     (let index = echo_find_client s ip port
      in if index \<noteq> -1 then (index, s)
         else if es_count s = ECHO_MAX_CLIENTS then (-1, s)
         else (int (es_count s),
               s\<lparr>es_clients := (es_clients s)[es_count s :=
                    \<lparr>ec_ip = ip, ec_port = port, ec_count = 0\<rparr>],
                 es_count := es_count s + 1\<rparr>))"

definition echo_remove_client :: "nat \<Rightarrow> echo_server \<Rightarrow> echo_server" where
  "echo_remove_client index s =
     s\<lparr>es_clients := swap_remove index (es_count s) (es_clients s), es_count := es_count s - 1\<rparr>"

definition echo_send_answer :: "bool \<Rightarrow> 32 word \<Rightarrow> 16 word \<Rightarrow> string \<Rightarrow> int \<times> echo_event list" where
  "echo_send_answer ok dst_ip dst_port text =
     (let ev = Sendto dst_ip dst_port (udp_packet SERVER_PORT dst_port text) ok
      in if \<not> ok then (1, [ev, Echo_perror ''sendto'']) else (0, [ev]))"

text \<open>\<^verbatim>\<open>inet_ntop\<close> for IPv4: the four bytes of the address in memory, in decimal.\<close>

definition inet_ntop :: "32 word \<Rightarrow> string" where
  "inet_ntop ip =
     (case map (\<lambda>b. show_nat (unat b)) (int_bytes ip) of
        [a, b, c, d] \<Rightarrow> a @ ''.'' @ b @ ''.'' @ c @ ''.'' @ d | _ \<Rightarrow> [])"

definition peer_text :: "32 word \<Rightarrow> 16 word \<Rightarrow> string" where
  "peer_text ip port = inet_ntop ip @ '':'' @ show_nat (unat port)"

definition answer_size :: nat where "answer_size = ECHO_MAX_TEXT + 32"

text \<open>One packet; \<open>ok\<close> is the result of the \<^verbatim>\<open>sendto\<close> it may cause.\<close>

definition echo_packet :: "bool \<Rightarrow> byte list \<Rightarrow> echo_server \<Rightarrow> echo_server \<times> echo_event list" where
  "echo_packet ok p s =
     (if ip_protocol p \<noteq> IPPROTO_UDP then (s, [])
      else if udp_dest p \<noteq> SERVER_PORT then (s, [])
      else
        let text = udp_text p; ip = ip_source p; port = udp_source p;
            index = echo_find_client s ip port
        in if text = ''close'' then
             (if index \<noteq> -1 then echo_remove_client (nat index) s else s,
              [Echo_print (''Client '' @ peer_text ip port @ '' closed'')])
           else
             (case echo_get_client s ip port of
                (i, s1) \<Rightarrow>
                  if i = -1 then (s1, [])
                  else
                    let c = es_clients s1 ! nat i;
                        c1 = c\<lparr>ec_count := ec_count c + 1\<rparr>;
                        s2 = s1\<lparr>es_clients := (es_clients s1)[nat i := c1]\<rparr>;
                        answer = fit answer_size (text @ '' '' @ show_int (sint (ec_count c1)))
                    in (s2, Echo_print (peer_text ip port @ '' -> '' @ answer) #
                            snd (echo_send_answer ok ip port answer))))"

text \<open>\<^verbatim>\<open>recv\<close> into the array of 512 bytes: what it does not fill keeps what was there.\<close>

definition echo_receive :: "byte list \<Rightarrow> byte list \<Rightarrow> byte list" where
  "echo_receive packet bs = take 512 bs @ drop (min 512 (length bs)) packet"

text \<open>The loop: a failed \<^verbatim>\<open>recv\<close> (\<open>None\<close>) is reported and the next one tried.\<close>

fun echo_loop :: "(byte list option \<times> bool) list \<Rightarrow> echo_server \<Rightarrow> echo_server \<times> echo_event list" where
  "echo_loop [] s = (s, [])"
| "echo_loop ((None, ok) # rs) s =
     (case echo_loop rs s of (s1, ev) \<Rightarrow> (s1, Echo_perror ''recv'' # ev))"
| "echo_loop ((Some p, ok) # rs) s =
     (case echo_packet ok p s of
        (s1, ev) \<Rightarrow> (case echo_loop rs s1 of (s2, ev2) \<Rightarrow> (s2, ev @ ev2)))"

definition echo_start :: echo_server where
  "echo_start = \<lparr>es_clients = replicate ECHO_MAX_CLIENTS \<lparr>ec_ip = 0, ec_port = 0, ec_count = 0\<rparr>,
     es_count = 0\<rparr>"

text \<open>\<^verbatim>\<open>main\<close>: exit code 1 without a socket; with one the loop never ends, so no code.\<close>

definition echo_main :: "int \<Rightarrow> (byte list option \<times> bool) list \<Rightarrow> int option \<times> echo_event list" where
  "echo_main sock_fd rs =
     (if sock_fd = -1 then (Some 1, [Echo_perror ''socket''])
      else (None, Echo_print (''Raw echo server started on port '' @ show_nat (unat SERVER_PORT)) #
                  snd (echo_loop rs echo_start)))"

subsection \<open>The client\<close>

definition is_number :: "string \<Rightarrow> bool" where
  "is_number text \<longleftrightarrow> list_all is_digit text \<and> text \<noteq> []"

datatype client_event = Cl_print string | Cl_perror string | Cl_sent "byte list" bool
  | Cl_close int | Cl_overflow

text \<open>\<^verbatim>\<open>send_message\<close>: the datagram is built in an array of \<open>8 + 256\<close> bytes; a longer text is
  written past its end (\<open>Cl_overflow\<close>, \<open>None\<close>).\<close>

definition send_message :: "bool \<Rightarrow> bool \<Rightarrow> int \<Rightarrow> string \<Rightarrow> int option \<times> client_event list" where
  "send_message addr_ok sent client_port text =
     (if length text > ECHO_MAX_TEXT then (None, [Cl_overflow])
      else if \<not> addr_ok then (Some 1, [Cl_perror ''inet_pton''])
      else
        let ev = Cl_sent (udp_packet (word_of_int client_port) SERVER_PORT text) sent
        in if \<not> sent then (Some 1, [ev, Cl_perror ''sendto'']) else (Some 0, [ev]))"

datatype recv_result = Packet "byte list" | Recv_eintr | Recv_failed

text \<open>\<^verbatim>\<open>wait_answer\<close> over what \<^verbatim>\<open>recv\<close> returns; \<open>None\<close> while it waits.\<close>

fun wait_answer :: "bool \<Rightarrow> recv_result list \<Rightarrow> int \<Rightarrow> int option \<times> client_event list" where
  "wait_answer need_stop [] client_port = (None, [])"
| "wait_answer need_stop (Recv_eintr # rs) client_port =
     (Some 1, if need_stop then [] else [Cl_perror ''recv''])"
| "wait_answer need_stop (Recv_failed # rs) client_port = (Some 1, [Cl_perror ''recv''])"
| "wait_answer need_stop (Packet p # rs) client_port =
     (if ip_protocol p \<noteq> IPPROTO_UDP then wait_answer need_stop rs client_port
      else if udp_source p \<noteq> SERVER_PORT \<or> int (unat (udp_dest p)) \<noteq> client_port
      then wait_answer need_stop rs client_port
      else (Some 0, [Cl_print (''Server: '' @ udp_text p)]))"

text \<open>One message of a session: whether a stop signal came before it, and the calls' results.\<close>

record session_env =
  stopped :: bool
  addr_ok :: bool
  sent_ok :: bool
  stop_while_waiting :: bool
  received :: "recv_result list"

text \<open>Send and wait; \<open>False\<close> ends the session with an error, \<open>None\<close> is a wait (or an overflow).\<close>

definition exchange_message :: "session_env \<Rightarrow> int \<Rightarrow> string \<Rightarrow> bool option \<times> client_event list" where
  "exchange_message e port text =
     (case send_message (addr_ok e) (sent_ok e) port text of
        (None, ev) \<Rightarrow> (None, ev)
      | (Some r, ev) \<Rightarrow>
          if r \<noteq> 0 then (Some False, ev)
          else (case wait_answer (stop_while_waiting e) (received e) port of
                  (None, ev2) \<Rightarrow> (None, ev @ ev2)
                | (Some w, ev2) \<Rightarrow> (Some (w = 0), ev @ ev2)))"

text \<open>The interactive loop over what \<^verbatim>\<open>fgets\<close> returns, and the loop over arguments.\<close>

definition prompt :: client_event where "prompt = Cl_print ''Enter message: ''"

fun typed_messages :: "session_env list \<Rightarrow> int \<Rightarrow> string list \<Rightarrow> bool option \<times> client_event list" where
  "typed_messages [] port ls = (None, [])"
| "typed_messages (e # es) port ls =
     (if stopped e then (Some True, [])
      else case ls of
          [] \<Rightarrow> (Some True, [prompt])
        | l # ls1 \<Rightarrow>
            let line = cut_newline l
            in if line = [] then
                 (case typed_messages es port ls1 of (r, ev) \<Rightarrow> (r, prompt # ev))
               else if line = ''exit'' \<or> line = ''close'' then (Some True, [prompt])
               else (case exchange_message e port line of
                       (Some True, ev) \<Rightarrow>
                         (case typed_messages es port ls1 of (r, ev2) \<Rightarrow> (r, prompt # ev @ ev2))
                     | (r, ev) \<Rightarrow> (r, prompt # ev)))"

fun argument_messages :: "session_env list \<Rightarrow> int \<Rightarrow> string list \<Rightarrow> bool option \<times> client_event list" where
  "argument_messages es port [] = (Some True, [])"
| "argument_messages [] port (a # as) = (None, [])"
| "argument_messages (e # es) port (a # as) =
     (if stopped e then (Some True, [])
      else (case exchange_message e port a of
              (Some True, ev) \<Rightarrow>
                (case argument_messages es port as of
                   (r, ev2) \<Rightarrow> (r, Cl_print (''Client: '' @ a) # ev @ ev2))
            | (r, ev) \<Rightarrow> (r, Cl_print (''Client: '' @ a) # ev)))"

definition echo_client_main ::
  "int \<Rightarrow> string list \<Rightarrow> session_env list \<Rightarrow> string list \<Rightarrow> bool \<Rightarrow> bool \<Rightarrow> int option \<times> client_event list" where
  "echo_client_main sock_fd args es lines close_addr close_sent =
     (if sock_fd = -1 then (Some 1, [Cl_perror ''socket''])
      else
        let has_port = (args \<noteq> [] \<and> is_number (hd args));
            port = (if has_port then int (read_digits (hd args)) else 7776);
            texts = (if has_port then tl args else args)
        in (case (if texts = [] then typed_messages es port lines else argument_messages es port texts) of
              (None, ev) \<Rightarrow> (None, ev)
            | (Some ok, ev) \<Rightarrow>
                (Some (if ok then 0 else 1),
                 ev @ snd (send_message close_addr close_sent port ''close'') @ [Cl_close sock_fd])))"

subsection \<open>The table\<close>

type_synonym peer = "32 word \<times> 16 word"

definition peer_of :: "echo_client \<Rightarrow> peer" where
  "peer_of c = (ec_ip c, ec_port c)"

definition echo_table :: "echo_server \<Rightarrow> echo_client list" where
  "echo_table s = take (es_count s) (es_clients s)"

definition echo_ok :: "echo_server \<Rightarrow> bool" where
  "echo_ok s \<longleftrightarrow> length (es_clients s) = ECHO_MAX_CLIENTS \<and> es_count s \<le> ECHO_MAX_CLIENTS \<and>
     distinct (map peer_of (echo_table s))"

lemma echo_start_ok [simp]: "echo_ok echo_start" "echo_table echo_start = []"
  by (simp_all add: echo_ok_def echo_table_def echo_start_def)

lemma echo_okD:
  assumes "echo_ok s"
  shows "length (es_clients s) = 32" "es_count s \<le> 32" "distinct (map peer_of (echo_table s))"
    "length (echo_table s) = es_count s" "es_count s \<le> length (es_clients s)"
  using assms by (auto simp: echo_ok_def echo_table_def ECHO_MAX_CLIENTS_def)

lemma peer_test: "(\<lambda>c. ec_ip c = fst k \<and> ec_port c = snd k) = (\<lambda>c. peer_of c = k)"
  by (auto simp: peer_of_def)

lemma echo_find_eq:
  "echo_find_client s (fst k) (snd k) = index_of (scan (\<lambda>c. peer_of c = k) 0 (es_count s) (es_clients s))"
  by (simp only: echo_find_client_def peer_test)

lemma echo_find_absent:
  "echo_ok s \<Longrightarrow> echo_find_client s (fst k) (snd k) = -1 \<longleftrightarrow> k \<notin> peer_of ` set (echo_table s)"
  unfolding echo_find_eq by (auto simp: scan_None_set echo_okD echo_table_def)

lemma echo_find_present:
  assumes "echo_ok s" "echo_find_client s (fst k) (snd k) \<noteq> -1"
  obtains i where "echo_find_client s (fst k) (snd k) = int i" "i < es_count s"
    "peer_of (es_clients s ! i) = k" "echo_table s ! i = es_clients s ! i"
proof -
  from assms(2) obtain i where i: "scan (\<lambda>c. peer_of c = k) 0 (es_count s) (es_clients s) = Some i"
    unfolding echo_find_eq by auto
  with scan_SomeD [OF i] that [of i] show ?thesis unfolding echo_find_eq by (simp add: echo_table_def)
qed

definition echo_join :: "peer \<Rightarrow> unit \<Rightarrow> echo_server \<Rightarrow> echo_server" where
  "echo_join k u s = snd (echo_get_client s (fst k) (snd k))"

definition echo_close :: "peer \<Rightarrow> echo_server \<Rightarrow> echo_server" where
  "echo_close k s =
     (let index = echo_find_client s (fst k) (snd k)
      in if index \<noteq> -1 then echo_remove_client (nat index) s else s)"

text \<open>The table as what it stands for: the number of messages of each registered peer.\<close>

definition entry :: "echo_client \<Rightarrow> peer \<times> 32 word" where
  "entry c = (peer_of c, ec_count c)"

definition echo_map :: "echo_server \<Rightarrow> peer \<rightharpoonup> 32 word" where
  "echo_map s = map_of (map entry (echo_table s))"

lemma fst_entry [simp]: "fst \<circ> entry = peer_of" "fst (entry c) = peer_of c"
  by (auto simp: entry_def)

lemma echo_map_Some:
  "echo_ok s \<Longrightarrow> echo_map s k = Some n \<longleftrightarrow> (k, n) \<in> entry ` set (echo_table s)"
  using echo_okD(3) [of s] by (simp add: echo_map_def)

lemma echo_map_dom: "dom (echo_map s) = peer_of ` set (echo_table s)"
  by (simp add: echo_map_def dom_map_of_conv_image_fst image_comp)

lemma echo_map_card: "echo_ok s \<Longrightarrow> card (dom (echo_map s)) = es_count s"
  using echo_okD(3,4) [of s] by (metis distinct_card echo_map_dom length_map set_map)

lemma echo_map_eqI:
  assumes "\<And>k n. m k = Some n \<longleftrightarrow> m' k = Some n"
  shows "m = m'"
proof (rule ext)
  fix k show "m k = m' k" using assms by (metis not_Some_eq)
qed

lemma echo_remove_ok:
  assumes "echo_ok s" "i < es_count s"
  shows "echo_ok (echo_remove_client i s) \<and>
    echo_map (echo_remove_client i s) = (echo_map s)(peer_of (es_clients s ! i) := None)"
proof -
  let ?s' = "echo_remove_client i s" and ?k = "peer_of (es_clients s ! i)"
  note len = echo_okD [OF assms(1)]
  have tab: "echo_table ?s' = take (es_count s - 1) (swap_remove i (es_count s) (es_clients s))"
    by (simp add: echo_table_def echo_remove_client_def)
  have dist: "distinct (map peer_of (take (es_count s) (es_clients s)))"
    using len(3) by (simp add: echo_table_def)
  have ok: "echo_ok ?s'"
    using assms distinct_swap_remove [OF dist assms(2) len(5)] tab
    by (auto simp: echo_ok_def) (auto simp: echo_remove_client_def)
  have set: "set (echo_table ?s') \<union> {es_clients s ! i} = set (echo_table s)"
    using mset_swap_remove [OF assms(2) len(5)] tab by (simp add: echo_table_def)
  have out: "?k \<notin> peer_of ` set (echo_table ?s')"
    using set_swap_remove_distinct [OF dist assms(2) len(5)] tab by simp
  have "echo_map ?s' k = Some n \<longleftrightarrow> ((echo_map s)(?k := None)) k = Some n" for k n
  proof (cases "k = ?k")
    case True
    with out ok show ?thesis by (auto simp: echo_map_Some entry_def)
  next
    case False
    then have "(k, n) \<in> entry ` set (echo_table ?s') \<longleftrightarrow> (k, n) \<in> entry ` set (echo_table s)"
      unfolding set [symmetric] by (auto simp: entry_def)
    with False ok assms(1) show ?thesis by (simp add: echo_map_Some)
  qed
  with ok show ?thesis by (auto intro: echo_map_eqI)
qed

lemma echo_add_ok:
  assumes "echo_ok s" "es_count s < ECHO_MAX_CLIENTS" "peer_of c \<notin> peer_of ` set (echo_table s)"
    and "s' = s\<lparr>es_clients := (es_clients s)[es_count s := c], es_count := es_count s + 1\<rparr>"
  shows "echo_ok s' \<and> echo_table s' = echo_table s @ [c] \<and> echo_map s' = (echo_map s)(peer_of c \<mapsto> ec_count c)"
proof -
  have tab: "echo_table s' = echo_table s @ [c]"
    using assms(2,4) echo_okD [OF assms(1)]
    by (simp add: echo_table_def take_append_slot ECHO_MAX_CLIENTS_def)
  then have ok: "echo_ok s'" using assms by (simp add: echo_ok_def)
  have "echo_map s' k = Some n \<longleftrightarrow> ((echo_map s)(peer_of c \<mapsto> ec_count c)) k = Some n" for k n
    using assms(3) unfolding echo_map_Some [OF ok] tab
    by (auto simp: entry_def echo_map_Some [OF assms(1)])
  with ok tab show ?thesis by (auto intro: echo_map_eqI)
qed

lemma echo_update_ok:
  assumes "echo_ok s" "i < es_count s" "peer_of c = peer_of (es_clients s ! i)"
    and "s' = s\<lparr>es_clients := (es_clients s)[i := c]\<rparr>"
  shows "echo_ok s' \<and> echo_map s' = (echo_map s)(peer_of c \<mapsto> ec_count c)"
proof -
  have tab: "echo_table s' = (echo_table s)[i := c]" by (simp add: assms(4) echo_table_def take_update_swap)
  have i: "i < length (echo_table s)" "echo_table s ! i = es_clients s ! i"
    using assms(2) echo_okD [OF assms(1)] by (simp_all add: echo_table_def)
  have peers: "map peer_of (echo_table s') = map peer_of (echo_table s)"
    using assms(3) i by (simp add: tab map_update list_update_same_conv)
  then have ok: "echo_ok s'" using assms(1,4) by (simp add: echo_ok_def)
  have inj: "peer_of (echo_table s ! j) = peer_of c \<longleftrightarrow> j = i" if "j < length (echo_table s)" for j
    using nth_eq_iff_index_eq [OF echo_okD(3) [OF assms(1)], of j i] that i assms(3) by simp
  have "echo_map s' k = Some n \<longleftrightarrow> ((echo_map s)(peer_of c \<mapsto> ec_count c)) k = Some n" for k n
    unfolding fun_upd_apply echo_map_Some [OF ok] using echo_map_Some [OF assms(1), of k n] i(1) inj
    by (auto simp: tab entry_def image_iff Bex_def in_set_conv_nth nth_list_update split: if_splits)
      (metis nth_list_update_eq nth_list_update_neq)+
  with ok show ?thesis by (auto intro: echo_map_eqI)
qed

text \<open>\<^verbatim>\<open>get_client\<close>: the entry of the peer, a new one, or none in a full table.\<close>

lemma echo_get_cases:
  assumes "echo_ok s" "echo_get_client s (fst k) (snd k) = (i, s1)"
  obtains (known) j where "i = int j" "s1 = s" "j < es_count s" "peer_of (es_clients s ! j) = k"
      "echo_map s k = Some (ec_count (es_clients s ! j))"
  | (new) j where "i = int j" "echo_ok s1" "echo_map s k = None" "echo_map s1 = (echo_map s)(k \<mapsto> 0)"
      "j < es_count s1" "peer_of (es_clients s1 ! j) = k" "ec_count (es_clients s1 ! j) = 0"
      "card (dom (echo_map s)) < ECHO_MAX_CLIENTS"
  | (full) "i = -1" "s1 = s" "echo_map s k = None" "card (dom (echo_map s)) = ECHO_MAX_CLIENTS"
proof (cases "echo_find_client s (fst k) (snd k) = -1")
  case True
  then have out: "k \<notin> peer_of ` set (echo_table s)" using echo_find_absent [OF assms(1)] by simp
  then have none: "echo_map s k = None" using echo_map_dom [of s] by (metis domIff)
  show ?thesis
  proof (cases "es_count s = ECHO_MAX_CLIENTS")
    case True
    with \<open>echo_find_client s (fst k) (snd k) = -1\<close> assms none show ?thesis
      by (intro full) (auto simp: echo_get_client_def echo_map_card)
  next
    case False
    then have lt: "es_count s < ECHO_MAX_CLIENTS" using assms(1) by (auto simp: echo_ok_def)
    let ?c = "\<lparr>ec_ip = fst k, ec_port = snd k, ec_count = 0\<rparr>"
    have s1: "s1 = s\<lparr>es_clients := (es_clients s)[es_count s := ?c], es_count := es_count s + 1\<rparr>"
      "i = int (es_count s)"
      using assms(2) True False by (auto simp: echo_get_client_def)
    have k: "peer_of ?c = k" by (simp add: peer_of_def)
    with echo_add_ok [OF assms(1) lt _ s1(1)] out show ?thesis
      using echo_map_card [OF assms(1)] echo_okD [OF assms(1)] lt none
      by (intro new [of "es_count s"]) (auto simp: s1 ECHO_MAX_CLIENTS_def)
  qed
next
  case False
  from echo_find_present [OF assms(1) False] obtain j where j: "echo_find_client s (fst k) (snd k) = int j"
    "j < es_count s" "peer_of (es_clients s ! j) = k" "echo_table s ! j = es_clients s ! j" .
  have "es_clients s ! j \<in> set (echo_table s)"
    using j(2,4) echo_okD(4) [OF assms(1)] by (metis nth_mem)
  then have "echo_map s k = Some (ec_count (es_clients s ! j))"
    using j(3) by (force simp: echo_map_Some [OF assms(1)] entry_def)
  with j False assms(2) show ?thesis by (intro known [of j]) (auto simp: echo_get_client_def)
qed

lemma echo_close_ok:
  assumes "echo_ok s"
  shows "echo_ok (echo_close k s) \<and> echo_map (echo_close k s) = (echo_map s)(k := None)"
proof (cases "echo_find_client s (fst k) (snd k) = -1")
  case True
  then have "echo_map s k = None" using echo_find_absent [OF assms] echo_map_dom [of s] by (metis domIff)
  with True assms show ?thesis by (auto simp: echo_close_def)
next
  case False
  from echo_find_present [OF assms False] obtain j where "echo_find_client s (fst k) (snd k) = int j"
    "j < es_count s" "peer_of (es_clients s ! j) = k" .
  with echo_remove_ok [OF assms this(2)] show ?thesis by (simp add: echo_close_def)
qed

interpretation echo_sessions: session_table echo_start "\<lambda>s. map peer_of (echo_table s)" echo_join echo_close
  echo_ok ECHO_MAX_CLIENTS
proof (unfold_locales, goal_cases)
  case (3 t)
  then show ?case by (rule echo_okD)
next
  case (4 t)
  then show ?case using echo_okD(2,4) [OF 4] by (simp add: ECHO_MAX_CLIENTS_def)
next
  case (5 t k v)
  obtain i s1 where get: "echo_get_client t (fst k) (snd k) = (i, s1)" by fastforce
  from 5 get show ?case by (cases rule: echo_get_cases) (use 5 get in \<open>simp_all add: echo_join_def\<close>)
next
  case (6 t k)
  then show ?case using echo_close_ok by blast
next
  case (7 t k v)
  obtain i s1 where get: "echo_get_client t (fst k) (snd k) = (i, s1)" by fastforce
  have dom: "peer_of ` set (echo_table x) = dom (echo_map x)" for x by (simp add: echo_map_dom)
  from 7 get show ?case
  proof (cases rule: echo_get_cases)
    case (known j)
    then have "k \<in> dom (echo_map t)" by auto
    with known get show ?thesis by (auto simp: echo_join_def echo_map_dom)
  next
    case (new j)
    with get 7 dom [of s1] dom [of t] show ?thesis
      by (simp add: echo_join_def echo_map_card echo_okD(4))
  next
    case full
    with get 7 show ?thesis by (simp add: echo_join_def echo_map_card echo_okD(4))
  qed
next
  case (8 t k)
  then show ?case
    using echo_close_ok [OF 8, of k] echo_map_dom [of t] echo_map_dom [of "echo_close k t"] by auto
qed simp_all

subsection \<open>What the server promises\<close>

text \<open>A request: who sends it and what it says; packets for others are none.\<close>

definition request :: "byte list \<Rightarrow> (peer \<times> string) option" where
  "request p =
     (if ip_protocol p = IPPROTO_UDP \<and> udp_dest p = SERVER_PORT
      then Some ((ip_source p, udp_source p), udp_text p) else None)"

definition echo_spec :: "peer \<times> string \<Rightarrow> (peer \<rightharpoonup> 32 word) \<Rightarrow>
  (peer \<rightharpoonup> 32 word) \<times> (peer \<times> string) list" where
  "echo_spec r m =
     (let k = fst r; text = snd r
      in if text = ''close'' then (m(k := None), [])
         else if m k = None \<and> card (dom m) = ECHO_MAX_CLIENTS then (m, [])
         else let n = (case m k of None \<Rightarrow> 0 | Some n \<Rightarrow> n) + 1
              in (m(k \<mapsto> n), [(k, fit answer_size (text @ '' '' @ show_int (sint n)))]))"

fun echo_spec_run :: "(peer \<times> string) list \<Rightarrow> (peer \<rightharpoonup> 32 word) \<Rightarrow>
  (peer \<rightharpoonup> 32 word) \<times> (peer \<times> string) list" where
  "echo_spec_run [] m = (m, [])"
| "echo_spec_run (r # rs) m =
     (case echo_spec r m of (m1, out) \<Rightarrow> (case echo_spec_run rs m1 of (m2, out2) \<Rightarrow> (m2, out @ out2)))"

text \<open>What was sent: to whom, and the whole datagram.\<close>

fun sent_to :: "echo_event list \<Rightarrow> (peer \<times> byte list) list" where
  "sent_to [] = []"
| "sent_to (Sendto ip port p ok # es) = ((ip, port), p) # sent_to es"
| "sent_to (e # es) = sent_to es"

lemma sent_to_append [simp]: "sent_to (es @ fs) = sent_to es @ sent_to fs"
  by (induction es rule: sent_to.induct) auto

definition datagram :: "peer \<times> string \<Rightarrow> peer \<times> byte list" where
  "datagram a = (fst a, udp_packet SERVER_PORT (snd (fst a)) (snd a))"

definition requests :: "(byte list option \<times> bool) list \<Rightarrow> (peer \<times> string) list" where
  "requests rs = List.map_filter (\<lambda>r. Option.bind (fst r) request) rs"

lemma requests_simps [simp]:
  "requests [] = []" "requests ((None, ok) # rs) = requests rs"
  "requests ((Some p, ok) # rs) = (case request p of None \<Rightarrow> requests rs | Some r \<Rightarrow> r # requests rs)"
  by (simp_all add: requests_def map_filter_simps split: option.splits)

lemma echo_packet_refines:
  assumes "echo_ok s" "request p = Some r" "echo_packet ok p s = (s', ev)"
  shows "echo_ok s' \<and> echo_spec r (echo_map s) = (echo_map s', snd (echo_spec r (echo_map s))) \<and>
    sent_to ev = map datagram (snd (echo_spec r (echo_map s)))"
proof -
  obtain k t where r: "r = (k, t)" by fastforce
  then have here: "ip_protocol p = IPPROTO_UDP" "udp_dest p = SERVER_PORT" "udp_text p = t"
    "ip_source p = fst k" "udp_source p = snd k"
    using assms(2) by (auto simp: request_def split: if_splits)
  show ?thesis
  proof (cases "t = ''close''")
    case True
    with assms(3) here have "s' = echo_close k s" "sent_to ev = []"
      by (auto simp: echo_packet_def Let_def echo_close_def)
    with echo_close_ok [OF assms(1), of k] True r show ?thesis by (simp add: echo_spec_def Let_def)
  next
    case False
    obtain i s1 where get: "echo_get_client s (fst k) (snd k) = (i, s1)" by fastforce
    have found: "echo_ok s' \<and> echo_map s' = (echo_map s1)(k \<mapsto> ec_count (es_clients s1 ! j) + 1) \<and>
        sent_to ev = [datagram (k, fit answer_size (t @ '' '' @ show_int (sint (ec_count (es_clients s1 ! j) + 1))))]"
      if j: "i = int j" "echo_ok s1" "j < es_count s1" "peer_of (es_clients s1 ! j) = k" for j
    proof -
      let ?c = "(es_clients s1 ! j)\<lparr>ec_count := ec_count (es_clients s1 ! j) + 1\<rparr>"
      have s': "s' = s1\<lparr>es_clients := (es_clients s1)[j := ?c]\<rparr>"
        and "sent_to ev = [datagram (k, fit answer_size (t @ '' '' @ show_int (sint (ec_count ?c))))]"
        using assms(3) here False get j(1)
        by (auto simp: echo_packet_def Let_def echo_send_answer_def datagram_def)
      moreover have "peer_of ?c = k" using j(4) by (simp add: peer_of_def)
      ultimately show ?thesis using echo_update_ok [OF j(2,3) _ s'] j(4) by simp
    qed
    from assms(1) get show ?thesis
    proof (cases rule: echo_get_cases)
      case (known j)
      with found [of j] assms(1) False r show ?thesis by (simp add: echo_spec_def Let_def)
    next
      case (new j)
      with found [of j] False r show ?thesis by (simp add: echo_spec_def Let_def)
    next
      case full
      with assms(1,3) here False get have "s' = s" "ev = []" by (auto simp: echo_packet_def Let_def)
      with full assms(1) False r show ?thesis by (simp add: echo_spec_def Let_def)
    qed
  qed
qed

lemma echo_packet_other:
  "request p = None \<Longrightarrow> echo_packet ok p s = (s, [])"
  by (auto simp: request_def echo_packet_def split: if_splits)

lemma echo_loop_refines:
  "echo_ok s \<Longrightarrow> echo_loop rs s = (s', ev) \<Longrightarrow>
   echo_ok s' \<and> echo_spec_run (requests rs) (echo_map s) =
     (echo_map s', snd (echo_spec_run (requests rs) (echo_map s))) \<and>
   sent_to ev = map datagram (snd (echo_spec_run (requests rs) (echo_map s)))"
proof (induction rs s arbitrary: s' ev rule: echo_loop.induct)
  case (3 p ok rs s)
  obtain s1 ev1 where one: "echo_packet ok p s = (s1, ev1)" by fastforce
  obtain s2 ev2 where run: "echo_loop rs s1 = (s2, ev2)" by fastforce
  show ?case
  proof (cases "request p")
    case None
    with echo_packet_other [OF None] one 3 run show ?thesis by auto
  next
    case (Some r)
    note step = echo_packet_refines [OF 3(2) Some one]
    obtain out where spec: "echo_spec r (echo_map s) = (echo_map s1, out)" using step by metis
    with step have "sent_to ev1 = map datagram out" "echo_ok s1" by auto
    with 3(1) [OF one [symmetric] this(2) run] 3(3) one run spec Some show ?thesis
      by (auto split: prod.splits)
  qed
qed (auto split: prod.splits)

end
