(* ===== verification/Raw_Echo_System.thy ===== *)
theory Raw_Echo_System
  imports Raw_Echo
begin

text \<open>
  Client and server of the raw echo together.  Between them is the kernel, which puts an IP
  header in front of a datagram (\<open>kernel_header\<close>); what lies behind the datagram in the receive
  buffer is arbitrary.
\<close>

subsection \<open>Reading back a datagram\<close>

definition kernel_header :: "byte list \<Rightarrow> 32 word \<Rightarrow> bool" where
  "kernel_header h ip \<longleftrightarrow> length h = ip_header_length h \<and> 20 \<le> length h \<and>
     ip_protocol h = IPPROTO_UDP \<and> ip_source h = ip"

lemma header_fields:
  assumes "kernel_header h ip"
  shows "ip_header_length (h @ q) = length h" "ip_protocol (h @ q) = IPPROTO_UDP" "ip_source (h @ q) = ip"
proof -
  from assms have len: "20 \<le> length h" "length h = ip_header_length h" by (auto simp: kernel_header_def)
  then have nth: "(h @ q) ! i = h ! i" if "i < 20" for i using that by (simp add: nth_append)
  show "ip_header_length (h @ q) = length h" using len nth [of 0] by (simp add: ip_header_length_def)
  show "ip_protocol (h @ q) = IPPROTO_UDP"
    using assms nth [of 9] by (simp add: ip_protocol_def kernel_header_def)
  have "bytes_int (drop 12 (h @ q)) = bytes_int (drop 12 h)"
    using len by (simp add: bytes_int_def nth_append)
  then show "ip_source (h @ q) = ip" using assms by (simp add: ip_source_def kernel_header_def)
qed

lemma datagram_fields:
  assumes "kernel_header h ip" "8 + length t < 2 ^ 16"
    and p_def: "p = h @ udp_packet src dst t @ junk"
  shows "udp_source p = src" "udp_dest p = dst" "unat (udp_len p) = 8 + length t"
    "drop (ip_header_length p + 8) p = text_bytes t @ junk"
proof -
  note hl = header_fields(1) [OF assms(1)]
  show "udp_source p = src" "udp_dest p = dst"
    unfolding udp_source_def udp_dest_def
    by (rule get16_net16 [where q = "drop 2 (udp_packet src dst t @ junk)"],
        simp add: p_def hl udp_packet_def net16_def)
      (rule get16_net16 [where q = "drop 4 (udp_packet src dst t @ junk)"],
        simp add: p_def hl udp_packet_def net16_def)
  have "udp_len p = of_nat (8 + length t)"
    unfolding udp_len_def
    by (rule get16_net16 [where q = "drop 6 (udp_packet src dst t @ junk)"])
      (simp add: p_def hl udp_packet_def net16_def)
  then show "unat (udp_len p) = 8 + length t"
    using assms(2) by (simp only: unat_of_nat take_bit_eq_mod) simp
  show "drop (ip_header_length p + 8) p = text_bytes t @ junk"
    by (simp add: p_def hl udp_packet_def net16_def)
qed

lemma datagram_text:
  assumes "kernel_header h ip" "8 + length t < 2 ^ 16" "c_string t"
  shows "udp_text (h @ udp_packet src dst t @ junk) = fit ECHO_MAX_TEXT t"
proof -
  let ?p = "h @ udp_packet src dst t @ junk"
  note f = datagram_fields [OF assms(1,2) refl, of src dst junk]
  have "of_nat (unat (udp_len ?p)) - 8 = (of_nat (length t) :: 64 word)" by (simp add: f(3))
  moreover have "unat (of_nat (length t) :: 64 word) = length t"
    using assms(2) by (simp only: unat_of_nat take_bit_eq_mod) simp
  ultimately have "udp_text_length ?p = min (length t) 255"
    by (simp add: udp_text_length_def ECHO_MAX_TEXT_def Let_def)
  then have "take (udp_text_length ?p) (drop (ip_header_length ?p + 8) ?p) = text_bytes (fit ECHO_MAX_TEXT t)"
    unfolding f(4) by (simp add: fit_def ECHO_MAX_TEXT_def text_bytes_def take_map min_def)
  moreover have "until_nul (fit ECHO_MAX_TEXT t) = fit ECHO_MAX_TEXT t"
    using c_string_fit [OF assms(3)] by (auto simp: until_nul_def c_string_def takeWhile_eq_all_conv)
  ultimately show ?thesis by (simp add: udp_text_def)
qed

subsection \<open>Numbering\<close>

text \<open>The messages of a peer since its last \<^verbatim>\<open>close\<close>, in a history with the latest request first.\<close>

fun since_close :: "peer \<Rightarrow> (peer \<times> string) list \<Rightarrow> nat" where
  "since_close k [] = 0"
| "since_close k (r # h) =
     (if fst r \<noteq> k then since_close k h else if snd r = ''close'' then 0 else Suc (since_close k h))"

fun numbered :: "(peer \<times> string) list \<Rightarrow> (peer \<times> string) list \<Rightarrow> (peer \<times> string) list" where
  "numbered h [] = []"
| "numbered h (r # rs) =
     (if snd r = ''close'' then []
      else [(fst r, fit answer_size (snd r @ '' '' @ show_nat (since_close (fst r) (r # h))))]) @
     numbered (r # h) rs"

lemma since_close_le: "since_close k h \<le> length h"
  by (induction h) auto

definition counts :: "(peer \<times> string) list \<Rightarrow> (peer \<rightharpoonup> 32 word) \<Rightarrow> bool" where
  "counts h m \<longleftrightarrow> (\<forall>k. m k = (if since_close k h = 0 then None else Some (of_nat (since_close k h))))"

lemma since_close_seen: "since_close k h \<noteq> 0 \<Longrightarrow> k \<in> fst ` set h"
  by (induction h) (auto split: if_splits)

lemma spec_step_numbered:
  assumes "counts h m" "card (insert (fst r) (fst ` set h)) \<le> ECHO_MAX_CLIENTS" "length h < 2 ^ 31 - 1"
    "echo_spec r m = (m', out)"
  shows "counts (r # h) m' \<and> numbered h [r] = out"
proof -
  obtain k t where r: "r = (k, t)" by fastforce
  have dom: "dom m \<subseteq> fst ` set h" 
  proof
    fix k' assume "k' \<in> dom m"
    moreover have "m k' = (if since_close k' h = 0 then None else Some (of_nat (since_close k' h)))"
      using assms(1) unfolding counts_def by blast
    ultimately have "since_close k' h \<noteq> 0" by (auto split: if_splits)
    then show "k' \<in> fst ` set h" by (rule since_close_seen)
  qed
  show ?thesis
  proof (cases "t = ''close''")
    case True
    with assms(1,4) r show ?thesis by (auto simp: echo_spec_def Let_def counts_def)
  next
    case False
    have "\<not> (m k = None \<and> card (dom m) = ECHO_MAX_CLIENTS)"
    proof
      assume full: "m k = None \<and> card (dom m) = ECHO_MAX_CLIENTS"
      then have fin: "finite (dom m)" by (auto simp: ECHO_MAX_CLIENTS_def intro: card_ge_0_finite)
      have "insert k (dom m) \<subseteq> insert k (fst ` set h)" using dom by auto
      then have "card (insert k (dom m)) \<le> card (insert k (fst ` set h))" by (rule card_mono [rotated]) simp
      with full fin assms(2) r show False by (auto simp: domIff)
    qed
    then have spec: "m' = m(k \<mapsto> (case m k of None \<Rightarrow> 0 | Some n \<Rightarrow> n) + 1)"
      "out = [(k, fit answer_size (t @ '' '' @ show_int (sint ((case m k of None \<Rightarrow> 0 | Some n \<Rightarrow> n) + 1))))]"
      using assms(4) r False by (auto simp: echo_spec_def Let_def)
    have "m k = (if since_close k h = 0 then None else Some (of_nat (since_close k h)))"
      using assms(1) unfolding counts_def by blast
    then have n: "(case m k of None \<Rightarrow> 0 | Some n \<Rightarrow> n) + 1 = of_nat (Suc (since_close k h))"
      by simp
    have "sint (of_nat (Suc (since_close k h)) :: 32 word) = int (Suc (since_close k h))"
      using since_close_le [of k h] assms(3) by (intro sint_small) simp
    then have "show_int (sint (of_nat (Suc (since_close k h)) :: 32 word)) = show_nat (Suc (since_close k h))"
      by (simp only: show_int_def nat_int of_nat_less_0_iff if_False)
    with spec n r False assms(1) show ?thesis by (auto simp: counts_def)
  qed
qed

lemma spec_run_numbered:
  "counts h m \<Longrightarrow> card (fst ` set (h @ rs)) \<le> ECHO_MAX_CLIENTS \<Longrightarrow> length h + length rs < 2 ^ 31 \<Longrightarrow>
   snd (echo_spec_run rs m) = numbered h rs"
proof (induction rs arbitrary: h m)
  case (Cons r rs)
  obtain m1 out where one: "echo_spec r m = (m1, out)" by fastforce
  obtain m2 out2 where run: "echo_spec_run rs m1 = (m2, out2)" by fastforce
  have "card (insert (fst r) (fst ` set h)) \<le> card (fst ` set (h @ r # rs))"
    by (rule card_mono) auto
  with spec_step_numbered [OF Cons.prems(1) _ _ one] Cons.prems(2,3) have
    step: "counts (r # h) m1" "numbered h [r] = out" by auto
  have "set ((r # h) @ rs) = set (h @ r # rs)" by auto
  with Cons.IH [OF step(1)] Cons.prems(2,3) run have "out2 = numbered (r # h) rs" by simp
  with step(2) one run show ?case by auto
qed simp

subsection \<open>Properties of the raw echo\<close>

text \<open>
  Property C10.  Whatever packets arrive, the server's table stands for the map from registered
  peers to their message counts of the abstract echo: a \<^verbatim>\<open>close\<close> takes its sender out (the last
  entry moving into the gap loses no one), a text is answered with the next number of its sender,
  a 33rd peer is ignored; and exactly the abstract answers are sent, each as one datagram to its
  sender.
\<close>

theorem echo_server_refines:
  "case echo_loop rs echo_start of (s, ev) \<Rightarrow>
     echo_spec_run (requests rs) Map.empty =
       (echo_map s, snd (echo_spec_run (requests rs) Map.empty)) \<and>
     sent_to ev = map datagram (snd (echo_spec_run (requests rs) Map.empty))"
proof -
  obtain s ev where run: "echo_loop rs echo_start = (s, ev)" by fastforce
  have "echo_map echo_start = Map.empty" by (simp add: echo_map_def)
  with echo_loop_refines [OF echo_start_ok(1) run] run show ?thesis by simp
qed

text \<open>
  While at most 32 peers send anything, every text is answered with the number of
  texts its sender has sent since that sender's last \<^verbatim>\<open>close\<close>, this one included, however the
  peers' packets are mixed.
\<close>

theorem echo_numbers_messages:
  assumes "card (fst ` set (requests rs)) \<le> ECHO_MAX_CLIENTS" "length (requests rs) < 2 ^ 31"
    and "echo_loop rs echo_start = (s, ev)"
  shows "sent_to ev = map datagram (numbered [] (requests rs))"
proof -
  have "echo_map echo_start = Map.empty" by (simp add: echo_map_def)
  moreover have "counts [] Map.empty" by (simp add: counts_def)
  ultimately show ?thesis
    using echo_loop_refines [OF echo_start_ok(1) assms(3)]
      spec_run_numbered [of "[]" Map.empty "requests rs"] assms(1,2) by simp
qed

definition demo_ip_header :: "byte list" where
  "demo_ip_header = [0x45] @ replicate 8 0 @ [17, 0, 0, 127, 0, 0, 1, 127, 0, 0, 1]"

definition demo_request :: "16 word \<Rightarrow> string \<Rightarrow> byte list option \<times> bool" where
  "demo_request port t = (Some (demo_ip_header @ udp_packet port SERVER_PORT t @ replicate 9 1), True)"

definition demo_echo :: "echo_server \<times> echo_event list" where
  "demo_echo = echo_loop [demo_request 5 ''a'', demo_request 6 ''b'', demo_request 5 ''c'',
     demo_request 5 ''close'', demo_request 5 ''d''] echo_start"

lemma echo_numbers_messages_witness:
  "map snd (sent_to (snd demo_echo)) =
     map (\<lambda>(p, t). udp_packet SERVER_PORT p t) [(5, ''a 1''), (6, ''b 1''), (5, ''c 2''), (5, ''d 1'')]"
proof -
  let ?rs = "[demo_request 5 ''a'', demo_request 6 ''b'', demo_request 5 ''c'',
     demo_request 5 ''close'', demo_request 5 ''d'']"
  let ?ip = "0x0100007F"
  have "requests ?rs = [((?ip, 5), ''a''), ((?ip, 6), ''b''), ((?ip, 5), ''c''), ((?ip, 5), ''close''), ((?ip, 5), ''d'')]"
    by code_simp
  note rs = this
  have few: "card (fst ` set (requests ?rs)) \<le> ECHO_MAX_CLIENTS" "length (requests ?rs) < 2 ^ 31"
    unfolding rs by (simp_all add: ECHO_MAX_CLIENTS_def card_insert_if)
  have run: "echo_loop ?rs echo_start = (fst demo_echo, snd demo_echo)"
    by (simp only: demo_echo_def prod.collapse)
  have "numbered [] (requests ?rs) = [((?ip, 5), ''a 1''), ((?ip, 6), ''b 1''), ((?ip, 5), ''c 2''), ((?ip, 5), ''d 1'')]"
    unfolding rs by code_simp
  with echo_numbers_messages [OF few run] show ?thesis by (simp add: datagram_def)
qed

text \<open>
  Property C11.  From the client to the server and back: a text of at most 255 characters other
  than \<^verbatim>\<open>close\<close>, sent from a port that fits 16 bits to a server where this peer is registered
  with \<open>n\<close> messages, makes the client print exactly the text and the number \<open>n + 1\<close>, cut to 255
  characters, wherever the IP headers put the datagrams.
\<close>

theorem echo_round_trip:
  assumes "c_string t" "length t < ECHO_MAX_TEXT" "t \<noteq> ''close''" "0 \<le> port" "port < 2 ^ 16"
    and "send_message True True port t = (Some 0, [Cl_sent d True])"
    and "kernel_header h1 ip" "kernel_header h2 ip2"
    and "echo_ok s" "echo_map s (ip, word_of_int port) = Some n"
    and "echo_packet True (h1 @ d @ junk1) s = (s', ev)" "sent_to ev = [(k, a)]"
  shows "wait_answer stop [Packet (h2 @ a @ junk2)] port =
      (Some 0, [Cl_print (''Server: '' @ fit ECHO_MAX_TEXT (t @ '' '' @ show_int (sint (n + 1))))]) \<and>
    echo_map s' (ip, word_of_int port) = Some (n + 1)"
proof -
  let ?k = "(ip, word_of_int port :: 16 word)" and ?ans = "fit answer_size (t @ '' '' @ show_int (sint (n + 1)))"
  have d: "d = udp_packet (word_of_int port) SERVER_PORT t"
    using assms(2,6) by (simp add: send_message_def ECHO_MAX_TEXT_def)
  have len: "8 + length t < 2 ^ 16" using assms(2) by (simp add: ECHO_MAX_TEXT_def)
  have fitt: "fit ECHO_MAX_TEXT t = t" using assms(2) by simp
  have req: "request (h1 @ d @ junk1) = Some (?k, t)"
    using datagram_fields(1,2) [OF assms(7) len refl, of "word_of_int port" SERVER_PORT junk1]
      datagram_text [OF assms(7) len assms(1), of "word_of_int port" SERVER_PORT junk1]
      header_fields [OF assms(7), of "d @ junk1"] fitt
    by (simp add: request_def d)
  from echo_packet_refines [OF assms(9) req assms(11)] assms(3,10,12) have
    map: "echo_map s' = (echo_map s)(?k \<mapsto> n + 1)" and a: "(k, a) = datagram (?k, ?ans)"
    by (auto simp: echo_spec_def Let_def)
  have alen: "length ?ans \<le> 287" using length_fit [of answer_size "t @ '' '' @ show_int (sint (n + 1))"]
    by (simp add: answer_size_def ECHO_MAX_TEXT_def)
  then have alen': "8 + length ?ans < 2 ^ 16" by simp
  have astr: "c_string ?ans"
    using assms(1) show_int_no_nul by (intro c_string_fit) (auto simp: c_string_def)
  have a': "a = udp_packet SERVER_PORT (word_of_int port) ?ans" using a by (simp add: datagram_def)
  note ret = datagram_fields(1,2) [OF assms(8) alen' refl, of SERVER_PORT "word_of_int port" junk2]
    datagram_text [OF assms(8) alen' astr, of SERVER_PORT "word_of_int port" junk2]
    header_fields [OF assms(8), of "a @ junk2"]
  have "int (unat (word_of_int port :: 16 word)) = port"
    using assms(4,5) by (simp add: unat_eq_nat_uint uint_word_of_int)
  moreover have "fit ECHO_MAX_TEXT ?ans = fit ECHO_MAX_TEXT (t @ '' '' @ show_int (sint (n + 1)))"
    by (rule fit_smaller) (simp add: answer_size_def)
  ultimately show ?thesis using ret map by (simp add: a')
qed

definition demo_known :: echo_server where
  "demo_known = echo_start\<lparr>es_clients := \<lparr>ec_ip = 0x0100007F, ec_port = 7776, ec_count = 1\<rparr> #
     replicate 31 \<lparr>ec_ip = 0, ec_port = 0, ec_count = 0\<rparr>, es_count := 1\<rparr>"

definition demo_datagram :: "byte list" where
  "demo_datagram = udp_packet (word_of_int 7776) SERVER_PORT ''two''"

definition demo_reply :: "echo_server \<times> echo_event list" where
  "demo_reply = echo_packet True (demo_ip_header @ demo_datagram @ []) demo_known"

lemma echo_round_trip_witness:
  "wait_answer False [Packet (demo_ip_header @ snd (hd (sent_to (snd demo_reply))) @ [9])] 7776 =
     (Some 0, [Cl_print ''Server: two 2''])"
proof -
  have t: "c_string ''two''" "length ''two'' < ECHO_MAX_TEXT" "''two'' \<noteq> ''close''"
    and port: "(0::int) \<le> 7776" "(7776::int) < 2 ^ 16"
    by (simp_all add: c_string_def ECHO_MAX_TEXT_def)
  have send: "send_message True True 7776 ''two'' = (Some 0, [Cl_sent demo_datagram True])"
    by (simp add: send_message_def ECHO_MAX_TEXT_def demo_datagram_def)
  have header: "kernel_header demo_ip_header 0x0100007F" by code_simp
  have ok: "echo_ok demo_known" "echo_map demo_known (0x0100007F, word_of_int 7776) = Some 1"
    by (simp_all add: demo_known_def echo_ok_def echo_table_def echo_map_def entry_def peer_of_def
      ECHO_MAX_CLIENTS_def)
  have pass: "echo_packet True (demo_ip_header @ demo_datagram @ []) demo_known = (fst demo_reply, snd demo_reply)"
    by (simp only: demo_reply_def prod.collapse)
  have "request (demo_ip_header @ demo_datagram @ []) = Some ((0x0100007F, word_of_int 7776), ''two'')"
    by code_simp
  from echo_packet_refines [OF ok(1) this pass] have "length (sent_to (snd demo_reply)) = 1"
    using ok(2) by (simp add: echo_spec_def Let_def)
  then have sent: "sent_to (snd demo_reply) =
      [(fst (hd (sent_to (snd demo_reply))), snd (hd (sent_to (snd demo_reply))))]"
    by (cases "sent_to (snd demo_reply)") auto
  have "''Server: '' @ fit ECHO_MAX_TEXT (''two'' @ '' '' @ show_int (sint (1 + 1 :: 32 word))) = ''Server: two 2''"
    by code_simp
  with echo_round_trip [OF t port send header header ok pass sent] show ?thesis by simp
qed

lemma short_length_wraps:
  assumes "unat (udp_len p) < 8"
  shows "udp_text_length p = 255"
proof -
  have small: "0 \<le> int (unat (udp_len p))" "int (unat (udp_len p)) < 8" using assms by linarith+
  have "of_nat (unat (udp_len p)) - 8 = (word_of_int (int (unat (udp_len p)) - 8 + 2 ^ 64) :: 64 word)"
    by (simp add: word_of_int_eq_iff)
  also have "uint \<dots> = int (unat (udp_len p)) - 8 + 2 ^ 64"
    using small by (simp only: uint_word_of_int) (rule mod_pos_pos_trivial, simp_all)
  finally have "256 \<le> uint (of_nat (unat (udp_len p)) - 8 :: 64 word)" using small by simp
  then have "256 \<le> unat (of_nat (unat (udp_len p)) - 8 :: 64 word)"
    by (metis nat_mono nat_numeral unat_eq_nat_uint)
  then show ?thesis by (simp add: udp_text_length_def ECHO_MAX_TEXT_def Let_def)
qed

lemma header_size: "kernel_header h ip \<Longrightarrow> length h \<le> 60"
  by (simp add: kernel_header_def ip_header_length_def)

lemma until_nul_prefix: "c_string s \<Longrightarrow> until_nul (s @ b) = s @ until_nul b"
  unfolding until_nul_def c_string_def by (rule takeWhile_append2) auto

text \<open>
  Property C12.  A peer whose datagram carries a length field below the 8 bytes of the UDP header
  (and a body without a zero byte, shorter than 255) reads the server's receive buffer: the
  subtraction in \<^verbatim>\<open>size_t\<close> wraps, so the server takes 255 bytes behind the header for the text.  When
  the peer is registered or the table has room, and the text so formed is not \<^verbatim>\<open>close\<close>, the one
  datagram that is sent goes to the peer and consists of the body it sent, the bytes up to the next
  zero that were in the array before this datagram arrived (up to 255 in all), and its number.
\<close>

theorem echo_short_length_reads_stale_bytes:
  assumes "kernel_header h ip" "unat len < 8" "c_string (bytes_text body)" "length body < 255"
    and "d = h @ net16 src @ net16 SERVER_PORT @ net16 len @ net16 0 @ body"
    and "length packet = 512"
    and "stale = until_nul (bytes_text (take (255 - length body) (drop (length d) packet)))"
    and "bytes_text body @ stale \<noteq> ''close''"
    and "echo_ok s" "echo_map s (ip, src) \<noteq> None \<or> es_count s < ECHO_MAX_CLIENTS"
    and "echo_packet True (echo_receive packet d) s = (s', ev)"
  shows "sent_to ev = [((ip, src), udp_packet SERVER_PORT src (bytes_text body @ stale @ '' '' @
    show_int (sint ((case echo_map s (ip, src) of None \<Rightarrow> 0 | Some n \<Rightarrow> n) + 1))))]"
proof -
  let ?p = "echo_receive packet d" and ?t = "bytes_text body @ stale"
  let ?n = "(case echo_map s (ip, src) of None \<Rightarrow> 0 | Some n \<Rightarrow> n) + 1 :: 32 word"
  note hl = header_fields [OF assms(1)]
  have lend: "length d = length h + 8 + length body" by (simp add: assms(5) net16_def)
  with header_size [OF assms(1)] assms(4) have d512: "length d \<le> 512 - 130" by simp
  then have p: "?p = h @ net16 src @ net16 SERVER_PORT @ net16 len @ net16 0 @ body @ drop (length d) packet"
    by (simp add: echo_receive_def assms(5))
  have src: "udp_source ?p = src"
    unfolding udp_source_def
    by (rule get16_net16 [where q = "drop (length h + 2) ?p"]) (simp add: p hl net16_def)
  have dst: "udp_dest ?p = SERVER_PORT"
    unfolding udp_dest_def
    by (rule get16_net16 [where q = "drop (length h + 4) ?p"]) (simp add: p hl net16_def)
  have len: "udp_len ?p = len"
    unfolding udp_len_def
    by (rule get16_net16 [where q = "drop (length h + 6) ?p"]) (simp add: p hl net16_def)
  have "drop (ip_header_length ?p + 8) ?p = body @ drop (length d) packet" by (simp add: p hl net16_def)
  then have "udp_text ?p = until_nul (bytes_text (body @ take (255 - length body) (drop (length d) packet)))"
    using short_length_wraps [of ?p] assms(2,4) by (simp add: udp_text_def len)
  also have "\<dots> = ?t" using until_nul_prefix [OF assms(3)] by (simp add: assms(7) bytes_text_def)
  finally have req: "request ?p = Some ((ip, src), ?t)" using src dst by (simp add: request_def p hl)
  have room: "\<not> (echo_map s (ip, src) = None \<and> card (dom (echo_map s)) = ECHO_MAX_CLIENTS)"
    using assms(10) echo_map_card [OF assms(9)] by auto
  have "length stale \<le> 255 - length body"
    unfolding assms(7) until_nul_def by (rule order_trans [OF length_takeWhile_le]) simp
  moreover have "\<bar>sint ?n\<bar> < 10 ^ 10" using sint_lt [of ?n] sint_ge [of ?n] by (simp add: abs_if)
  then have "length (show_int (sint ?n)) \<le> 11" by (rule length_show_int)
  ultimately have "fit answer_size (?t @ '' '' @ show_int (sint ?n)) = ?t @ '' '' @ show_int (sint ?n)"
    using assms(4) by (intro fit_short) (simp add: answer_size_def ECHO_MAX_TEXT_def)
  then show ?thesis
    using echo_packet_refines [OF assms(9) req assms(11)] assms(8) room
    by (auto simp: echo_spec_def Let_def datagram_def split: option.splits)
qed

text \<open>One client says \<^verbatim>\<open>my secret\<close>; another then sends an empty datagram with length 4.\<close>

definition demo_buffer :: "byte list" where
  "demo_buffer = echo_receive (replicate 512 0) (demo_ip_header @ udp_packet 5 SERVER_PORT ''my secret'')"

definition demo_spy :: "byte list" where
  "demo_spy = demo_ip_header @ net16 6 @ net16 SERVER_PORT @ net16 4 @ net16 0 @ []"

definition demo_leak :: "echo_server \<times> echo_event list" where
  "demo_leak = echo_packet True (echo_receive demo_buffer demo_spy) (fst (echo_packet True demo_buffer echo_start))"

lemma echo_short_length_reads_stale_bytes_witness:
  "sent_to (snd demo_leak) = [((0x0100007F, 6), udp_packet SERVER_PORT 6 ''my secret 1'')]"
proof -
  let ?s = "fst (echo_packet True demo_buffer echo_start)"
  have header: "kernel_header demo_ip_header 0x0100007F" by code_simp
  have t: "unat (4 :: 16 word) < 8" "c_string (bytes_text [])" "length ([] :: byte list) < 255"
    "length demo_buffer = 512" by code_simp+
  have stale: "''my secret'' = until_nul (bytes_text (take (255 - length ([] :: byte list)) (drop (length demo_spy) demo_buffer)))"
    by code_simp
  have ok: "echo_ok ?s" "es_count ?s < ECHO_MAX_CLIENTS" "echo_map ?s (0x0100007F, 6) = None" by code_simp+
  have run: "echo_packet True (echo_receive demo_buffer demo_spy) ?s = (fst demo_leak, snd demo_leak)"
    by (simp only: demo_leak_def prod.collapse)
  have one: "show_int (sint (0 + 1 :: 32 word)) = ''1''" by code_simp
  show ?thesis
    using echo_short_length_reads_stale_bytes [OF header t(1-3) demo_spy_def t(4) stale _ ok(1) _ run] ok(2,3) one
    by (simp add: bytes_text_def)
qed

text \<open>A client port that does not fit 16 bits: no packet is ever taken for an answer.\<close>

lemma echo_client_wide_port:
  "65536 \<le> port \<Longrightarrow> fst (wait_answer stop (map Packet ps) port) = None"
proof (induction ps)
  case (Cons p ps)
  have "int (unat (udp_dest p)) < 65536" using unsigned_less [of "udp_dest p"] by simp
  with Cons show ?case by auto
qed simp

end
