(* ===== verification/Sockets.thy ===== *)
theory Sockets
  imports C_Text "HOL-Library.State_Monad" "HOL-Library.Monad_Syntax" "HOL-Library.Multiset"
begin

text \<open>
  Straight-line system call code.  The small network and IPC programs of the course call one
  function after another and leave with \<^verbatim>\<open>perror\<close>, some \<^verbatim>\<open>close\<close> calls and a code as soon as
  one fails.  Such code is a computation over the state \<open>sys\<close>: the results the calls will have
  and the texts that will be read, and what was acquired, released, reported, sent, printed and
  unlinked so far.  \<open>open_fd\<close> is a call that returns a
  descriptor, \<open>step\<close> one that only succeeds or fails; both carry what the failure path closes and
  returns.  Of the names in the file system and of the queues and segments the state keeps those
  this program has made and not removed, and of the unnamed POSIX semaphores those it has initialised
  and not destroyed.  \<open>owns H m R\<close> says that \<open>m\<close>, started while holding the descriptors \<open>H\<close>, ends holding
  \<open>R r\<close> when it returns \<open>r\<close>, whatever the calls return; \<open>clean N m\<close> that it leaves no names but those
  in \<open>N\<close> and no semaphores, when started so.
\<close>

record sys =
  results :: "int list"
  acquired :: "int list"
  released :: "int list"
  reported :: "string list"
  inbox :: "string list"
  outbox :: "string list"
  printed :: "string list"
  removed :: "string list"
  made_names :: "string list"
  live_sems :: "string list"

type_synonym 'a sysm = "(sys, 'a) state"

text \<open>The result of the next call; a list that is used up stands for calls that fail.\<close>

definition next_result :: "int sysm" where
  "next_result = State (\<lambda>s. case results s of
     [] \<Rightarrow> (-1, s) | r # rs \<Rightarrow> (r, s\<lparr>results := rs\<rparr>))"

definition acquire :: "int \<Rightarrow> unit sysm" where
  "acquire fd = State (\<lambda>s. ((), s\<lparr>acquired := acquired s @ [fd]\<rparr>))"

definition release :: "int list \<Rightarrow> unit sysm" where
  "release fds = State (\<lambda>s. ((), s\<lparr>released := released s @ fds\<rparr>))"

definition report :: "string \<Rightarrow> unit sysm" where
  "report t = State (\<lambda>s. ((), s\<lparr>reported := reported s @ [t]\<rparr>))"

definition say :: "string \<Rightarrow> unit sysm" where
  "say t = State (\<lambda>s. ((), s\<lparr>printed := printed s @ [t]\<rparr>))"

definition post :: "string \<Rightarrow> unit sysm" where
  "post t = State (\<lambda>s. ((), s\<lparr>outbox := outbox s @ [t]\<rparr>))"

definition remove_name :: "string \<Rightarrow> unit sysm" where
  "remove_name n = State (\<lambda>s. ((), s\<lparr>removed := removed s @ [n],
     made_names := filter (\<lambda>x. x \<noteq> n) (made_names s)\<rparr>))"

definition make_name :: "string \<Rightarrow> unit sysm" where
  "make_name n = State (\<lambda>s. ((), s\<lparr>made_names := n # filter (\<lambda>x. x \<noteq> n) (made_names s)\<rparr>))"

definition init_sem :: "string \<Rightarrow> unit sysm" where
  "init_sem n = State (\<lambda>s. ((), s\<lparr>live_sems := n # live_sems s\<rparr>))"

definition destroy_sem :: "string \<Rightarrow> unit sysm" where
  "destroy_sem n = State (\<lambda>s. ((), s\<lparr>live_sems := remove1 n (live_sems s)\<rparr>))"

definition next_text :: "string sysm" where
  "next_text = State (\<lambda>s. case inbox s of [] \<Rightarrow> ([], s) | t # ts \<Rightarrow> (t, s\<lparr>inbox := ts\<rparr>))"

definition fail :: "string \<Rightarrow> int list \<Rightarrow> 'a \<Rightarrow> 'a sysm" where
  "fail name fds code = do { report name; release fds; State_Monad.return code }"

definition open_fd :: "string \<Rightarrow> int list \<Rightarrow> 'a \<Rightarrow> (int \<Rightarrow> 'a sysm) \<Rightarrow> 'a sysm" where
  "open_fd name fds code k =
     do { fd \<leftarrow> next_result;
          if fd = -1 then fail name fds code else do { acquire fd; k fd } }"

definition step :: "string \<Rightarrow> (int \<Rightarrow> bool) \<Rightarrow> int list \<Rightarrow> 'a \<Rightarrow> 'a sysm \<Rightarrow> 'a sysm" where
  "step name ok fds code m =
     do { r \<leftarrow> next_result; if ok r then m else fail name fds code }"

definition finish :: "int list \<Rightarrow> 'a \<Rightarrow> 'a sysm" where
  "finish fds code = do { release fds; State_Monad.return code }"

text \<open>A call that sends \<open>t\<close>, and one that receives up to \<open>n\<close> bytes into a buffer that is then
  terminated; the text is read up to its first NUL.\<close>

definition send_step :: "string \<Rightarrow> string \<Rightarrow> int list \<Rightarrow> 'a \<Rightarrow> 'a sysm \<Rightarrow> 'a sysm" where
  "send_step name t fds code m =
     do { r \<leftarrow> next_result; if r \<noteq> -1 then do { post t; m } else fail name fds code }"

definition recv_step :: "string \<Rightarrow> nat \<Rightarrow> int list \<Rightarrow> 'a \<Rightarrow> (string \<Rightarrow> 'a sysm) \<Rightarrow> 'a sysm" where
  "recv_step name n fds code k =
     do { r \<leftarrow> next_result;
          if r \<noteq> -1 then do { t \<leftarrow> next_text; k (until_nul (take n t)) } else fail name fds code }"

text \<open>Every path of \<open>m\<close> ends by unlinking \<open>n\<close>.\<close>

definition then_remove :: "string \<Rightarrow> 'a sysm \<Rightarrow> 'a sysm" where
  "then_remove n m = do { r \<leftarrow> m; remove_name n; State_Monad.return r }"

text \<open>The two tests the code makes: \<^verbatim>\<open>== -1\<close> fails, or anything but 1 fails (\<^verbatim>\<open>inet_pton\<close>).\<close>

definition worked :: "int \<Rightarrow> bool" where "worked r \<longleftrightarrow> r \<noteq> -1"
definition is_one :: "int \<Rightarrow> bool" where "is_one r \<longleftrightarrow> r = 1"

lemma run_next_result:
  "run_state next_result s = (case results s of [] \<Rightarrow> (-1, s) | r # rs \<Rightarrow> (r, s\<lparr>results := rs\<rparr>))"
  by (simp add: next_result_def)

lemma run_fail [simp]:
  "run_state (fail name fds code) s =
     (code, s\<lparr>reported := reported s @ [name], released := released s @ fds\<rparr>)"
  by (simp add: fail_def report_def release_def State_Monad.run_state_bind State_Monad.return_def)

lemma run_finish [simp]:
  "run_state (finish fds code) s = (code, s\<lparr>released := released s @ fds\<rparr>)"
  by (simp add: finish_def release_def State_Monad.run_state_bind State_Monad.return_def)

lemma run_step:
  "run_state (step name ok fds code m) s =
     (case run_state next_result s of
        (r, s1) \<Rightarrow> if ok r then run_state m s1 else run_state (fail name fds code) s1)"
  by (simp add: step_def State_Monad.run_state_bind split: prod.split)

lemma run_open_fd:
  "run_state (open_fd name fds code k) s =
     (case run_state next_result s of
        (fd, s1) \<Rightarrow>
          if fd = -1 then run_state (fail name fds code) s1
          else run_state (k fd) (s1\<lparr>acquired := acquired s1 @ [fd]\<rparr>))"
  by (simp add: open_fd_def acquire_def State_Monad.run_state_bind split: prod.split)

lemma run_send_step:
  "run_state (send_step name t fds code m) s =
     (case run_state next_result s of
        (r, s1) \<Rightarrow> if r \<noteq> -1 then run_state m (s1\<lparr>outbox := outbox s1 @ [t]\<rparr>) else run_state (fail name fds code) s1)"
  by (simp add: send_step_def post_def State_Monad.run_state_bind split: prod.split)

lemma run_recv_step:
  "run_state (recv_step name n fds code k) s =
     (case run_state next_result s of
        (r, s1) \<Rightarrow> if r \<noteq> -1 then (case run_state next_text s1 of (t, s2) \<Rightarrow> run_state (k (until_nul (take n t))) s2)
                   else run_state (fail name fds code) s1)"
  by (simp add: recv_step_def State_Monad.run_state_bind split: prod.split)

lemma run_say: "run_state (say t) s = ((), s\<lparr>printed := printed s @ [t]\<rparr>)"
  by (simp add: say_def)

lemma run_names:
  "run_state (remove_name n) s =
     ((), s\<lparr>removed := removed s @ [n], made_names := filter (\<lambda>x. x \<noteq> n) (made_names s)\<rparr>)"
  "run_state (make_name n) s = ((), s\<lparr>made_names := n # filter (\<lambda>x. x \<noteq> n) (made_names s)\<rparr>)"
  "run_state (init_sem n) s = ((), s\<lparr>live_sems := n # live_sems s\<rparr>)"
  "run_state (destroy_sem n) s = ((), s\<lparr>live_sems := remove1 n (live_sems s)\<rparr>)"
  by (simp_all add: remove_name_def make_name_def init_sem_def destroy_sem_def)

lemmas run_steps = run_open_fd run_step run_send_step run_recv_step run_say run_next_result run_names

subsection \<open>Holding descriptors\<close>

definition owns :: "int list \<Rightarrow> 'a sysm \<Rightarrow> ('a \<Rightarrow> int list) \<Rightarrow> bool" where
  "owns H m R \<longleftrightarrow> (\<forall>s r s'. run_state m s = (r, s') \<longrightarrow>
     mset (acquired s') + mset (released s) + mset H = mset (acquired s) + mset (released s') + mset (R r))"

lemma ownsD:
  "owns H m R \<Longrightarrow> run_state m s = (r, s') \<Longrightarrow>
   mset (acquired s') + mset (released s) + mset H = mset (acquired s) + mset (released s') + mset (R r)"
  by (simp add: owns_def)

lemma next_result_frame:
  "run_state next_result s = (r, s1) \<Longrightarrow> acquired s1 = acquired s \<and> released s1 = released s"
  by (auto simp: run_next_result split: list.splits)

named_theorems owns_intros

lemma owns_fail [owns_intros]:
  "mset H = mset fds + mset (R code) \<Longrightarrow> owns H (fail name fds code) R"
  by (simp add: owns_def)

lemma owns_finish [owns_intros]:
  "mset H = mset fds + mset (R code) \<Longrightarrow> owns H (finish fds code) R"
  by (simp add: owns_def)

lemma owns_step [owns_intros]:
  assumes "mset H = mset fds + mset (R code)" "owns H m R"
  shows "owns H (step name ok fds code m) R"
  unfolding owns_def
proof (intro allI impI)
  fix s r s' assume run: "run_state (step name ok fds code m) s = (r, s')"
  obtain x s1 where x: "run_state next_result s = (x, s1)" by fastforce
  show "mset (acquired s') + mset (released s) + mset H = mset (acquired s) + mset (released s') + mset (R r)"
  proof (cases "ok x")
    case True
    with x run have "run_state m s1 = (r, s')" by (simp add: run_step)
    from ownsD [OF assms(2) this] next_result_frame [OF x] show ?thesis by simp
  next
    case False
    with next_result_frame [OF x] x run assms(1) show ?thesis by (auto simp: run_step)
  qed
qed

lemma owns_open_fd [owns_intros]:
  assumes "mset H = mset fds + mset (R code)" "\<And>fd. fd \<noteq> -1 \<Longrightarrow> owns (fd # H) (k fd) R"
  shows "owns H (open_fd name fds code k) R"
  unfolding owns_def
proof (intro allI impI)
  fix s r s' assume run: "run_state (open_fd name fds code k) s = (r, s')"
  obtain x s1 where x: "run_state next_result s = (x, s1)" by fastforce
  show "mset (acquired s') + mset (released s) + mset H = mset (acquired s) + mset (released s') + mset (R r)"
  proof (cases "x = -1")
    case True
    with next_result_frame [OF x] x run assms(1) show ?thesis by (auto simp: run_open_fd)
  next
    case False
    let ?s2 = "s1\<lparr>acquired := acquired s1 @ [x]\<rparr>"
    have "run_state (k x) ?s2 = (r, s')" using False x run by (simp add: run_open_fd)
    from ownsD [OF assms(2) [OF False] this] next_result_frame [OF x] show ?thesis by simp
  qed
qed

lemma balance_trans:
  fixes a a1 a2 :: nat
  shows "a2 + r1 + q = a1 + r2 + x \<Longrightarrow> a1 + r + h = a + r1 + q \<Longrightarrow> a2 + r + h = a + r2 + x"
  by arith

lemma owns_bind:
  assumes "owns H m Q" "\<And>x. owns (Q x) (k x) R"
  shows "owns H (Monad_Syntax.bind m k) R"
  unfolding owns_def
proof (intro allI impI)
  fix s r s' assume run: "run_state (Monad_Syntax.bind m k) s = (r, s')"
  obtain x s1 where x: "run_state m s = (x, s1)" by fastforce
  with run have "run_state (k x) s1 = (r, s')" by (simp add: State_Monad.run_state_bind)
  from ownsD [OF assms(2) this] ownsD [OF assms(1) x]
  show "mset (acquired s') + mset (released s) + mset H = mset (acquired s) + mset (released s') + mset (R r)"
    unfolding multiset_eq_iff count_union by (metis balance_trans)
qed

lemma owns_return [owns_intros]: "mset H = mset (R code) \<Longrightarrow> owns H (State_Monad.return code) R"
  by (simp add: owns_def State_Monad.return_def)

lemma owns_release_then: "mset H = mset fds + mset H' \<Longrightarrow> owns H' m R \<Longrightarrow>
   owns H (do { release fds; m }) R"
  by (rule owns_bind [where Q = "\<lambda>_. H'"]) (auto simp: owns_def release_def)

lemma owns_report_then: "owns H m R \<Longrightarrow> owns H (do { report t; m }) R"
  by (rule owns_bind [where Q = "\<lambda>_. H"]) (auto simp: owns_def report_def)

lemma owns_next_result: "owns H next_result (\<lambda>_. H)"
  by (auto simp: owns_def dest: next_result_frame)

lemma owns_acquire_then: "owns (fd # H) m R \<Longrightarrow> owns H (do { acquire fd; m }) R"
  by (rule owns_bind [where Q = "\<lambda>_. fd # H"]) (auto simp: owns_def acquire_def)

lemma owns_say_then [owns_intros]: "owns H m R \<Longrightarrow> owns H (do { say t; m }) R"
  by (rule owns_bind [where Q = "\<lambda>_. H"]) (auto simp: owns_def say_def)

lemma owns_post_then [owns_intros]: "owns H m R \<Longrightarrow> owns H (do { post t; m }) R"
  by (rule owns_bind [where Q = "\<lambda>_. H"]) (auto simp: owns_def post_def)

lemma owns_remove_then [owns_intros]: "owns H m R \<Longrightarrow> owns H (do { remove_name t; m }) R"
  by (rule owns_bind [where Q = "\<lambda>_. H"]) (auto simp: owns_def remove_name_def)

lemma owns_names_then [owns_intros]:
  "owns H m R \<Longrightarrow> owns H (do { make_name t; m }) R"
  "owns H m R \<Longrightarrow> owns H (do { init_sem t; m }) R"
  "owns H m R \<Longrightarrow> owns H (do { destroy_sem t; m }) R"
  by (rule owns_bind [where Q = "\<lambda>_. H"]; auto simp: owns_def make_name_def init_sem_def destroy_sem_def)+

lemma owns_next_text: "owns H next_text (\<lambda>_. H)"
  by (auto simp: owns_def next_text_def split: list.splits)

lemma owns_send_step [owns_intros]:
  "mset H = mset fds + mset (R code) \<Longrightarrow> owns H m R \<Longrightarrow> owns H (send_step name t fds code m) R"
  unfolding send_step_def by (rule owns_bind [OF owns_next_result]) (auto intro: owns_intros)

lemma owns_recv_step [owns_intros]:
  "mset H = mset fds + mset (R code) \<Longrightarrow> (\<And>t. owns H (k t) R) \<Longrightarrow> owns H (recv_step name n fds code k) R"
  unfolding recv_step_def
  by (rule owns_bind [OF owns_next_result]) (auto intro!: owns_intros owns_bind [OF owns_next_text])

lemma owns_then_remove [owns_intros]: "owns H m R \<Longrightarrow> owns H (then_remove n m) R"
  unfolding then_remove_def by (rule owns_bind) (auto intro: owns_intros)

text \<open>From the start of a program, nothing held: what it acquires it releases.\<close>

definition sys_start :: "int list \<Rightarrow> string list \<Rightarrow> sys" where
  "sys_start rs texts = \<lparr>results = rs, acquired = [], released = [], reported = [], inbox = texts,
     outbox = [], printed = [], removed = [], made_names = [], live_sems = []\<rparr>"

lemma owns_from_start:
  "owns [] m R \<Longrightarrow> run_state m (sys_start rs texts) = (r, s) \<Longrightarrow>
   mset (acquired s) = mset (released s) + mset (R r)"
  by (drule (1) ownsD) (simp add: sys_start_def)

subsection \<open>Names and semaphores\<close>

definition clean :: "string set \<Rightarrow> 'a sysm \<Rightarrow> bool" where
  "clean N m \<longleftrightarrow> (\<forall>s r s'. run_state m s = (r, s') \<longrightarrow> set (made_names s) \<subseteq> N \<longrightarrow> live_sems s = [] \<longrightarrow>
     set (made_names s') \<subseteq> N \<and> live_sems s' = [])"

named_theorems clean_intros

lemma clean_bind [clean_intros]:
  assumes "clean N m" "\<And>x. clean N (k x)"
  shows "clean N (Monad_Syntax.bind m k)"
  unfolding clean_def
proof (intro allI impI)
  fix s r s' assume run: "run_state (Monad_Syntax.bind m k) s = (r, s')"
    and s: "set (made_names s) \<subseteq> N" "live_sems s = []"
  obtain x s1 where x: "run_state m s = (x, s1)" by fastforce
  with run have "run_state (k x) s1 = (r, s')" by (simp add: State_Monad.run_state_bind)
  with x s assms show "set (made_names s') \<subseteq> N \<and> live_sems s' = []" unfolding clean_def by blast
qed

lemma clean_basic [clean_intros]:
  "clean N (State_Monad.return r)" "clean N next_result" "clean N next_text" "clean N (acquire fd)"
  "clean N (release fds)" "clean N (report t)" "clean N (say t)" "clean N (post t)" "clean N (remove_name n)"
  "clean N (fail t fds code)" "clean N (finish fds code)" "n \<in> N \<Longrightarrow> clean N (make_name n)"
  by (auto simp: clean_def State_Monad.return_def run_next_result next_text_def acquire_def release_def
    report_def say_def post_def run_names split: list.splits)

lemma clean_if [clean_intros]: "clean N m \<Longrightarrow> clean N m' \<Longrightarrow> clean N (if b then m else m')"
  by simp

lemma clean_steps [clean_intros]:
  "(\<And>fd. clean N (k fd)) \<Longrightarrow> clean N (open_fd t fds code k)"
  "clean N m \<Longrightarrow> clean N (step t ok fds code m)"
  "clean N m \<Longrightarrow> clean N (send_step t x fds code m)"
  "(\<And>x. clean N (k' x)) \<Longrightarrow> clean N (recv_step t n fds code k')"
  by (unfold open_fd_def step_def send_step_def recv_step_def; intro clean_intros; assumption)+

lemma clean_then_remove [clean_intros]: "clean {n} m \<Longrightarrow> clean {} (then_remove n m)"
  unfolding clean_def then_remove_def
  by (fastforce simp: State_Monad.run_state_bind run_names State_Monad.return_def filter_empty_conv split: prod.splits)

lemma clean_from_start:
  "clean {} m \<Longrightarrow> run_state m (sys_start rs texts) = (r, s) \<Longrightarrow> made_names s = [] \<and> live_sems s = []"
  by (fastforce simp: clean_def sys_start_def)

end
