(* ===== verification/Time_Queue.thy ===== *)
theory Time_Queue
  imports C_Text Interfaces Sockets
begin

text \<open>
  The producer/consumer time server, \<^verbatim>\<open>labs/lab-16/part-2/3/server.c\<close>: the main thread
  accepts clients and puts their sockets into a ring of 16, three worker threads take them out,
  answer with the time and close them.

  The structure of the queue holds the ring and the threads that sleep on its two condition
  variables.  \<^verbatim>\<open>pthread_cond_wait\<close> puts a thread to sleep, \<^verbatim>\<open>pthread_cond_signal\<close> wakes one
  sleeper, of the system's choice; a sleeper may also wake by itself.  Whoever has woken tests the
  condition of its loop again.  The threads are the actions \<open>tq_action\<close> on the state
  \<open>time_server\<close>; every critical section is under one mutex, so one action is one atomic step, and a
  state is reachable (\<open>tq_reach\<close>) when some interleaving of actions leads to it.  \<^verbatim>\<open>read\<close> of a
  worker returns only after its client has sent something, closed or broken the connection.  The
  reply to one client is shared by the servers of this lab.
\<close>

subsection \<open>The reply\<close>

text \<open>What \<^verbatim>\<open>localtime_r\<close> yields, and \<^verbatim>\<open>strftime\<close> with \<^verbatim>\<open>"%Y-%m-%d %H:%M:%S\n"\<close>: nothing is
  written when it does not fit.\<close>

record tm =
  tm_year :: nat
  tm_mon :: nat
  tm_mday :: nat
  tm_hour :: nat
  tm_min :: nat
  tm_sec :: nat

definition two_digits :: "nat \<Rightarrow> string" where
  "two_digits n = (if n < 10 then ''0'' else []) @ show_nat n"

definition make_time_response :: "nat \<Rightarrow> tm \<Rightarrow> string option" where
  "make_time_response n t =
     (let s = show_nat (tm_year t) @ ''-'' @ two_digits (tm_mon t) @ ''-'' @ two_digits (tm_mday t) @
              '' '' @ two_digits (tm_hour t) @ '':'' @ two_digits (tm_min t) @ '':'' @
              two_digits (tm_sec t) @ [CHR 0x0A]
      in if length s < n then Some s else None)"

datatype read_outcome = Data string | Eof | Read_again | Read_fail

datatype serve_event = Reply string bool | Serve_perror string

text \<open>\<^verbatim>\<open>serve_time\<close>: any request gets the time, an empty one nothing.\<close>

definition serve_time :: "read_outcome \<Rightarrow> tm \<Rightarrow> bool \<Rightarrow> serve_event list" where
  "serve_time r t written =
     (case r of
        Data _ \<Rightarrow> Reply (case make_time_response 64 t of None \<Rightarrow> [] | Some s \<Rightarrow> s) written #
                  (if written then [] else [Serve_perror ''write''])
      | Eof \<Rightarrow> []
      | Read_again \<Rightarrow> [Serve_perror ''read'']
      | Read_fail \<Rightarrow> [Serve_perror ''read''])"

subsection \<open>The ring\<close>

definition QUEUE_SIZE :: nat where "QUEUE_SIZE = 16"
definition QUEUE_WORKERS :: nat where "QUEUE_WORKERS = 3"

text \<open>\<open>q_not_empty\<close> and \<open>q_not_full\<close>: the threads asleep on the condition variables.\<close>

record client_queue =
  q_items :: "int list"
  q_head :: nat
  q_tail :: nat
  q_count :: nat
  q_not_empty :: "nat list"
  q_not_full :: "nat list"

definition queue_init :: client_queue where
  "queue_init = \<lparr>q_items = replicate QUEUE_SIZE 0, q_head = 0, q_tail = 0, q_count = 0,
     q_not_empty = [], q_not_full = []\<rparr>"

text \<open>The bodies of \<^verbatim>\<open>queue_push\<close> and \<^verbatim>\<open>queue_pop\<close>, \<open>None\<close> where their loops wait.\<close>

definition ring_put :: "int \<Rightarrow> client_queue \<Rightarrow> client_queue option" where
  "ring_put client_fd q =
     (if q_count q = QUEUE_SIZE then None
      else Some (q\<lparr>q_items := (q_items q)[q_tail q := client_fd],
                   q_tail := (q_tail q + 1) mod QUEUE_SIZE,
                   q_count := q_count q + 1\<rparr>))"

definition ring_get :: "client_queue \<Rightarrow> (int \<times> client_queue) option" where
  "ring_get q =
     (if q_count q = 0 then None
      else Some (q_items q ! q_head q,
                 q\<lparr>q_head := (q_head q + 1) mod QUEUE_SIZE, q_count := q_count q - 1\<rparr>))"

text \<open>\<^verbatim>\<open>pthread_cond_signal\<close>; \<open>k\<close> is the choice of the sleeper.\<close>

definition cond_signal :: "nat \<Rightarrow> nat list \<Rightarrow> nat list" where
  "cond_signal k ws = (if ws = [] then [] else remove1 (ws ! (k mod length ws)) ws)"

text \<open>One round of the functions by thread \<open>me\<close>: whether it got through, or went to sleep.\<close>

definition queue_push :: "nat \<Rightarrow> nat \<Rightarrow> int \<Rightarrow> client_queue \<Rightarrow> bool \<times> client_queue" where
  "queue_push me k client_fd q =
     (case ring_put client_fd q of
        None \<Rightarrow> (False, q\<lparr>q_not_full := q_not_full q @ [me]\<rparr>)
      | Some q1 \<Rightarrow> (True, q1\<lparr>q_not_empty := cond_signal k (q_not_empty q1)\<rparr>))"

definition queue_pop :: "nat \<Rightarrow> nat \<Rightarrow> client_queue \<Rightarrow> int option \<times> client_queue" where
  "queue_pop me k q =
     (case ring_get q of
        None \<Rightarrow> (None, q\<lparr>q_not_empty := q_not_empty q @ [me]\<rparr>)
      | Some (client_fd, q1) \<Rightarrow> (Some client_fd, q1\<lparr>q_not_full := cond_signal k (q_not_full q1)\<rparr>))"

definition queue_contents :: "client_queue \<Rightarrow> int list" where
  "queue_contents q = ring_contents QUEUE_SIZE (q_items q) (q_head q) (q_count q)"

definition queue_ok :: "client_queue \<Rightarrow> bool" where
  "queue_ok q \<longleftrightarrow> length (q_items q) = QUEUE_SIZE \<and> q_count q \<le> QUEUE_SIZE \<and> q_head q < QUEUE_SIZE \<and>
     q_tail q = (q_head q + q_count q) mod QUEUE_SIZE"

lemma queue_init_ok [simp]: "queue_ok queue_init" "queue_contents queue_init = []"
  by (simp_all add: queue_ok_def queue_init_def queue_contents_def QUEUE_SIZE_def)

lemma ring_put_contents:
  assumes "queue_ok q" "q_count q < QUEUE_SIZE"
  shows "\<exists>q'. ring_put x q = Some q' \<and> queue_ok q' \<and> queue_contents q' = queue_contents q @ [x]"
proof -
  have t: "q_tail q = (q_head q + q_count q) mod QUEUE_SIZE" and len: "length (q_items q) = QUEUE_SIZE"
    using assms(1) by (auto simp: queue_ok_def)
  from ring_contents_push [OF len assms(2), of "q_head q" x] ring_tail_step [OF t] assms show ?thesis
    by (simp add: ring_put_def queue_contents_def queue_ok_def t)
qed

lemma ring_get_contents:
  assumes "queue_ok q" "ring_get q = Some (x, q')"
  shows "queue_ok q' \<and> queue_contents q = x # queue_contents q'"
proof -
  have pos: "0 < q_count q" using assms(2) by (auto simp: ring_get_def split: if_splits)
  have t: "q_tail q = (q_head q + q_count q) mod QUEUE_SIZE" and h: "q_head q < QUEUE_SIZE"
    using assms(1) by (auto simp: queue_ok_def)
  from ring_contents_pop [OF h pos] ring_head_step [OF t pos] assms pos show ?thesis
    by (auto simp: ring_get_def queue_contents_def queue_ok_def)
qed

interpretation socket_queue: bounded_fifo queue_init ring_put ring_get queue_contents queue_ok QUEUE_SIZE
proof (unfold_locales, goal_cases)
  case (3 q)
  then show ?case by (simp add: queue_contents_def queue_ok_def)
next
  case (4 q x)
  then show ?case by (simp add: ring_put_def queue_contents_def)
next
  case (5 q x)
  then show ?case using ring_put_contents [of q x] by (simp add: queue_contents_def)
next
  case (6 q)
  then show ?case by (metis length_ring_contents list.size(3) queue_contents_def ring_get_def)
next
  case (7 q x xs)
  then have "q_count q \<noteq> 0" by (metis length_ring_contents length_0_conv list.distinct(1) queue_contents_def)
  then obtain y q' where p: "ring_get q = Some (y, q')" by (auto simp: ring_get_def)
  with ring_get_contents [OF 7(1) p] 7(2) show ?case by auto
qed simp_all

lemma same_ring [simp]:
  "queue_contents (q\<lparr>q_not_full := ws\<rparr>) = queue_contents q" "queue_contents (q\<lparr>q_not_empty := ws\<rparr>) = queue_contents q"
  "queue_ok (q\<lparr>q_not_full := ws\<rparr>) = queue_ok q" "queue_ok (q\<lparr>q_not_empty := ws\<rparr>) = queue_ok q"
  by (simp_all add: queue_contents_def queue_ok_def)

lemma queue_push_contents:
  assumes "queue_ok q" "queue_push me k fd q = (through, q')"
  shows "queue_ok q' \<and> queue_contents q' = (if through then queue_contents q @ [fd] else queue_contents q)"
proof (cases "ring_put fd q")
  case None
  with assms show ?thesis by (auto simp: queue_push_def)
next
  case (Some q1)
  with socket_queue.enq_SomeD [OF assms(1) Some] assms(2) show ?thesis by (auto simp: queue_push_def)
qed

lemma queue_pop_contents:
  assumes "queue_ok q" "queue_pop me k q = (r, q')"
  shows "queue_ok q' \<and> queue_contents q = (case r of None \<Rightarrow> [] | Some fd \<Rightarrow> [fd]) @ queue_contents q'"
proof (cases "ring_get q")
  case None
  then have "queue_contents q = []" by (simp add: queue_contents_def ring_get_def ring_contents_0 split: if_splits)
  with None assms show ?thesis by (auto simp: queue_pop_def)
next
  case (Some r1)
  then obtain x q1 where "ring_get q = Some (x, q1)" by (cases r1) auto
  with socket_queue.deq_SomeD [OF assms(1) this] assms(2) show ?thesis by (auto simp: queue_pop_def)
qed

text \<open>What the operations do to the sleepers and the count.\<close>

lemma queue_push_sleepers:
  "queue_push me k fd q = (through, q') \<Longrightarrow>
   (if through then q_count q' = q_count q + 1 \<and> q_not_full q' = q_not_full q \<and> q_not_empty q' = cond_signal k (q_not_empty q)
    else q_count q = QUEUE_SIZE \<and> q_count q' = q_count q \<and> q_not_full q' = q_not_full q @ [me] \<and> q_not_empty q' = q_not_empty q)"
  by (auto simp: queue_push_def ring_put_def split: if_splits)

lemma queue_pop_sleepers:
  "queue_pop me k q = (r, q') \<Longrightarrow>
   (case r of
      Some _ \<Rightarrow> q_count q = q_count q' + 1 \<and> q_not_empty q' = q_not_empty q \<and> q_not_full q' = cond_signal k (q_not_full q)
    | None \<Rightarrow> q_count q = 0 \<and> q_count q' = 0 \<and> q_not_empty q' = q_not_empty q @ [me] \<and> q_not_full q' = q_not_full q)"
  by (auto simp: queue_pop_def ring_get_def split: if_splits)

lemma cond_signal_cases:
  "ws = [] \<and> cond_signal k ws = [] \<or> (\<exists>w \<in> set ws. cond_signal k ws = remove1 w ws)"
  by (auto simp: cond_signal_def)

subsection \<open>Start-up\<close>

definition queue_listener :: "int sysm" where
  "queue_listener =
     open_fd ''socket'' [] (-1) (\<lambda>fd.
     step ''setsockopt'' worked [fd] (-1) (
     step ''inet_pton'' is_one [fd] (-1) (
     step ''bind'' worked [fd] (-1) (
     step ''listen'' worked [fd] (-1) (
     finish [] fd)))))"

text \<open>\<^verbatim>\<open>main\<close> up to its loop: the code it returns with, or the descriptor it serves on.  A result
  of 0 is success of \<^verbatim>\<open>pthread_create\<close>.\<close>

definition queue_startup :: "(int + int) sysm" where
  "queue_startup = do {
     fd \<leftarrow> queue_listener;
     if fd = -1 then finish [] (Inl 1)
     else step ''pthread_create'' (\<lambda>r. r = 0) [fd] (Inl 1) (
          step ''pthread_create'' (\<lambda>r. r = 0) [fd] (Inl 1) (
          step ''pthread_create'' (\<lambda>r. r = 0) [fd] (Inl 1) (
          finish [] (Inr fd)))) }"

subsection \<open>The threads\<close>

text \<open>\<open>spoken\<close>: the open sockets of which \<^verbatim>\<open>read\<close> would return.\<close>

record time_server =
  queue :: client_queue
  producer :: "int option"
  workers :: "int option list"
  accepted :: "int list"
  handled :: "(nat \<times> int) list"
  served :: "(int \<times> serve_event list) list"
  closed :: "int list"
  spoken :: "int set"

definition tq_start :: time_server where
  "tq_start = \<lparr>queue = queue_init, producer = None, workers = replicate QUEUE_WORKERS None,
     accepted = [], handled = [], served = [], closed = [], spoken = {}\<rparr>"

text \<open>The clients with an open socket: in the ring, held by the producer, at a worker.\<close>

definition at_workers :: "time_server \<Rightarrow> int list" where
  "at_workers s = List.map_filter id (workers s)"

definition waiting :: "time_server \<Rightarrow> int list" where
  "waiting s = queue_contents (queue s) @ (case producer s of None \<Rightarrow> [] | Some fd \<Rightarrow> [fd])"

text \<open>\<open>Speak\<close> is a client's doing, \<open>Wake\<close> a sleeper that wakes by itself; the number in \<open>Push\<close> and
  \<open>Pop\<close> is the choice of the sleeper that is signalled.\<close>

datatype tq_action =
  Accept int | Push nat | Pop nat nat | Serve nat read_outcome tm bool | Speak int | Wake nat

text \<open>The number of the main thread, behind those of the workers.\<close>

definition main_thread :: nat where "main_thread = QUEUE_WORKERS"

text \<open>The kernel returns from \<^verbatim>\<open>accept\<close> a descriptor that is not in use; a failed \<^verbatim>\<open>accept\<close> is
  only reported and changes nothing.\<close>

definition producer_accept :: "int \<Rightarrow> time_server \<Rightarrow> time_server option" where
  "producer_accept fd s =
     (if producer s = None \<and> fd \<noteq> -1 \<and> fd \<notin> set (waiting s @ at_workers s)
      then Some (s\<lparr>producer := Some fd, accepted := accepted s @ [fd]\<rparr>) else None)"

definition producer_push :: "nat \<Rightarrow> time_server \<Rightarrow> time_server option" where
  "producer_push k s =
     (if main_thread \<in> set (q_not_full (queue s)) then None
      else case producer s of
        None \<Rightarrow> None
      | Some fd \<Rightarrow>
          (case queue_push main_thread k fd (queue s) of
             (through, q) \<Rightarrow> Some (s\<lparr>queue := q, producer := if through then None else Some fd\<rparr>)))"

text \<open>\<^verbatim>\<open>worker_main\<close>: take a client, report it, serve it and close it.\<close>

definition worker_take :: "nat \<Rightarrow> nat \<Rightarrow> time_server \<Rightarrow> time_server option" where
  "worker_take w k s =
     (if w < length (workers s) \<and> workers s ! w = None \<and> w \<notin> set (q_not_empty (queue s)) then
        (case queue_pop w k (queue s) of
           (None, q) \<Rightarrow> Some (s\<lparr>queue := q\<rparr>)
         | (Some fd, q) \<Rightarrow> Some (s\<lparr>queue := q, workers := (workers s)[w := Some fd],
                                handled := handled s @ [(Suc w, fd)]\<rparr>))
      else None)"

definition worker_serve :: "nat \<Rightarrow> read_outcome \<Rightarrow> tm \<Rightarrow> bool \<Rightarrow> time_server \<Rightarrow> time_server option" where
  "worker_serve w r t ok s =
     (if w < length (workers s) then
        (case workers s ! w of
           None \<Rightarrow> None
         | Some fd \<Rightarrow>
             if fd \<in> spoken s
             then Some (s\<lparr>workers := (workers s)[w := None],
                         served := served s @ [(fd, serve_time r t ok)],
                         closed := closed s @ [fd], spoken := spoken s - {fd}\<rparr>)
             else None)
      else None)"

definition client_speaks :: "int \<Rightarrow> time_server \<Rightarrow> time_server option" where
  "client_speaks fd s =
     (if fd \<in> set (waiting s @ at_workers s) then Some (s\<lparr>spoken := insert fd (spoken s)\<rparr>) else None)"

definition wakes_up :: "nat \<Rightarrow> time_server \<Rightarrow> time_server option" where
  "wakes_up i s =
     Some (s\<lparr>queue := (queue s)\<lparr>q_not_empty := remove1 i (q_not_empty (queue s)),
                              q_not_full := remove1 i (q_not_full (queue s))\<rparr>\<rparr>)"

definition tq_exec :: "tq_action \<Rightarrow> time_server \<Rightarrow> time_server option" where
  "tq_exec a s =
     (case a of Accept fd \<Rightarrow> producer_accept fd s | Push k \<Rightarrow> producer_push k s
      | Pop w k \<Rightarrow> worker_take w k s | Serve w r t ok \<Rightarrow> worker_serve w r t ok s
      | Speak fd \<Rightarrow> client_speaks fd s | Wake i \<Rightarrow> wakes_up i s)"

lemmas tq_exec_defs = tq_exec_def producer_accept_def producer_push_def worker_take_def worker_serve_def
  client_speaks_def wakes_up_def

inductive tq_reach :: "time_server \<Rightarrow> bool" where
  start: "tq_reach tq_start"
| action: "tq_reach s \<Longrightarrow> tq_exec a s = Some s' \<Longrightarrow> tq_reach s'"

lemma map_filter_set_none:
  "w < length ws \<Longrightarrow> ws ! w = Some x \<Longrightarrow>
   mset (List.map_filter id ws) = add_mset x (mset (List.map_filter id (ws[w := None])))"
proof (induction ws arbitrary: w)
  case (Cons a ws)
  then show ?case by (cases w) (auto simp: map_filter_simps split: option.splits)
qed simp

lemma map_filter_set_some:
  "w < length ws \<Longrightarrow> ws ! w = None \<Longrightarrow>
   mset (List.map_filter id (ws[w := Some x])) = add_mset x (mset (List.map_filter id ws))"
proof (induction ws arbitrary: w)
  case (Cons a ws)
  then show ?case by (cases w) (auto simp: map_filter_simps split: option.splits)
qed simp

definition tq_inv :: "time_server \<Rightarrow> bool" where
  "tq_inv s \<longleftrightarrow> queue_ok (queue s) \<and> length (workers s) = QUEUE_WORKERS \<and>
     accepted s = map snd (handled s) @ waiting s \<and>
     mset (map snd (handled s)) = mset (closed s) + mset (at_workers s) \<and>
     map fst (served s) = closed s \<and> distinct (waiting s @ at_workers s)"

lemma tq_inv_exec:
  assumes "tq_inv s" "tq_exec a s = Some s'"
  shows "tq_inv s'"
proof -
  have ok: "queue_ok (queue s)" and d: "distinct (waiting s @ at_workers s)"
    using assms(1) by (auto simp: tq_inv_def)
  show ?thesis
  proof (cases a)
    case (Accept fd)
    with assms show ?thesis
      by (auto simp: tq_exec_defs tq_inv_def waiting_def at_workers_def split: if_splits)
  next
    case (Push k)
    with assms(2) obtain fd through q where p: "producer s = Some fd" "queue_push main_thread k fd (queue s) = (through, q)"
      and s': "s' = s\<lparr>queue := q, producer := if through then None else Some fd\<rparr>"
      by (auto simp: tq_exec_defs split: option.splits prod.splits if_splits)
    from queue_push_contents [OF ok p(2)] p(1) s' assms(1) show ?thesis
      by (auto simp: tq_inv_def waiting_def at_workers_def)
  next
    case (Pop w k)
    with assms(2) obtain r q where w: "w < length (workers s)" "workers s ! w = None"
      and p: "queue_pop w k (queue s) = (r, q)"
      and s': "s' = (case r of None \<Rightarrow> s\<lparr>queue := q\<rparr>
        | Some fd \<Rightarrow> s\<lparr>queue := q, workers := (workers s)[w := Some fd], handled := handled s @ [(Suc w, fd)]\<rparr>)"
      by (auto simp: tq_exec_defs split: if_splits prod.splits option.splits)
    show ?thesis
    proof (cases r)
      case None
      with queue_pop_contents [OF ok p] assms(1) s' show ?thesis
        by (auto simp: tq_inv_def waiting_def at_workers_def)
    next
      case (Some fd)
      with s' have s': "s' = s\<lparr>queue := q, workers := (workers s)[w := Some fd], handled := handled s @ [(Suc w, fd)]\<rparr>" by simp
      have at: "mset (at_workers s') = add_mset fd (mset (at_workers s))"
        using map_filter_set_some [OF w] by (simp add: s' at_workers_def)
      have wait: "waiting s = fd # waiting s'" and ok': "queue_ok q"
        using queue_pop_contents [OF ok p] Some by (auto simp: s' waiting_def)
      have "mset (waiting s' @ at_workers s') = mset (waiting s @ at_workers s)" by (simp add: at wait)
      with d have "distinct (waiting s' @ at_workers s')" by (metis mset_eq_imp_distinct_iff)
      with at wait ok' assms(1) show ?thesis by (simp add: tq_inv_def s')
    qed
  next
    case (Serve w r t b)
    with assms(2) obtain fd where w: "w < length (workers s)" "workers s ! w = Some fd"
      and s': "s' = s\<lparr>workers := (workers s)[w := None], served := served s @ [(fd, serve_time r t b)],
        closed := closed s @ [fd], spoken := spoken s - {fd}\<rparr>"
      by (auto simp: tq_exec_defs split: if_splits option.splits)
    have at: "mset (at_workers s) = add_mset fd (mset (at_workers s'))"
      using map_filter_set_none [OF w] by (simp add: s' at_workers_def)
    have wait: "waiting s' = waiting s" by (simp add: s' waiting_def)
    have "mset (waiting s @ at_workers s) = mset (fd # waiting s' @ at_workers s')" by (simp add: at wait)
    with d have "distinct (waiting s' @ at_workers s')"
      by (metis distinct.simps(2) mset_eq_imp_distinct_iff)
    with at wait assms(1) show ?thesis by (simp add: tq_inv_def s')
  next
    case (Speak fd)
    with assms show ?thesis by (auto simp: tq_exec_defs tq_inv_def waiting_def at_workers_def split: if_splits)
  next
    case (Wake i)
    with assms show ?thesis by (auto simp: tq_exec_defs tq_inv_def waiting_def at_workers_def)
  qed
qed

lemma tq_reach_inv: "tq_reach s \<Longrightarrow> tq_inv s"
proof (induction rule: tq_reach.induct)
  case start
  show ?case by (simp add: tq_inv_def tq_start_def waiting_def at_workers_def map_filter_def)
next
  case (action s a s')
  then show ?case by (auto intro: tq_inv_exec)
qed

lemma tq_reach_run:
  "tq_reach s \<Longrightarrow> foldl (\<lambda>r a. Option.bind r (tq_exec a)) (Some s) as = Some s' \<Longrightarrow> tq_reach s'"
proof (induction as arbitrary: s)
  case (Cons a as)
  have none: "foldl (\<lambda>r a. Option.bind r (tq_exec a)) None as = None" for as :: "tq_action list"
    by (induction as) simp_all
  show ?case
  proof (cases "tq_exec a s")
    case None
    with Cons.prems(2) none show ?thesis by simp
  next
    case (Some s1)
    from Cons.IH [OF tq_reach.action [OF Cons.prems(1) Some]] Cons.prems(2) Some show ?thesis
      by simp
  qed
qed simp

subsection \<open>Properties of the producer/consumer server\<close>

text \<open>
  Property C13.  In every reachable state of the three workers and the producer: the clients
  handed to workers, in the order they were taken, followed by the ring and the one the producer
  still holds, are exactly the accepted clients in the order of \<^verbatim>\<open>accept\<close>; every client handed to
  a worker is either closed, after its reply, or at that worker; and no descriptor in use is at
  two places at once, so no client is lost, served twice or closed twice.
\<close>

theorem tq_fifo_exactly_once:
  assumes "tq_reach s"
  shows "accepted s = map snd (handled s) @ queue_contents (queue s) @
      (case producer s of None \<Rightarrow> [] | Some fd \<Rightarrow> [fd]) \<and>
    mset (map snd (handled s)) = mset (closed s) + mset (at_workers s) \<and>
    map fst (served s) = closed s \<and> distinct (waiting s @ at_workers s)"
  using tq_reach_inv [OF assms] by (auto simp: tq_inv_def waiting_def)

definition demo_tm :: tm where
  "demo_tm = \<lparr>tm_year = 26, tm_mon = 3, tm_mday = 9, tm_hour = 7, tm_min = 5, tm_sec = 30\<rparr>"

definition demo_queue_run :: "time_server option" where
  "demo_queue_run = foldl (\<lambda>r a. Option.bind r (tq_exec a)) (Some tq_start)
     [Pop 1 0, Pop 0 0, Accept 5, Speak 5, Push 0, Accept 6, Pop 1 0, Push 1, Pop 0 0,
      Serve 1 (Data ''time'') demo_tm True, Accept 5]"

lemma demo_queue_reach: "tq_reach (the demo_queue_run)"
proof -
  have "\<not> Option.is_none demo_queue_run" by code_simp
  then obtain s where s: "demo_queue_run = Some s" by (auto simp: Option.is_none_def)
  from tq_reach_run [OF tq_reach.start s [unfolded demo_queue_run_def]] have "tq_reach s" .
  then show ?thesis by (simp add: s)
qed

lemma tq_fifo_exactly_once_witness:
  "accepted (the demo_queue_run) = [5, 6, 5] \<and> map snd (handled (the demo_queue_run)) = [5, 6] \<and>
   closed (the demo_queue_run) = [5]"
proof -
  have "map snd (handled (the demo_queue_run)) = [5, 6]" "closed (the demo_queue_run) = [5]"
    "queue_contents (queue (the demo_queue_run)) = []" "producer (the demo_queue_run) = Some 5"
    by code_simp+
  with tq_fifo_exactly_once [OF demo_queue_reach] show ?thesis by simp
qed

subsection \<open>No wake-up is lost\<close>

definition ready :: "time_server \<Rightarrow> nat set" where
  "ready s = {w. w < QUEUE_WORKERS \<and> workers s ! w = None \<and> w \<notin> set (q_not_empty (queue s))}"

text \<open>
  While workers sleep there are at least as many others on their way to the ring as there are clients
  in it; and the main thread sleeps only while the ring is full.
\<close>

definition sleepers_ok :: "time_server \<Rightarrow> bool" where
  "sleepers_ok s \<longleftrightarrow>
     distinct (q_not_empty (queue s)) \<and> (\<forall>w \<in> set (q_not_empty (queue s)). w < QUEUE_WORKERS \<and> workers s ! w = None) \<and>
     (q_not_empty (queue s) \<noteq> [] \<longrightarrow> q_count (queue s) \<le> card (ready s)) \<and>
     distinct (q_not_full (queue s)) \<and> set (q_not_full (queue s)) \<subseteq> {main_thread} \<and>
     (q_not_full (queue s) \<noteq> [] \<longrightarrow> producer s \<noteq> None \<and> q_count (queue s) = QUEUE_SIZE)"

lemma finite_ready [simp]: "finite (ready s)" by (simp add: ready_def)

lemma remove1_single: "distinct ws \<Longrightarrow> set ws \<subseteq> {m} \<Longrightarrow> w \<in> set ws \<Longrightarrow> remove1 w ws = []"
  by (cases ws; cases "tl ws") auto

lemma signal_only:
  "distinct ws \<Longrightarrow> set ws \<subseteq> {m} \<Longrightarrow> cond_signal k ws = []"
  using cond_signal_cases [of ws k] remove1_single [of ws m] by auto

lemma worker_set: "w < length ws \<Longrightarrow> ws[w := x] ! i = (if i = w then x else ws ! i)"
  by (cases "i = w") simp_all

lemma push_sleepers:
  assumes "sleepers_ok s" "queue_push main_thread k fd (queue s) = (through, q)" "producer s = Some fd"
    "main_thread \<notin> set (q_not_full (queue s))"
  shows "sleepers_ok (s\<lparr>queue := q, producer := if through then None else Some fd\<rparr>)"
proof -
  let ?s' = "s\<lparr>queue := q, producer := if through then None else Some fd\<rparr>"
  note q = queue_push_sleepers [OF assms(2)]
  have nf: "q_not_full (queue s) = []" using assms(1,4) by (cases "q_not_full (queue s)") (auto simp: sleepers_ok_def)
  show ?thesis
  proof (cases through)
    case False
    then have "ready ?s' = ready s" using q by (simp add: ready_def)
    with False q assms(1,3) nf show ?thesis by (auto simp: sleepers_ok_def)
  next
    case True
    from cond_signal_cases [of "q_not_empty (queue s)" k] show ?thesis
    proof
      assume "q_not_empty (queue s) = [] \<and> cond_signal k (q_not_empty (queue s)) = []"
      with True q assms(1) nf show ?thesis by (auto simp: sleepers_ok_def cond_signal_def)
    next
      assume "\<exists>w \<in> set (q_not_empty (queue s)). cond_signal k (q_not_empty (queue s)) = remove1 w (q_not_empty (queue s))"
      then obtain w where w: "w \<in> set (q_not_empty (queue s))"
        "q_not_empty q = remove1 w (q_not_empty (queue s))" using True q by auto
      have d: "distinct (q_not_empty (queue s))" "w < QUEUE_WORKERS" "workers s ! w = None"
        using assms(1) w(1) by (auto simp: sleepers_ok_def)
      have "ready ?s' = insert w (ready s)" using d w by (auto simp: ready_def)
      moreover have "w \<notin> ready s" using w(1) by (simp add: ready_def)
      ultimately have "card (ready ?s') = Suc (card (ready s))" by simp
      moreover have "q_count q = q_count (queue s) + 1" "q_not_full q = []" using True q nf by auto
      moreover have "distinct (q_not_empty q)" "set (q_not_empty q) \<subseteq> set (q_not_empty (queue s))"
        using d(1) by (auto simp: w(2) dest: notin_set_remove1)
      moreover have "q_count (queue s) \<le> card (ready s)" "\<forall>w \<in> set (q_not_empty (queue s)). w < QUEUE_WORKERS \<and> workers s ! w = None"
        using assms(1) w(1) by (auto simp: sleepers_ok_def)
      ultimately show ?thesis using True by (auto simp: sleepers_ok_def)
    qed
  qed
qed

lemma pop_sleepers:
  assumes "sleepers_ok s" "queue_pop w k (queue s) = (r, q)" "w \<in> ready s" "length (workers s) = QUEUE_WORKERS"
  shows "sleepers_ok (case r of None \<Rightarrow> s\<lparr>queue := q\<rparr>
    | Some fd \<Rightarrow> s\<lparr>queue := q, workers := (workers s)[w := Some fd], handled := handled s @ [(Suc w, fd)]\<rparr>)"
proof (cases r)
  case None
  with queue_pop_sleepers [OF assms(2)] assms(1,3) show ?thesis
    by (auto simp: sleepers_ok_def ready_def QUEUE_SIZE_def)
next
  case (Some fd)
  let ?s' = "s\<lparr>queue := q, workers := (workers s)[w := Some fd], handled := handled s @ [(Suc w, fd)]\<rparr>"
  have q: "q_count (queue s) = q_count q + 1" "q_not_empty q = q_not_empty (queue s)"
    "q_not_full q = cond_signal k (q_not_full (queue s))" using queue_pop_sleepers [OF assms(2)] Some by auto
  have "q_not_full q = []" using assms(1) unfolding q(3) by (intro signal_only [of _ main_thread]) (simp_all add: sleepers_ok_def)
  moreover have w: "w \<notin> set (q_not_empty (queue s))" using assms(3) by (simp add: ready_def)
  moreover have lw: "w < length (workers s)" using assms(3,4) by (simp add: ready_def)
  moreover have "ready ?s' = ready s - {w}" using w q(2) lw by (auto simp: ready_def worker_set)
  then have "card (ready ?s') = card (ready s) - 1" using assms(3) by simp
  ultimately show ?thesis using Some assms(1) q(1,2)
    by (auto simp: sleepers_ok_def worker_set)
qed

lemma sleepers_exec:
  assumes "tq_inv s" "sleepers_ok s" "tq_exec a s = Some s'"
  shows "sleepers_ok s'"
proof -
  have len: "length (workers s) = QUEUE_WORKERS" using assms(1) by (simp add: tq_inv_def)
  show ?thesis
  proof (cases a)
    case (Accept fd)
    with assms(2,3) show ?thesis by (auto simp: tq_exec_defs sleepers_ok_def ready_def split: if_splits)
  next
    case (Push k)
    with assms(3) obtain fd through q where "producer s = Some fd" "main_thread \<notin> set (q_not_full (queue s))"
      "queue_push main_thread k fd (queue s) = (through, q)"
      "s' = s\<lparr>queue := q, producer := if through then None else Some fd\<rparr>"
      by (auto simp: tq_exec_defs split: option.splits prod.splits if_splits)
    with push_sleepers [OF assms(2)] show ?thesis by simp
  next
    case (Pop w k)
    obtain r q where p: "queue_pop w k (queue s) = (r, q)" by fastforce
    with Pop assms(3) len have "w \<in> ready s" and
      "s' = (case r of None \<Rightarrow> s\<lparr>queue := q\<rparr>
        | Some fd \<Rightarrow> s\<lparr>queue := q, workers := (workers s)[w := Some fd], handled := handled s @ [(Suc w, fd)]\<rparr>)"
      by (auto simp: tq_exec_defs ready_def split: if_splits option.splits)
    with pop_sleepers [OF assms(2) p _ len] show ?thesis by simp
  next
    case (Serve w r t b)
    with assms(3) obtain fd where "workers s ! w = Some fd" "w < length (workers s)"
      and s': "s' = s\<lparr>workers := (workers s)[w := None], served := served s @ [(fd, serve_time r t b)],
        closed := closed s @ [fd], spoken := spoken s - {fd}\<rparr>"
      by (auto simp: tq_exec_defs split: if_splits option.splits)
    note w = \<open>w < length (workers s)\<close>
    from s' have "ready s \<subseteq> ready s'" using w by (auto simp: ready_def worker_set)
    then have "card (ready s) \<le> card (ready s')" by (intro card_mono) simp_all
    with assms(2) show ?thesis using w by (auto simp: sleepers_ok_def s' worker_set)
  next
    case (Speak fd)
    with assms(2,3) show ?thesis by (auto simp: tq_exec_defs sleepers_ok_def ready_def split: if_splits)
  next
    case (Wake i)
    with assms(3) have s': "s' = s\<lparr>queue := (queue s)\<lparr>q_not_empty := remove1 i (q_not_empty (queue s)),
        q_not_full := remove1 i (q_not_full (queue s))\<rparr>\<rparr>" by (simp add: tq_exec_defs)
    then have "ready s \<subseteq> ready s'" by (auto simp: ready_def dest: notin_set_remove1)
    then have "card (ready s) \<le> card (ready s')" by (intro card_mono) simp_all
    with assms(2) show ?thesis
      by (auto simp: sleepers_ok_def s' dest: notin_set_remove1 split: if_splits)
  qed
qed

lemma tq_reach_sleepers: "tq_reach s \<Longrightarrow> sleepers_ok s"
proof (induction rule: tq_reach.induct)
  case start
  show ?case by (simp add: sleepers_ok_def tq_start_def queue_init_def)
next
  case (action s a s')
  then show ?case using sleepers_exec tq_reach_inv by blast
qed

text \<open>What is left to do: three steps for the client the main thread holds, two for each in the ring,
  one for each at a worker.\<close>

definition to_do :: "time_server \<Rightarrow> nat" where
  "to_do s = (case producer s of None \<Rightarrow> 0 | Some _ \<Rightarrow> 3) + 2 * length (queue_contents (queue s)) + length (at_workers s)"

lemma length_map_filter_set:
  "w < length ws \<Longrightarrow> ws ! w = Some x \<Longrightarrow> length (List.map_filter id ws) = Suc (length (List.map_filter id (ws[w := None])))"
  "w < length ws \<Longrightarrow> ws ! w = None \<Longrightarrow> length (List.map_filter id (ws[w := Some x])) = Suc (length (List.map_filter id ws))"
  using arg_cong [OF map_filter_set_none [of w ws x], of size] arg_cong [OF map_filter_set_some [of w ws x], of size]
  by simp_all

lemma count_zero: "q_count q = 0 \<Longrightarrow> queue_contents q = []"
  by (simp add: queue_contents_def)

lemma in_at_workers: "fd \<in> set (at_workers s) \<longleftrightarrow> (\<exists>w < length (workers s). workers s ! w = Some fd)"
  by (auto simp: at_workers_def map_filter_def in_set_conv_nth image_iff)

lemma serve_works:
  assumes "w < length (workers s)" "workers s ! w = Some fd" "fd \<in> spoken s"
  shows "\<exists>s'. tq_exec (Serve w r t ok) s = Some s' \<and> to_do s' < to_do s"
  using assms length_map_filter_set(1) [OF assms(1,2)] by (simp add: tq_exec_defs to_do_def at_workers_def)

lemma take_works:
  assumes "w \<in> ready s" "length (workers s) = QUEUE_WORKERS" "queue_ok (queue s)" "queue_contents (queue s) \<noteq> []"
  shows "\<exists>s'. tq_exec (Pop w k) s = Some s' \<and> to_do s' < to_do s"
proof -
  obtain r q where p: "queue_pop w k (queue s) = (r, q)" by fastforce
  have "q_count (queue s) \<noteq> 0" using assms(4) count_zero by blast
  with p obtain fd where r: "r = Some fd" by (auto simp: queue_pop_def ring_get_def)
  with queue_pop_contents [OF assms(3) p] have "length (queue_contents (queue s)) = Suc (length (queue_contents q))" by simp
  with p r assms(1,2) length_map_filter_set(2) [of w "workers s" fd] show ?thesis
    by (simp add: tq_exec_defs ready_def to_do_def at_workers_def)
qed

lemma push_works:
  assumes "producer s = Some fd" "main_thread \<notin> set (q_not_full (queue s))" "queue_ok (queue s)" "q_count (queue s) \<noteq> QUEUE_SIZE"
  shows "\<exists>s'. tq_exec (Push k) s = Some s' \<and> to_do s' < to_do s"
proof -
  obtain through q where p: "queue_push main_thread k fd (queue s) = (through, q)" by fastforce
  with assms(4) have "through" by (auto simp: queue_push_def ring_put_def)
  with p assms(1,2) queue_push_contents [OF assms(3) p] show ?thesis
    by (simp add: tq_exec_defs to_do_def at_workers_def)
qed

text \<open>
  Property C14.  The server never gets stuck on its own account, and no wake-up is lost.  In every
  reachable state in which an accepted client is not yet closed (\<open>to_do\<close> is not 0), some thread has a
  step of its own that brings a client forward: the main thread puts the client it holds into the ring,
  a worker that does not sleep takes one out, or a worker answers and closes one.  The only exceptions
  are clients that keep silent: every client at a worker has sent nothing yet, and either all workers
  are at such clients or no other client is waiting.
\<close>

theorem tq_progress:
  assumes "tq_reach s" "to_do s \<noteq> 0"
  shows "(\<exists>a s'. tq_exec a s = Some s' \<and> to_do s' < to_do s) \<or>
    set (at_workers s) \<inter> spoken s = {} \<and> (length (at_workers s) = QUEUE_WORKERS \<or> waiting s = [])"
proof (cases "set (at_workers s) \<inter> spoken s = {}")
  case False
  then obtain w fd where "w < length (workers s)" "workers s ! w = Some fd" "fd \<in> spoken s"
    by (auto simp: in_at_workers)
  from serve_works [OF this] show ?thesis by blast
next
  case silent: True
  from tq_reach_inv [OF assms(1)] have inv: "queue_ok (queue s)" "length (workers s) = QUEUE_WORKERS"
    by (simp_all add: tq_inv_def)
  note sl = tq_reach_sleepers [OF assms(1)]
  show ?thesis
  proof (cases "queue_contents (queue s) = []")
    case empty: True
    show ?thesis
    proof (cases "producer s")
      case None
      with empty silent show ?thesis by (simp add: waiting_def)
    next
      case (Some fd)
      have "q_count (queue s) = 0" using empty inv(1) by (metis length_ring_contents list.size(3) queue_contents_def)
      then have "q_count (queue s) \<noteq> QUEUE_SIZE" by (simp add: QUEUE_SIZE_def)
      moreover from this have "main_thread \<notin> set (q_not_full (queue s))" using sl by (auto simp: sleepers_ok_def)
      ultimately show ?thesis using push_works [OF Some _ inv(1)] by blast
    qed
  next
    case False
    show ?thesis
    proof (cases "ready s = {}")
      case none: True
      have "0 < q_count (queue s)" using False count_zero by blast
      with sl none have awake: "q_not_empty (queue s) = []" by (auto simp: sleepers_ok_def)
      with none have "\<forall>w < QUEUE_WORKERS. workers s ! w \<noteq> None" by (auto simp: ready_def)
      then have "filter (\<lambda>x. x \<noteq> None) (workers s) = workers s"
        using inv(2) by (auto simp: filter_id_conv in_set_conv_nth)
      then have "length (at_workers s) = QUEUE_WORKERS" using inv(2) by (simp add: at_workers_def map_filter_def)
      with silent show ?thesis by simp
    next
      case False
      then obtain w where "w \<in> ready s" by blast
      from take_works [OF this inv(2,1) \<open>queue_contents (queue s) \<noteq> []\<close>] show ?thesis by blast
    qed
  qed
qed

lemma tq_progress_witness:
  "\<exists>a s'. tq_exec a (the demo_queue_run) = Some s' \<and> to_do s' < to_do (the demo_queue_run)"
proof -
  have "to_do (the demo_queue_run) \<noteq> 0" "length (at_workers (the demo_queue_run)) \<noteq> QUEUE_WORKERS"
    "waiting (the demo_queue_run) \<noteq> []" by code_simp+
  with tq_progress [OF demo_queue_reach] show ?thesis by blast
qed

end
