(* ===== verification/Time_Pool.thy ===== *)
theory Time_Pool
  imports Time_Queue
begin

text \<open>
  The time server with a pool of reserved workers, \<^verbatim>\<open>labs/lab-16/part-2/2/server.c\<close>, and its
  client \<^verbatim>\<open>labs/lab-16/part-2/2/client.c\<close>.

  A client asks the listener, which reserves a free worker and answers with its port; the client
  then connects to that port, and the worker is free again after it has served any connection.
  The threads are the actions \<open>pool_action\<close>; \<open>pool_exec\<close> returns what the listener answered.
\<close>

definition WORKER_PORT_BASE :: int where "WORKER_PORT_BASE = 12520"
definition POOL_WORKERS :: nat where "POOL_WORKERS = 3"

record worker =
  w_id :: int
  w_port :: int
  w_listen_fd :: int
  w_busy :: bool

definition pool_listener :: "int sysm" where
  "pool_listener =
     open_fd ''socket'' [] (-1) (\<lambda>fd.
     step ''setsockopt'' worked [fd] (-1) (
     step ''inet_pton'' is_one [fd] (-1) (
     step ''bind'' worked [fd] (-1) (
     step ''listen'' worked [fd] (-1) (
     finish [] fd)))))"

text \<open>\<^verbatim>\<open>start_workers\<close> from worker \<open>i\<close> on; a failure returns with the workers so far running, and
  \<^verbatim>\<open>main\<close> ends the process.\<close>

fun start_workers_from :: "nat \<Rightarrow> nat \<Rightarrow> worker list \<Rightarrow> (int \<times> worker list) sysm" where
  "start_workers_from 0 i ws = State_Monad.return (0, ws)"
| "start_workers_from (Suc n) i ws = do {
     fd \<leftarrow> pool_listener;
     let ws1 = ws @ [\<lparr>w_id = int i + 1, w_port = WORKER_PORT_BASE + int i, w_listen_fd = fd, w_busy = False\<rparr>];
     if fd = -1 then State_Monad.return (-1, ws1)
     else step ''pthread_create'' (\<lambda>r. r = 0) [] (-1, ws1) (start_workers_from n (Suc i) ws1) }"

definition start_workers :: "(int \<times> worker list) sysm" where
  "start_workers = start_workers_from POOL_WORKERS 0 []"

text \<open>\<^verbatim>\<open>reserve_worker\<close>: the first worker that is not busy.\<close>

fun reserve_worker :: "worker list \<Rightarrow> int \<times> worker list" where
  "reserve_worker [] = (-1, [])"
| "reserve_worker (w # ws) =
     (if \<not> w_busy w then (w_port w, w\<lparr>w_busy := True\<rparr> # ws)
      else (case reserve_worker ws of (port, ws1) \<Rightarrow> (port, w # ws1)))"

definition pool_answer :: "int \<Rightarrow> string" where
  "pool_answer port =
     (if port = -1 then fit 64 (''BUSY'' @ [CHR 0x0A])
      else fit 64 (''PORT '' @ show_int port @ [CHR 0x0A]))"

text \<open>
  The threads.  \<open>Ask readable writable\<close>: the listener handles a client whose \<^verbatim>\<open>read\<close> and
  \<^verbatim>\<open>write\<close> work or fail.  \<open>Visit i r t ok\<close>: worker \<open>i\<close> accepts, serves and closes a client,
  whoever it is, and marks itself free.
\<close>

datatype pool_action = Ask bool bool | Visit nat read_outcome tm bool

datatype pool_event = Answered_line string bool | Pool_perror string | Served nat "serve_event list"
  | Pool_print string

definition listener_answers :: "bool \<Rightarrow> bool \<Rightarrow> worker list \<Rightarrow> worker list \<times> pool_event list" where
  "listener_answers readable writable ws =
     (if \<not> readable then (ws, [Pool_perror ''read''])
      else (case reserve_worker ws of
              (port, ws1) \<Rightarrow>
                (ws1, Answered_line (pool_answer port) writable #
                      (if writable then [] else [Pool_perror ''write'']))))"

definition worker_visit ::
    "nat \<Rightarrow> read_outcome \<Rightarrow> tm \<Rightarrow> bool \<Rightarrow> worker list \<Rightarrow> worker list \<times> pool_event list" where
  "worker_visit i r t ok ws =
     (if i < length ws then
        (ws[i := (ws ! i)\<lparr>w_busy := False\<rparr>],
         [Served i (serve_time r t ok),
          Pool_print (''worker '' @ show_int (w_id (ws ! i)) @ '' is free'')])
      else (ws, []))"

definition pool_exec :: "pool_action \<Rightarrow> worker list \<Rightarrow> worker list \<times> pool_event list" where
  "pool_exec a ws =
     (case a of Ask readable writable \<Rightarrow> listener_answers readable writable ws
      | Visit i r t ok \<Rightarrow> worker_visit i r t ok ws)"

lemmas pool_exec_defs = pool_exec_def listener_answers_def worker_visit_def

fun pool_run :: "pool_action list \<Rightarrow> worker list \<Rightarrow> worker list \<times> pool_event list" where
  "pool_run [] ws = (ws, [])"
| "pool_run (a # as) ws =
     (case pool_exec a ws of
        (ws1, ev) \<Rightarrow> (case pool_run as ws1 of (ws2, ev2) \<Rightarrow> (ws2, ev @ ev2)))"

definition pool_start :: "worker list" where
  "pool_start = map (\<lambda>i. \<lparr>w_id = int i + 1, w_port = WORKER_PORT_BASE + int i, w_listen_fd = int i + 3,
     w_busy = False\<rparr>) [0..<POOL_WORKERS]"

subsection \<open>The client\<close>

text \<open>\<^verbatim>\<open>sscanf(buffer, "PORT %d", &worker_port)\<close>: a blank in the format skips white space.\<close>

definition scan_port :: "string \<Rightarrow> int option" where
  "scan_port buffer =
     (if starts_with buffer ''PORT'' then map_option fst (scan_d (drop 4 buffer)) else None)"

definition connect_to_port :: "int sysm" where
  "connect_to_port =
     open_fd ''socket'' [] (-1) (\<lambda>fd.
     step ''inet_pton'' is_one [fd] (-1) (
     step ''connect'' worked [fd] (-1) (
     finish [] fd)))"

definition pool_client_main :: "int sysm" where
  "pool_client_main = do {
     fd \<leftarrow> connect_to_port;
     if fd = -1 then State_Monad.return 1
     else send_step ''write'' ''time'' [fd] 1 (
          recv_step ''read'' 127 [fd] 1 (\<lambda>buffer. do {
            release [fd];
            case scan_port buffer of
              None \<Rightarrow> do { say buffer; State_Monad.return 1 }
            | Some port \<Rightarrow> do {
                wfd \<leftarrow> connect_to_port;
                if wfd = -1 then State_Monad.return 1
                else send_step ''write'' ''time'' [wfd] 1 (
                     recv_step ''read'' 127 [wfd] 1 (\<lambda>buffer. do {
                       say (''Current time: '' @ buffer);
                       finish [wfd] 0 })) } })) }"

subsection \<open>Reservations\<close>

text \<open>
  The promise of the pool: a set of reserved workers, of which the first free one is granted.
\<close>

definition grant :: "nat set \<Rightarrow> nat option" where
  "grant S = (case filter (\<lambda>i. i \<notin> S) [0..<POOL_WORKERS] of [] \<Rightarrow> None | i # _ \<Rightarrow> Some i)"

definition grant_line :: "nat option \<Rightarrow> string" where
  "grant_line g =
     (case g of None \<Rightarrow> ''BUSY'' @ [CHR 0x0A]
      | Some i \<Rightarrow> ''PORT '' @ show_int (12520 + int i) @ [CHR 0x0A])"

fun pool_spec :: "pool_action list \<Rightarrow> nat set \<Rightarrow> nat set \<times> string list" where
  "pool_spec [] S = (S, [])"
| "pool_spec (Ask readable _ # as) S =
     (if readable then
        case pool_spec as (case grant S of None \<Rightarrow> S | Some i \<Rightarrow> insert i S) of
          (S', lines) \<Rightarrow> (S', grant_line (grant S) # lines)
      else pool_spec as S)"
| "pool_spec (Visit i _ _ _ # as) S = pool_spec as (S - {i})"

fun answered_line :: "pool_event \<Rightarrow> string list" where
  "answered_line (Answered_line s _) = [s]"
| "answered_line _ = []"

definition busy_set :: "worker list \<Rightarrow> nat set" where
  "busy_set ws = {i. i < length ws \<and> w_busy (ws ! i)}"

definition pool_ok :: "worker list \<Rightarrow> bool" where
  "pool_ok ws \<longleftrightarrow> map w_port ws = [12520, 12521, 12522]"

lemma pool_ok_cases:
  assumes "pool_ok ws"
  obtains a b c where "ws = [a, b, c]" "w_port a = 12520" "w_port b = 12521" "w_port c = 12522"
  using assms by (auto simp: pool_ok_def map_eq_Cons_conv)

lemma busy_set_three:
  "busy_set [a, b, c] = (if w_busy a then {0} else {}) \<union> (if w_busy b then {1} else {}) \<union>
     (if w_busy c then {2} else {})"
proof -
  have three: "i < length [a, b, c] \<longleftrightarrow> i = 0 \<or> i = 1 \<or> i = 2" for i by auto
  show ?thesis unfolding busy_set_def three conj_disj_distribR Collect_disj_eq by auto
qed

lemma pool_answer_lines:
  "pool_answer (-1) = grant_line None" "pool_answer 12520 = grant_line (Some 0)"
  "pool_answer 12521 = grant_line (Some 1)" "pool_answer 12522 = grant_line (Some 2)"
  by (simp_all add: pool_answer_def grant_line_def fit_def show_int_def show_nat.simps)

lemma scan_blank_int: "scan_d (CHR 0x20 # show_int p @ [CHR 0x0A]) = Some (p, [CHR 0x0A])"
proof -
  have "scan_d ([CHR 0x20] @ show_int p @ [CHR 0x0A]) = Some (p, [CHR 0x0A])"
    by (subst scan_d_spaces) (simp_all add: scan_d_show_int is_space_def is_digit_def)
  then show ?thesis by simp
qed

lemma three_workers: "[0..<POOL_WORKERS] = [0, 1, 2]"
  by (simp add: POOL_WORKERS_def upt_rec)

lemma reserve_grants:
  assumes "pool_ok ws" "reserve_worker ws = (port, ws')"
  shows "pool_ok ws' \<and> pool_answer port = grant_line (grant (busy_set ws)) \<and>
    busy_set ws' = (case grant (busy_set ws) of None \<Rightarrow> busy_set ws | Some i \<Rightarrow> insert i (busy_set ws))"
  using assms(1)
proof (cases ws rule: pool_ok_cases)
  case (1 a b c)
  with assms(2) show ?thesis
    by (cases "w_busy a"; cases "w_busy b"; cases "w_busy c")
      (auto simp: grant_def three_workers busy_set_three pool_answer_lines pool_ok_def)
qed

lemma visit_frees:
  assumes "pool_ok ws" "i < length ws"
  shows "pool_ok (ws[i := (ws ! i)\<lparr>w_busy := False\<rparr>]) \<and>
    busy_set (ws[i := (ws ! i)\<lparr>w_busy := False\<rparr>]) = busy_set ws - {i}"
proof
  have "map w_port (ws[i := (ws ! i)\<lparr>w_busy := False\<rparr>]) = map w_port ws"
    using assms(2) by (simp add: map_update list_update_same_conv)
  with assms(1) show "pool_ok (ws[i := (ws ! i)\<lparr>w_busy := False\<rparr>])" by (simp add: pool_ok_def)
  show "busy_set (ws[i := (ws ! i)\<lparr>w_busy := False\<rparr>]) = busy_set ws - {i}"
    using assms(2) by (auto simp: busy_set_def nth_list_update split: if_splits)
qed

text \<open>The connections a worker serves reach it; the ones it does not have do not exist.\<close>

lemma pool_run_spec:
  "pool_ok ws \<Longrightarrow>
   (case pool_run as ws of (ws', ev) \<Rightarrow> pool_ok ws' \<and>
      (busy_set ws', concat (map answered_line ev)) = pool_spec as (busy_set ws))"
proof (induction as arbitrary: ws)
  case (Cons a as)
  show ?case
  proof (cases a)
    case (Ask readable writable)
    obtain port ws1 where r: "reserve_worker ws = (port, ws1)" by fastforce
    from reserve_grants [OF Cons.prems r] Cons.IH [of ws1] Cons.IH [OF Cons.prems] r Ask show ?thesis
      by (auto simp: pool_exec_defs split: prod.splits)
  next
    case (Visit i r t b)
    show ?thesis
    proof (cases "i < length ws")
      case True
      with visit_frees [OF Cons.prems True] Cons.IH [of "ws[i := (ws ! i)\<lparr>w_busy := False\<rparr>]"] Visit
      show ?thesis by (auto simp: pool_exec_defs split: prod.splits)
    next
      case False
      then have "busy_set ws - {i} = busy_set ws" by (auto simp: busy_set_def)
      with False Cons.IH [OF Cons.prems] Visit show ?thesis
        by (auto simp: pool_exec_defs split: prod.splits)
    qed
  qed
qed simp

lemma pool_start_ok [simp]: "pool_ok pool_start" "busy_set pool_start = {}"
  by (simp_all add: pool_ok_def pool_start_def three_workers WORKER_PORT_BASE_def busy_set_three)

text \<open>
  Property C15.  The pool hands out reservations as it promises, in every interleaving of the
  listener and the workers: each request that is read gets the port of the first worker that is
  not reserved, or BUSY when all three are; the worker is reserved from then on and until it has
  served some connection, and no other reservation changes.
\<close>

theorem pool_reservations:
  "case pool_run as pool_start of (ws, ev) \<Rightarrow>
     (busy_set ws, concat (map answered_line ev)) = pool_spec as {}"
  using pool_run_spec [OF pool_start_ok(1), of as] by (auto split: prod.splits)

lemma pool_spec_full:
  "pool_spec (map (Ask True) oks) {0, 1, 2} = ({0, 1, 2}, replicate (length oks) (grant_line None))"
  by (induction oks) (simp_all add: grant_def three_workers)

lemma three_set: "{0, 1, 2} = {2, Suc 0, 0::nat}"
  by auto

text \<open>
  A reservation is only given back by a connection to the worker.  When clients ask
  and then do not connect, or the answer cannot even be written to them, the first three get the
  ports 12520, 12521 and 12522 and every later one BUSY, for ever, although all workers are idle.
\<close>

theorem pool_reservation_leak:
  "case pool_run (map (Ask True) written) pool_start of (ws, ev) \<Rightarrow>
     concat (map answered_line ev) =
       take (length written) (map (\<lambda>i. grant_line (Some i)) [0, 1, 2]) @
       replicate (length written - 3) (''BUSY'' @ [CHR 0x0A])"
proof -
  consider "written = []" | x where "written = [x]" | x y where "written = [x, y]"
    | x y z zs where "written = x # y # z # zs"
    by (metis list.exhaust)
  then have "snd (pool_spec (map (Ask True) written) {}) =
       take (length written) (map (\<lambda>i. grant_line (Some i)) [0, 1, 2]) @
       replicate (length written - 3) (grant_line None)"
    by cases (simp_all add: grant_def three_workers pool_spec_full [unfolded three_set])
  moreover have "grant_line None = ''BUSY'' @ [CHR 0x0A]" by (simp add: grant_line_def)
  ultimately show ?thesis
    using pool_run_spec [OF pool_start_ok(1), of "map (Ask True) written"]
    by (auto split: prod.splits simp: prod_eq_iff)
qed

text \<open>
  What the listener answers is what the client understands: the three answers with a
  port are read back as exactly that port, and BUSY is not read as one.
\<close>

theorem pool_answer_round_trip:
  "map (\<lambda>w. scan_port (pool_answer (w_port w))) pool_start = map (\<lambda>w. Some (w_port w)) pool_start \<and>
   scan_port (pool_answer (-1)) = None"
  by (simp add: pool_start_def three_workers WORKER_PORT_BASE_def pool_answer_lines grant_line_def
      scan_blank_int scan_port_def starts_with_def)

subsection \<open>Descriptors\<close>

lemma pool_listener_owns: "owns [] pool_listener (\<lambda>fd. if fd = -1 then [] else [fd])"
  unfolding pool_listener_def by (intro owns_intros) simp_all

lemma connect_to_port_owns: "owns [] connect_to_port (\<lambda>fd. if fd = -1 then [] else [fd])"
  unfolding connect_to_port_def by (intro owns_intros) simp_all

lemma pool_client_owns: "owns [] pool_client_main (\<lambda>_. [])"
  unfolding pool_client_main_def
  by (rule owns_bind [OF connect_to_port_owns])
    (auto intro!: owns_intros owns_release_then owns_bind [OF connect_to_port_owns]
       split: option.splits)

lemma pool_client_clean: "clean {} pool_client_main"
  unfolding pool_client_main_def connect_to_port_def
  by (auto intro!: clean_intros split: option.splits)

end
