(* ===== verification/Time_Poll.thy ===== *)
theory Time_Poll
  imports Time_Queue "HOL-Library.Word"
begin

text \<open>
  The multi-protocol time server, \<^verbatim>\<open>labs/lab-16/part-2/4/server.c\<close>: one thread, one table of 34
  \<^verbatim>\<open>struct pollfd\<close> whose first two entries are the TCP listener and the UDP socket and whose other
  entries are the clients.  One round of the main loop is \<open>poll_cycle\<close>; what the kernel answers in
  a round is a \<open>poll_env\<close>.
\<close>

unbundle bit_operations_syntax

definition POLL_CLIENTS :: nat where "POLL_CLIENTS = 32"
definition TCP_INDEX :: nat where "TCP_INDEX = 0"
definition UDP_INDEX :: nat where "UDP_INDEX = 1"

definition POLLIN :: "16 word" where "POLLIN = 0x01"
definition POLLERR :: "16 word" where "POLLERR = 0x08"
definition POLLHUP :: "16 word" where "POLLHUP = 0x10"

record pollfd =
  pfd :: int
  events :: "16 word"
  revents :: "16 word"

subsection \<open>Start-up\<close>

definition set_nonblock :: "int sysm" where
  "set_nonblock =
     step ''fcntl'' worked [] (-1) (
     step ''fcntl'' worked [] (-1) (
     finish [] 0))"

definition bind_socket :: "int sysm" where
  "bind_socket =
     open_fd ''socket'' [] (-1) (\<lambda>fd.
     step ''setsockopt'' worked [fd] (-1) (
     step ''inet_pton'' is_one [fd] (-1) (
     step ''bind'' worked [fd] (-1) (do {
       r \<leftarrow> set_nonblock;
       if r = -1 then finish [fd] (-1) else finish [] fd }))))"

definition create_tcp_listener :: "int sysm" where
  "create_tcp_listener = do {
     fd \<leftarrow> bind_socket;
     if fd = -1 then State_Monad.return (-1)
     else step ''listen'' worked [fd] (-1) (finish [] fd) }"

text \<open>\<^verbatim>\<open>main\<close> up to its loop: the code it returns, or the two sockets it serves on.\<close>

definition poll_startup :: "(int + int \<times> int) sysm" where
  "poll_startup = do {
     tcp \<leftarrow> create_tcp_listener;
     if tcp = -1 then State_Monad.return (Inl 1)
     else do {
       udp \<leftarrow> bind_socket;
       if udp = -1 then finish [tcp] (Inl 1) else State_Monad.return (Inr (tcp, udp)) } }"

subsection \<open>The table\<close>

record poll_table =
  slots :: "pollfd list"
  slot_count :: nat

definition poll_start :: "int \<Rightarrow> int \<Rightarrow> poll_table" where
  "poll_start tcp udp =
     \<lparr>slots = [\<lparr>pfd = tcp, events = POLLIN, revents = 0\<rparr>, \<lparr>pfd = udp, events = POLLIN, revents = 0\<rparr>] @
        replicate POLL_CLIENTS \<lparr>pfd = 0, events = 0, revents = 0\<rparr>, slot_count = 2\<rparr>"

datatype poll_event =
    Tcp_accepted int | Tcp_closed int | Tcp_reply int string bool | Udp_reply int string bool
  | Poll_perr string

text \<open>\<^verbatim>\<open>remove_fd\<close>: the last entry takes the place of the removed one.\<close>

definition remove_fd :: "nat \<Rightarrow> poll_table \<Rightarrow> poll_table \<times> poll_event list" where
  "remove_fd index t =
     (\<lparr>slots = swap_remove index (slot_count t) (slots t), slot_count = slot_count t - 1\<rparr>,
      [Tcp_closed (pfd (slots t ! index))])"

text \<open>
  What \<^verbatim>\<open>accept\<close> answers: a client and whether it could be made non-blocking, or a failure, which
  is reported unless it only says that nothing is pending.  An empty list: nothing is pending.
\<close>

datatype accept_outcome = Client int bool | No_client | Accept_fails

fun handle_tcp_listener :: "accept_outcome list \<Rightarrow> poll_table \<Rightarrow> poll_table \<times> poll_event list" where
  "handle_tcp_listener outcomes t =
     (if slot_count t < POLL_CLIENTS + 2 then
        (case outcomes of
           [] \<Rightarrow> (t, [])
         | No_client # _ \<Rightarrow> (t, [])
         | Accept_fails # _ \<Rightarrow> (t, [Poll_perr ''accept''])
         | Client fd ok # rest \<Rightarrow>
             if \<not> ok then
               (case handle_tcp_listener rest t of
                  (t1, ev) \<Rightarrow> (t1, [Tcp_accepted fd, Poll_perr ''fcntl'', Tcp_closed fd] @ ev))
             else
               (case handle_tcp_listener rest
                       \<lparr>slots = (slots t)[slot_count t := \<lparr>pfd = fd, events = POLLIN, revents = 0\<rparr>],
                        slot_count = slot_count t + 1\<rparr> of
                  (t1, ev) \<Rightarrow> (t1, Tcp_accepted fd # ev)))
      else (t, []))"

declare handle_tcp_listener.simps [simp del]

datatype udp_outcome = Datagram int bool | No_datagram | Recv_fails

definition time_text :: "tm \<Rightarrow> string" where
  "time_text t = (case make_time_response 64 t of None \<Rightarrow> [] | Some s \<Rightarrow> s)"

fun handle_udp :: "tm \<Rightarrow> udp_outcome list \<Rightarrow> poll_event list" where
  "handle_udp now [] = []"
| "handle_udp now (No_datagram # _) = []"
| "handle_udp now (Recv_fails # _) = [Poll_perr ''recvfrom'']"
| "handle_udp now (Datagram from sent # rest) =
     Udp_reply from (time_text now) sent # (if sent then [] else [Poll_perr ''sendto'']) @
     handle_udp now rest"

definition handle_tcp_client ::
    "tm \<Rightarrow> read_outcome \<Rightarrow> bool \<Rightarrow> nat \<Rightarrow> poll_table \<Rightarrow> poll_table \<times> poll_event list" where
  "handle_tcp_client now r written index t =
     (case remove_fd index t of
        (t1, ev) \<Rightarrow>
          (t1, (case r of
                  Data _ \<Rightarrow> Tcp_reply (pfd (slots t ! index)) (time_text now) written #
                            (if written then [] else [Poll_perr ''write''])
                | Eof \<Rightarrow> [] | Read_again \<Rightarrow> [] | Read_fail \<Rightarrow> [Poll_perr ''read'']) @ ev))"

lemma handle_tcp_client_table:
  "handle_tcp_client now r written i t = (t1, ev) \<Longrightarrow>
   slots t1 = swap_remove i (slot_count t) (slots t) \<and> slot_count t1 = slot_count t - 1"
  by (auto simp: handle_tcp_client_def remove_fd_def)

subsection \<open>The main loop\<close>

record poll_env =
  polled :: "(int \<Rightarrow> 16 word) option"
  interrupted :: bool
  accepts :: "accept_outcome list"
  datagrams :: "udp_outcome list"
  reads :: "int \<Rightarrow> read_outcome"
  writes :: "int \<Rightarrow> bool"
  clock :: tm

definition is_ready :: "pollfd \<Rightarrow> bool" where
  "is_ready p \<longleftrightarrow> revents p AND (POLLIN OR POLLHUP OR POLLERR) \<noteq> 0"

text \<open>The loop over the clients; after a removal the index stays, for the entry that moved in.\<close>

function serve_ready :: "poll_env \<Rightarrow> nat \<Rightarrow> poll_table \<Rightarrow> poll_table \<times> poll_event list" where
  "serve_ready e i t =
     (if i < slot_count t then
        if is_ready (slots t ! i) then
          (case handle_tcp_client (clock e) (reads e (pfd (slots t ! i))) (writes e (pfd (slots t ! i))) i t of
             (t1, ev) \<Rightarrow> (case serve_ready e i t1 of (t2, ev2) \<Rightarrow> (t2, ev @ ev2)))
        else serve_ready e (i + 1) t
      else (t, []))"
  by pat_completeness auto
termination
  by (relation "measure (\<lambda>(e, i, t). slot_count t - i)")
    (auto dest!: handle_tcp_client_table [OF sym])

declare serve_ready.simps [simp del]

text \<open>\<^verbatim>\<open>poll\<close> writes \<open>revents\<close> of the entries in use.\<close>

definition mark_ready :: "(int \<Rightarrow> 16 word) \<Rightarrow> poll_table \<Rightarrow> poll_table" where
  "mark_ready marks t = t\<lparr>slots := map (\<lambda>p. p\<lparr>revents := marks (pfd p)\<rparr>) (take (slot_count t) (slots t)) @
     drop (slot_count t) (slots t)\<rparr>"

definition poll_cycle :: "poll_env \<Rightarrow> poll_table \<Rightarrow> poll_table \<times> poll_event list" where
  "poll_cycle e t =
     (case polled e of
        None \<Rightarrow> (t, if interrupted e then [] else [Poll_perr ''poll''])
      | Some marks \<Rightarrow>
          let t1 = mark_ready marks t;
              (t2, ev2) = (if revents (slots t1 ! TCP_INDEX) AND POLLIN \<noteq> 0
                           then handle_tcp_listener (accepts e) t1 else (t1, []));
              ev3 = (if revents (slots t2 ! UDP_INDEX) AND POLLIN \<noteq> 0
                     then handle_udp (clock e) (datagrams e) else []);
              (t4, ev4) = serve_ready e 2 t2
          in (t4, ev2 @ ev3 @ ev4))"

fun poll_run :: "poll_env list \<Rightarrow> poll_table \<Rightarrow> poll_table \<times> poll_event list" where
  "poll_run [] t = (t, [])"
| "poll_run (e # es) t =
     (case poll_cycle e t of (t1, ev) \<Rightarrow> (case poll_run es t1 of (t2, ev2) \<Rightarrow> (t2, ev @ ev2)))"

subsection \<open>What a round does\<close>

fun closed_fd :: "poll_event \<Rightarrow> int list" where
  "closed_fd (Tcp_closed fd) = [fd]" | "closed_fd _ = []"

fun accepted_fd :: "poll_event \<Rightarrow> int list" where
  "accepted_fd (Tcp_accepted fd) = [fd]" | "accepted_fd _ = []"

fun replied_fd :: "poll_event \<Rightarrow> int list" where
  "replied_fd (Tcp_reply fd _ _) = [fd]" | "replied_fd _ = []"

definition fds_of :: "(poll_event \<Rightarrow> int list) \<Rightarrow> poll_event list \<Rightarrow> int list" where
  "fds_of f ev = concat (map f ev)"

lemma fds_of_simps [simp]:
  "fds_of f [] = []" "fds_of f (x # ev) = f x @ fds_of f ev" "fds_of f (ev @ ev') = fds_of f ev @ fds_of f ev'"
  by (simp_all add: fds_of_def)

definition clients :: "poll_table \<Rightarrow> pollfd list" where
  "clients t = drop 2 (take (slot_count t) (slots t))"

definition table_ok :: "int \<Rightarrow> int \<Rightarrow> poll_table \<Rightarrow> bool" where
  "table_ok tcp udp t \<longleftrightarrow> length (slots t) = POLL_CLIENTS + 2 \<and> 2 \<le> slot_count t \<and>
     slot_count t \<le> POLL_CLIENTS + 2 \<and> map pfd (take 2 (slots t)) = [tcp, udp]"

text \<open>The clients that a number of free entries lets the listener take.\<close>

fun taken :: "nat \<Rightarrow> accept_outcome list \<Rightarrow> (int \<times> bool) list" where
  "taken (Suc n) (Client fd ok # rest) = (fd, ok) # taken (if ok then n else Suc n) rest"
| "taken _ _ = []"

definition reads_data :: "poll_env \<Rightarrow> int \<Rightarrow> bool" where
  "reads_data e fd = (case reads e fd of Data _ \<Rightarrow> True | Eof \<Rightarrow> False | Read_again \<Rightarrow> False | Read_fail \<Rightarrow> False)"

lemma handle_tcp_client_events:
  "handle_tcp_client (clock e) (reads e (pfd (slots t ! i))) w i t = (t1, ev) \<Longrightarrow>
   fds_of closed_fd ev = [pfd (slots t ! i)] \<and> fds_of accepted_fd ev = [] \<and>
   fds_of replied_fd ev = filter (reads_data e) [pfd (slots t ! i)]"
  by (auto simp: handle_tcp_client_def remove_fd_def reads_data_def split: read_outcome.splits if_splits)

lemma drop_swap_remove:
  assumes "i < c" "c \<le> length a"
  shows "mset (drop i (take c a)) = add_mset (a ! i) (mset (drop i (take (c - 1) (swap_remove i c a))))"
proof (cases "i = c - 1")
  case True
  with assms have "drop i (take c a) = [a ! i]"
    by (metis Cons_nth_drop_Suc Suc_diff_1 drop_eq_Nil length_take less_nat_zero_code linorder_not_le
        min.absorb2 not_gr_zero nth_take order_refl)
  with True show ?thesis by simp
next
  case False
  with assms obtain m where c: "c = Suc m" and im: "i < m" by (cases c) auto
  have "drop i (take c a) = a ! i # drop (Suc i) (take m a) @ [a ! m]"
    using assms im c by (simp add: take_Suc_conv_app_nth Cons_nth_drop_Suc [symmetric])
  moreover have "drop i (take m (a[i := a ! m])) = a ! m # drop (Suc i) (take m a)"
    using assms im c by (subst Cons_nth_drop_Suc [symmetric]) (simp_all add: drop_take)
  ultimately show ?thesis by (simp add: c swap_remove_def)
qed

lemma serve_ready_spec:
  "serve_ready e i t = (t', ev) \<Longrightarrow> i \<le> slot_count t \<Longrightarrow> slot_count t \<le> length (slots t) \<Longrightarrow>
   mset (drop i (take (slot_count t') (slots t'))) =
     filter_mset (\<lambda>p. \<not> is_ready p) (mset (drop i (take (slot_count t) (slots t)))) \<and>
   take i (slots t') = take i (slots t) \<and> length (slots t') = length (slots t) \<and>
   i \<le> slot_count t' \<and> slot_count t' \<le> slot_count t \<and>
   mset (fds_of closed_fd ev) =
     image_mset pfd (filter_mset is_ready (mset (drop i (take (slot_count t) (slots t))))) \<and>
   fds_of accepted_fd ev = [] \<and>
   mset (fds_of replied_fd ev) = filter_mset (reads_data e) (mset (fds_of closed_fd ev))"
proof (induction e i t arbitrary: t' ev rule: serve_ready.induct)
  case (1 e i t)
  note run = 1(3) [unfolded serve_ready.simps [of e i t]]
  let ?a = "slots t" and ?c = "slot_count t"
  show ?case
  proof (cases "i < ?c")
    case False
    with run 1(4,5) show ?thesis by auto
  next
    case inside: True
    show ?thesis
    proof (cases "is_ready (?a ! i)")
      case True
      obtain t1 ev1 where h: "handle_tcp_client (clock e) (reads e (pfd (?a ! i))) (writes e (pfd (?a ! i))) i t = (t1, ev1)"
        by fastforce
      obtain t2 ev2 where r: "serve_ready e i t1 = (t2, ev2)" by fastforce
      have res: "t' = t2" "ev = ev1 @ ev2" using run inside True h r by auto
      note table = handle_tcp_client_table [OF h]
      have IH: "i \<le> slot_count t1 \<Longrightarrow> slot_count t1 \<le> length (slots t1) \<Longrightarrow> ?thesis"
        using 1(1) [OF inside True h [symmetric] r] handle_tcp_client_events [OF h]
          drop_swap_remove [OF inside 1(5)] True table res 1(5) inside
        by (auto simp: swap_remove_def)
      show ?thesis by (rule IH) (use table inside 1(5) in auto)
    next
      case False
      have r: "serve_ready e (i + 1) t = (t', ev)" using run inside False by simp
      have split: "drop i (take ?c ?a) = ?a ! i # drop (i + 1) (take ?c ?a)"
        using inside 1(5) by (simp add: Cons_nth_drop_Suc [symmetric])
      have IH: "mset (drop (i + 1) (take (slot_count t') (slots t'))) =
          filter_mset (\<lambda>p. \<not> is_ready p) (mset (drop (i + 1) (take ?c ?a)))"
        "take (i + 1) (slots t') = take (i + 1) ?a" "length (slots t') = length ?a" "i + 1 \<le> slot_count t'"
        using 1(2) [OF inside False r] inside 1(5) by auto
      have "drop i (take (slot_count t') (slots t')) = slots t' ! i # drop (i + 1) (take (slot_count t') (slots t'))"
        using IH(3,4) inside 1(5) by (simp add: Cons_nth_drop_Suc [symmetric])
      moreover have "slots t' ! i = ?a ! i" using IH(2) by (metis less_add_one nth_take)
      moreover have "take i (slots t') = take i ?a" using IH(2) by (metis le_add1 min.absorb1 take_take)
      ultimately show ?thesis using 1(2) [OF inside False r] inside 1(5) False split by auto
    qed
  qed
qed

lemma handle_tcp_listener_spec:
  "handle_tcp_listener outcomes t = (t', ev) \<Longrightarrow> length (slots t) = POLL_CLIENTS + 2 \<Longrightarrow>
   slot_count t \<le> POLL_CLIENTS + 2 \<Longrightarrow>
   take (slot_count t') (slots t') = take (slot_count t) (slots t) @
     map (\<lambda>(fd, _). \<lparr>pfd = fd, events = POLLIN, revents = 0\<rparr>)
       (filter snd (taken (POLL_CLIENTS + 2 - slot_count t) outcomes)) \<and>
   length (slots t') = POLL_CLIENTS + 2 \<and> slot_count t \<le> slot_count t' \<and> slot_count t' \<le> POLL_CLIENTS + 2 \<and>
   fds_of accepted_fd ev = map fst (taken (POLL_CLIENTS + 2 - slot_count t) outcomes) \<and>
   fds_of closed_fd ev = map fst (filter (\<lambda>x. \<not> snd x) (taken (POLL_CLIENTS + 2 - slot_count t) outcomes)) \<and>
   fds_of replied_fd ev = []"
proof (induction outcomes arbitrary: t t' ev)
  case Nil
  then show ?case by (auto simp: handle_tcp_listener.simps split: if_splits)
next
  case (Cons x xs)
  show ?case
  proof (cases "slot_count t < POLL_CLIENTS + 2")
    case False
    with Cons.prems show ?thesis by (auto simp: handle_tcp_listener.simps)
  next
    case True
    then obtain n where n: "POLL_CLIENTS + 2 - slot_count t = Suc n"
      and n': "POLL_CLIENTS + 2 - Suc (slot_count t) = n" by (metis Suc_diff_Suc)
    note run = Cons.prems(1) [unfolded handle_tcp_listener.simps [of "x # xs" t]]
    show ?thesis
    proof (cases x)
      case (Client fd ok)
      show ?thesis
      proof (cases ok)
        case True
        let ?p = "\<lparr>pfd = fd, events = POLLIN, revents = 0\<rparr>"
        let ?t = "\<lparr>slots = (slots t)[slot_count t := ?p], slot_count = slot_count t + 1\<rparr>"
        obtain t1 ev1 where h: "handle_tcp_listener xs ?t = (t1, ev1)" by fastforce
        have res: "t' = t1" "ev = Tcp_accepted fd # ev1"
          using run h Client True \<open>slot_count t < POLL_CLIENTS + 2\<close> by auto
        have "take (Suc (slot_count t)) ((slots t)[slot_count t := ?p]) = take (slot_count t) (slots t) @ [?p]"
          using \<open>slot_count t < POLL_CLIENTS + 2\<close> Cons.prems(2) by (simp add: take_Suc_conv_app_nth)
        with Cons.IH [OF h] Cons.prems(2,3) True Client n n' res \<open>slot_count t < POLL_CLIENTS + 2\<close>
        show ?thesis by auto
      next
        case False
        obtain t1 ev1 where h: "handle_tcp_listener xs t = (t1, ev1)" by fastforce
        have res: "t' = t1" "ev = [Tcp_accepted fd, Poll_perr ''fcntl'', Tcp_closed fd] @ ev1"
          using run h Client False \<open>slot_count t < POLL_CLIENTS + 2\<close> by auto
        with Cons.IH [OF h Cons.prems(2,3)] Client False n show ?thesis by auto
      qed
    qed (use run True Cons.prems n in auto)
  qed
qed

lemma handle_udp_events:
  "fds_of closed_fd (handle_udp now ds) = []" "fds_of accepted_fd (handle_udp now ds) = []"
  "fds_of replied_fd (handle_udp now ds) = []"
  by (induction now ds rule: handle_udp.induct) auto

text \<open>A round, as a function of the clients before it and of what the kernel answers.\<close>

definition round_ready :: "(int \<Rightarrow> 16 word) \<Rightarrow> int \<Rightarrow> bool" where
  "round_ready marks fd \<longleftrightarrow> marks fd AND (POLLIN OR POLLHUP OR POLLERR) \<noteq> 0"

definition round_new :: "int \<Rightarrow> poll_env \<Rightarrow> (int \<Rightarrow> 16 word) \<Rightarrow> nat \<Rightarrow> (int \<times> bool) list" where
  "round_new tcp e marks n =
     (if marks tcp AND POLLIN \<noteq> 0 then taken (POLL_CLIENTS - n) (accepts e) else [])"

definition round_spec :: "int \<Rightarrow> poll_env \<Rightarrow> (int \<Rightarrow> 16 word) \<Rightarrow> int list \<Rightarrow> int list \<Rightarrow> poll_event list \<Rightarrow> bool" where
  "round_spec tcp e marks old kept ev \<longleftrightarrow>
     (let new = round_new tcp e marks (length old) in
      mset kept = mset (filter (\<lambda>fd. \<not> round_ready marks fd) old) + mset (map fst (filter snd new)) \<and>
      mset (fds_of closed_fd ev) = mset (filter (round_ready marks) old) +
        mset (map fst (filter (\<lambda>x. \<not> snd x) new)) \<and>
      fds_of accepted_fd ev = map fst new \<and>
      mset (fds_of replied_fd ev) = filter_mset (reads_data e) (mset (filter (round_ready marks) old)))"

lemma mark_ready_table:
  assumes "table_ok tcp udp t"
  shows "table_ok tcp udp (mark_ready marks t)" "slot_count (mark_ready marks t) = slot_count t"
    "clients (mark_ready marks t) = map (\<lambda>p. p\<lparr>revents := marks (pfd p)\<rparr>) (clients t)"
    "revents (slots (mark_ready marks t) ! TCP_INDEX) = marks tcp"
proof -
  let ?f = "\<lambda>p. p\<lparr>revents := marks (pfd p)\<rparr>"
  have c: "2 \<le> slot_count t" "slot_count t \<le> length (slots t)" using assms by (auto simp: table_ok_def)
  have pfds: "map pfd (map ?f xs) = map pfd xs" for xs by simp
  have two: "take 2 (slots (mark_ready marks t)) = map ?f (take 2 (slots t))"
    using c by (simp add: mark_ready_def take_map min_def)
  show "table_ok tcp udp (mark_ready marks t)"
    using assms c two by (simp add: table_ok_def mark_ready_def pfds del: map_map)
  show "slot_count (mark_ready marks t) = slot_count t" by (simp add: mark_ready_def)
  show "clients (mark_ready marks t) = map ?f (clients t)"
    using c by (simp add: mark_ready_def clients_def drop_map)
  have "0 < length (slots t)" using c by linarith
  then have hd: "pfd (slots t ! 0) = tcp"
    using assms by (cases "slots t") (auto simp: table_ok_def numeral_2_eq_2)
  have "slots (mark_ready marks t) ! 0 = ?f (slots t ! 0)"
    using c by (simp add: mark_ready_def nth_append)
  then show "revents (slots (mark_ready marks t) ! TCP_INDEX) = marks tcp"
    by (simp add: TCP_INDEX_def hd)
qed

lemma listen_table:
  assumes "table_ok tcp udp t" "(if b then handle_tcp_listener outcomes t else (t, [])) = (t', ev)"
  shows "table_ok tcp udp t' \<and> clients t' = clients t @
      map (\<lambda>(fd, _). \<lparr>pfd = fd, events = POLLIN, revents = 0\<rparr>)
        (filter snd (if b then taken (POLL_CLIENTS - length (clients t)) outcomes else [])) \<and>
    fds_of accepted_fd ev = map fst (if b then taken (POLL_CLIENTS - length (clients t)) outcomes else []) \<and>
    fds_of closed_fd ev =
      map fst (filter (\<lambda>x. \<not> snd x) (if b then taken (POLL_CLIENTS - length (clients t)) outcomes else [])) \<and>
    fds_of replied_fd ev = []"
proof (cases b)
  case False
  with assms show ?thesis by auto
next
  case True
  have t: "length (slots t) = POLL_CLIENTS + 2" "slot_count t \<le> POLL_CLIENTS + 2" "2 \<le> slot_count t"
    using assms(1) by (auto simp: table_ok_def)
  have room: "POLL_CLIENTS - length (clients t) = POLL_CLIENTS + 2 - slot_count t"
    using t by (simp add: clients_def)
  have run: "handle_tcp_listener outcomes t = (t', ev)" using assms(2) True by simp
  note spec = handle_tcp_listener_spec [OF run t(1,2)]
  have "take 2 (slots t') = take 2 (take (slot_count t') (slots t'))"
    using conjunct1 [OF conjunct2 [OF conjunct2 [OF spec]]] t(3) by (simp add: min_absorb1)
  also have "\<dots> = take 2 (take (slot_count t) (slots t))"
    using t by (subst conjunct1 [OF spec]) (simp add: min_absorb1)
  finally have "take 2 (slots t') = take 2 (slots t)" using t(3) by (simp add: min_absorb1)
  with spec t assms(1) True show ?thesis unfolding room by (auto simp: clients_def table_ok_def)
qed

lemma serve_table:
  assumes "table_ok tcp udp t" "serve_ready e 2 t = (t', ev)"
  shows "table_ok tcp udp t' \<and>
    mset (clients t') = filter_mset (\<lambda>p. \<not> is_ready p) (mset (clients t)) \<and>
    mset (fds_of closed_fd ev) = image_mset pfd (filter_mset is_ready (mset (clients t))) \<and>
    fds_of accepted_fd ev = [] \<and>
    mset (fds_of replied_fd ev) = filter_mset (reads_data e) (mset (fds_of closed_fd ev))"
  using serve_ready_spec [OF assms(2)] assms(1) by (auto simp: table_ok_def clients_def)

lemma poll_cycle_spec:
  assumes "table_ok tcp udp t" "poll_cycle e t = (t', ev)" "polled e = Some marks"
  shows "table_ok tcp udp t' \<and> round_spec tcp e marks (map pfd (clients t)) (map pfd (clients t')) ev"
proof -
  let ?t1 = "mark_ready marks t" and ?b = "marks tcp AND POLLIN \<noteq> 0"
  let ?new = "if ?b then taken (POLL_CLIENTS - length (clients t)) (accepts e) else []"
  note m = mark_ready_table [OF assms(1), of marks]
  obtain t2 ev2 where l: "(if ?b then handle_tcp_listener (accepts e) ?t1 else (?t1, [])) = (t2, ev2)"
    by fastforce
  obtain t4 ev4 where s: "serve_ready e 2 t2 = (t4, ev4)" by fastforce
  obtain ev3 where ev3: "ev = ev2 @ ev3 @ ev4" "t' = t4"
      "ev3 = handle_udp (clock e) (datagrams e) \<or> ev3 = []"
    using assms(2,3) l s m(4) by (auto simp: poll_cycle_def Let_def split: if_splits)
  have ev3_fds: "fds_of closed_fd ev3 = []" "fds_of accepted_fd ev3 = []" "fds_of replied_fd ev3 = []"
    using ev3(3) handle_udp_events by auto
  note L = listen_table [OF m(1) l]
  note S = serve_table [OF conjunct1 [OF L] s]
  have len: "length (clients ?t1) = length (clients t)" by (simp add: m(3))
  have fresh: "\<not> is_ready \<lparr>pfd = fd, events = POLLIN, revents = 0\<rparr>" for fd by (simp add: is_ready_def)
  have rdy: "is_ready (p\<lparr>revents := marks (pfd p)\<rparr>) = round_ready marks (pfd p)" for p
    by (simp add: is_ready_def round_ready_def)
  have ready: "image_mset pfd (filter_mset is_ready (mset (clients t2))) =
      mset (filter (round_ready marks) (map pfd (clients t)))"
    using L by (simp add: m(3) len filter_map o_def rdy fresh case_prod_unfold flip: mset_filter mset_map)
  have unready: "image_mset pfd (filter_mset (\<lambda>p. \<not> is_ready p) (mset (clients t2))) =
      mset (filter (\<lambda>fd. \<not> round_ready marks fd) (map pfd (clients t))) + mset (map fst (filter snd ?new))"
    using L by (simp add: m(3) len filter_map o_def rdy fresh case_prod_unfold flip: mset_filter mset_map)
  have kept: "mset (map pfd (clients t')) =
      image_mset pfd (filter_mset (\<lambda>p. \<not> is_ready p) (mset (clients t2)))" using S ev3(2) by simp
  have new: "round_new tcp e marks (length (map pfd (clients t))) = ?new" by (simp add: round_new_def)
  have "round_spec tcp e marks (map pfd (clients t)) (map pfd (clients t')) ev"
    unfolding round_spec_def new Let_def
    using S L ev3_fds ready unready kept by (simp add: ev3(1) len)
  with S ev3(2) show ?thesis by simp
qed

lemma poll_cycle_failed:
  "polled e = None \<Longrightarrow> poll_cycle e t = (t', ev) \<Longrightarrow> t' = t \<and> fds_of closed_fd ev = [] \<and> fds_of accepted_fd ev = []"
  by (auto simp: poll_cycle_def split: if_splits)

lemma mset_filter_halves: "mset (filter P xs) + mset (filter (\<lambda>x. \<not> P x) xs) = mset xs"
  by (simp add: multiset_partition [symmetric] add.commute)

lemma round_balance:
  assumes "round_spec tcp e marks old kept ev"
  shows "mset (fds_of accepted_fd ev) + mset old = mset (fds_of closed_fd ev) + mset kept"
proof -
  let ?new = "round_new tcp e marks (length old)"
  from assms have r: "mset kept = mset (filter (\<lambda>fd. \<not> round_ready marks fd) old) + mset (map fst (filter snd ?new))"
    "mset (fds_of closed_fd ev) = mset (filter (round_ready marks) old) + mset (map fst (filter (\<lambda>x. \<not> snd x) ?new))"
    "fds_of accepted_fd ev = map fst ?new"
    by (simp_all add: round_spec_def Let_def)
  have "mset (map fst ?new) = mset (map fst (filter snd ?new)) + mset (map fst (filter (\<lambda>x. \<not> snd x) ?new))"
    using arg_cong [OF mset_filter_halves [of snd ?new], of "image_mset fst"]
    by (simp only: image_mset_union mset_map)
  moreover have "mset old = mset (filter (round_ready marks) old) + mset (filter (\<lambda>fd. \<not> round_ready marks fd) old)"
    using mset_filter_halves by metis
  ultimately show ?thesis unfolding r by simp
qed

lemma poll_run_balance:
  "table_ok tcp udp t \<Longrightarrow> poll_run es t = (t', ev) \<Longrightarrow> table_ok tcp udp t' \<and>
   mset (fds_of accepted_fd ev) + mset (map pfd (clients t)) =
     mset (fds_of closed_fd ev) + mset (map pfd (clients t'))"
proof (induction es arbitrary: t ev)
  case (Cons e es)
  obtain t1 ev1 where c: "poll_cycle e t = (t1, ev1)" by fastforce
  obtain ev2 where r: "poll_run es t1 = (t', ev2)" and ev: "ev = ev1 @ ev2"
    using Cons.prems(2) c by (auto split: prod.splits)
  have "table_ok tcp udp t1 \<and> mset (fds_of accepted_fd ev1) + mset (map pfd (clients t)) =
      mset (fds_of closed_fd ev1) + mset (map pfd (clients t1))"
  proof (cases "polled e")
    case None
    with poll_cycle_failed [OF None c] Cons.prems(1) show ?thesis by simp
  next
    case (Some marks)
    with poll_cycle_spec [OF Cons.prems(1) c] round_balance show ?thesis by blast
  qed
  with Cons.IH [OF _ r] show ?case by (simp add: ev) (metis add.assoc add.commute add_left_cancel)
qed simp

lemma poll_start_ok: "table_ok tcp udp (poll_start tcp udp)" "clients (poll_start tcp udp) = []"
  by (simp_all add: table_ok_def poll_start_def clients_def numeral_2_eq_2)

text \<open>
  Property C16.  Whatever clients, failures and readiness the rounds meet: the table keeps the two
  server sockets in its first entries and never holds more than 32 clients, and every descriptor
  that \<^verbatim>\<open>accept\<close> ever returned is either closed, once, or in the table, once.
\<close>

theorem poll_descriptors:
  "case poll_run es (poll_start tcp udp) of
     (t, ev) \<Rightarrow> table_ok tcp udp t \<and> length (clients t) \<le> 32 \<and>
       mset (fds_of accepted_fd ev) = mset (fds_of closed_fd ev) + mset (map pfd (clients t))"
proof -
  obtain t ev where r: "poll_run es (poll_start tcp udp) = (t, ev)" by fastforce
  have "table_ok tcp udp t \<Longrightarrow> length (clients t) \<le> 32"
    by (auto simp: table_ok_def clients_def POLL_CLIENTS_def)
  with poll_run_balance [OF poll_start_ok(1) r] poll_start_ok(2) show ?thesis by (simp add: r)
qed

text \<open>
  Property C17.  One round after any history: exactly the clients that \<^verbatim>\<open>poll\<close> reports are handled,
  each once, although the last entry moves into the freed one during the loop; those whose request
  could be read get a reply, all of them are closed, the others stay, and the new clients that
  fit and could be made non-blocking are added.
\<close>

theorem poll_round:
  "case poll_run es (poll_start tcp udp) of
     (t, _) \<Rightarrow> (case poll_cycle e t of
        (t', ev) \<Rightarrow> (case polled e of
           None \<Rightarrow> t' = t
         | Some marks \<Rightarrow> round_spec tcp e marks (map pfd (clients t)) (map pfd (clients t')) ev))"
proof -
  obtain t ev0 where r: "poll_run es (poll_start tcp udp) = (t, ev0)" by fastforce
  obtain t' ev where c: "poll_cycle e t = (t', ev)" by fastforce
  have "table_ok tcp udp t" using poll_run_balance [OF poll_start_ok(1) r] by simp
  from poll_cycle_spec [OF this c] poll_cycle_failed [OF _ c] r c show ?thesis
    by (auto split: option.splits)
qed

subsection \<open>Descriptors of the start-up\<close>

lemma set_nonblock_owns: "owns H set_nonblock (\<lambda>_. H)"
  unfolding set_nonblock_def by (intro owns_intros) simp_all

lemma bind_socket_owns: "owns [] bind_socket (\<lambda>fd. if fd = -1 then [] else [fd])"
  unfolding bind_socket_def
  by (auto intro!: owns_intros owns_bind [OF set_nonblock_owns])

lemma create_tcp_listener_owns: "owns [] create_tcp_listener (\<lambda>fd. if fd = -1 then [] else [fd])"
  unfolding create_tcp_listener_def
  by (rule owns_bind [OF bind_socket_owns]) (auto intro!: owns_intros)

lemma owns_keep: "owns H m R \<Longrightarrow> owns (H @ K) m (\<lambda>r. R r @ K)"
  by (auto simp: owns_def) (metis (no_types, lifting) add.assoc union_assoc)

lemma poll_startup_owns:
  "owns [] poll_startup (\<lambda>r. case r of Inl _ \<Rightarrow> [] | Inr (tcp, udp) \<Rightarrow> [tcp, udp])"
  unfolding poll_startup_def
proof (rule owns_bind [OF create_tcp_listener_owns])
  fix tcp :: int
  have eq: "(\<lambda>fd. (if fd = -1 then [] else [fd]) @ [tcp]) = (\<lambda>fd. if fd = -1 then [tcp] else [fd, tcp])"
    by auto
  have udp: "owns [tcp] bind_socket (\<lambda>fd. if fd = -1 then [tcp] else [fd, tcp])"
    using owns_keep [OF bind_socket_owns, of "[tcp]"] by (simp only: eq append_Nil)
  show "owns (if tcp = -1 then [] else [tcp])
     (if tcp = -1 then State_Monad.return (Inl 1)
      else do { udp \<leftarrow> bind_socket;
                if udp = -1 then finish [tcp] (Inl 1) else State_Monad.return (Inr (tcp, udp)) })
     (\<lambda>r. case r of Inl _ \<Rightarrow> [] | Inr (tcp, udp) \<Rightarrow> [tcp, udp])"
    by (auto intro!: owns_intros owns_bind [OF udp])
qed

end
