(* ===== verification/Raw_Headers.thy ===== *)
theory Raw_Headers
  imports Raw_Echo_System Sockets
begin

text \<open>
  The programs that build their own headers, \<^verbatim>\<open>labs/lab-16/part-4\<close>: three clients that send a
  UDP datagram behind a UDP header (1), an IP header with its checksum (2) and an Ethernet frame
  (3), the search for the answer in the frames of a packet socket, and the server.  Memory is the
  list of its bytes; a 16-bit load or store puts the low byte first, as the machines the course
  uses do.
\<close>

unbundle bit_operations_syntax

subsection \<open>The Internet checksum\<close>

definition load16 :: "byte \<Rightarrow> byte \<Rightarrow> 16 word" where
  "load16 a b = ucast a OR push_bit 8 (ucast b)"

definition store16 :: "byte list \<Rightarrow> nat \<Rightarrow> 16 word \<Rightarrow> byte list" where
  "store16 p i w = p[i := ucast w, Suc i := ucast (drop_bit 8 w)]"

text \<open>The two loops of \<^verbatim>\<open>checksum\<close>: the sum in 32 bits, and the folding of its upper half.\<close>

fun sum_words :: "byte list \<Rightarrow> 32 word \<Rightarrow> 32 word" where
  "sum_words (a # b # r) s = sum_words r (s + ucast (load16 a b))"
| "sum_words [a] s = s + ucast a"
| "sum_words [] s = s"

lemma fold_halves:
  "unat (w :: 32 word) = 65536 * unat (drop_bit 16 w) + unat (w AND 0xffff)"
    "unat (w AND 0xffff) < 65536" "unat (drop_bit 16 w) < 65536"
proof -
  have mask: "(0xffff :: 32 word) = mask 16" by (simp add: mask_eq_exp_minus_1)
  have low: "unat (w AND 0xffff) = unat w mod 65536"
    unfolding mask take_bit_eq_mask [symmetric] unsigned_take_bit_eq by (simp add: take_bit_eq_mod)
  have high: "unat (drop_bit 16 w) = unat w div 65536"
    unfolding unat_drop_bit_eq by (simp add: drop_bit_eq_div)
  show "unat w = 65536 * unat (drop_bit 16 w) + unat (w AND 0xffff)" by (simp add: low high)
  show "unat (w AND 0xffff) < 65536" by (simp add: low)
  have "unat w < 2 ^ 32" using unsigned_less [of w] by simp
  then show "unat (drop_bit 16 w) < 65536" by (simp add: high less_mult_imp_div_less)
qed

lemma fold_step:
  "unat ((w AND 0xffff) + drop_bit 16 (w :: 32 word)) = unat (w AND 0xffff) + unat (drop_bit 16 w)"
proof (rule unat_add_lem [THEN iffD1])
  show "unat (w AND 0xffff) + unat (drop_bit 16 w) < 2 ^ LENGTH(32)"
    using fold_halves(2,3) [of w] by simp
qed

function fold_carry :: "32 word \<Rightarrow> 32 word" where
  "fold_carry w = (if drop_bit 16 w \<noteq> 0 then fold_carry ((w AND 0xffff) + drop_bit 16 w) else w)"
  by pat_completeness auto
termination
proof (relation "measure unat", goal_cases)
  case (2 w)
  then have "unat (drop_bit 16 w) \<noteq> 0" by (simp add: unat_eq_0)
  then show ?case using fold_halves(1) [of w] by (simp add: fold_step)
qed simp

declare fold_carry.simps [simp del]

definition checksum :: "byte list \<Rightarrow> 16 word" where
  "checksum data = NOT (ucast (fold_carry (sum_words data 0)))"

text \<open>The reference: the sum of the words in memory order, as a one's complement number.\<close>

fun mem_sum :: "byte list \<Rightarrow> nat" where
  "mem_sum (a # b # r) = unat a + 256 * unat b + mem_sum r"
| "mem_sum [a] = unat a"
| "mem_sum [] = 0"

definition ones_sum :: "nat \<Rightarrow> nat" where
  "ones_sum n = (if n = 0 then 0 else (n - 1) mod 65535 + 1)"

lemma ones_sum_small [simp]: "n < 65536 \<Longrightarrow> ones_sum n = n"
  by (cases n) (auto simp: ones_sum_def)

lemma ones_sum_bound: "ones_sum n < 65536"
  using mod_less_divisor [of 65535 "n - 1"] by (simp add: ones_sum_def)

lemma ones_sum_fold: "ones_sum (65536 * h + l) = ones_sum (h + l)"
proof (cases "h = 0")
  case False
  then have "65536 * h + l - 1 = (h + l - 1) + 65535 * h" by simp
  then have "(65536 * h + l - 1) mod 65535 = (h + l - 1) mod 65535" by (simp only: mod_mult_self2)
  with False show ?thesis by (simp add: ones_sum_def)
qed simp

lemma fold_carry_ones: "unat (fold_carry w) = ones_sum (unat w)"
proof (induction w rule: fold_carry.induct)
  case (1 w)
  show ?case
  proof (cases "drop_bit 16 w = 0")
    case True
    then have "unat w < 65536" using fold_halves(1,2) [of w] by simp
    with True show ?thesis by (simp add: fold_carry.simps [of w])
  next
    case False
    have "unat (fold_carry w) = ones_sum (unat (drop_bit 16 w) + unat (w AND 0xffff))"
      using 1 False fold_step [of w] by (simp add: fold_carry.simps [of w] add.commute)
    also have "\<dots> = ones_sum (unat w)" using ones_sum_fold fold_halves(1) [of w] by metis
    finally show ?thesis .
  qed
qed

lemma byte_small: "unat (b :: byte) < 256"
  using unsigned_less [of b] by simp

lemma byte_widen:
  "unat (ucast (b :: byte) :: 16 word) = unat b" "unat (ucast b :: 32 word) = unat b"
  using byte_small [of b] by (simp_all add: unsigned_ucast_eq take_bit_nat_eq_self)

lemma unat_load16: "unat (load16 a b) = unat a + 256 * unat b"
proof -
  have a: "unat a < 256" and b: "unat b < 256" using unsigned_less [of a] unsigned_less [of b] by simp_all
  have "load16 a b = ucast a + push_bit 8 (ucast b)"
    unfolding load16_def
    by (rule disjunctive_add [symmetric]) (auto simp: bit_push_bit_iff bit_ucast_iff dest: bit_imp_le_length)
  moreover have hi: "unat (push_bit 8 (ucast b :: 16 word)) = 256 * unat b"
    unfolding unsigned_push_bit_eq byte_widen using b by (simp add: push_bit_eq_mult take_bit_nat_eq_self)
  ultimately show ?thesis using a b by (simp add: unat_add_lem [THEN iffD1] byte_widen)
qed

lemma mem_sum_bound: "mem_sum d \<le> 65535 * ((length d + 1) div 2)"
proof (induction d rule: mem_sum.induct)
  case (1 a b r)
  have "unat a < 256" "unat b < 256" using unsigned_less [of a] unsigned_less [of b] by simp_all
  with 1 show ?case by simp
next
  case (2 a)
  have "unat a < 256" using unsigned_less [of a] by simp
  then show ?case by simp
qed simp

lemma sum_words_mem_sum:
  "unat s + mem_sum d < 2 ^ 32 \<Longrightarrow> unat (sum_words d s) = unat s + mem_sum d"
proof (induction d s rule: sum_words.induct)
  case (1 a b r s)
  have w: "unat (ucast (load16 a b) :: 32 word) = unat a + 256 * unat b"
    using unat_load16 [of a b] byte_small [of a] byte_small [of b]
    by (simp add: unsigned_ucast_eq take_bit_nat_eq_self)
  have "unat (s + ucast (load16 a b)) = unat s + (unat a + 256 * unat b)"
    using 1(2) by (subst unat_add_lem [THEN iffD1]) (simp_all add: w)
  with 1 show ?case by simp
next
  case (2 a s)
  then show ?case by (simp add: unat_add_lem [THEN iffD1] byte_widen)
qed simp

lemma unat_not16: "unat (NOT (x :: 16 word)) = 65535 - unat x"
proof -
  have "x \<le> - 1" by (rule word_n1_ge)
  then have "unat (- 1 - x) = unat (- 1 :: 16 word) - unat x" by (rule unat_sub)
  moreover have "NOT x = - 1 - x" by (simp add: not_eq_complement)
  moreover have "unat (- 1 :: 16 word) = 65535" by (simp add: unsigned_minus_1_eq_mask mask_eq_exp_minus_1)
  ultimately show ?thesis by (simp only:)
qed

lemma checksum_ones:
  assumes "length d \<le> 65535"
  shows "unat (checksum d) = 65535 - ones_sum (mem_sum d)"
proof -
  have "mem_sum d < 2 ^ 32" using mem_sum_bound [of d] assms by simp
  then have "unat (fold_carry (sum_words d 0)) = ones_sum (mem_sum d)"
    by (simp add: fold_carry_ones sum_words_mem_sum)
  with ones_sum_bound [of "mem_sum d"] show ?thesis
    by (simp add: checksum_def unat_not16 unsigned_ucast_eq take_bit_nat_eq_self)
qed

lemma ones_sum_complement: "ones_sum (n + (65535 - ones_sum n)) = 65535"
proof (cases "n = 0")
  case False
  define q m where "q = (n - 1) div 65535" and "m = (n - 1) mod 65535"
  have n: "n = 65535 * q + m + 1" and m: "m < 65535"
    using False div_mult_mod_eq [of "n - 1" 65535] by (simp_all add: q_def m_def)
  have "ones_sum n = m + 1" using False by (simp add: ones_sum_def m_def)
  then have "n + (65535 - ones_sum n) - 1 = 65534 + 65535 * q" using m by (simp add: n)
  then have "(n + (65535 - ones_sum n) - 1) mod 65535 = 65534" by simp
  with False show ?thesis by (simp add: ones_sum_def)
qed simp

lemma mem_sum_store16:
  "even i \<Longrightarrow> Suc i < length p \<Longrightarrow> p ! i = 0 \<Longrightarrow> p ! Suc i = 0 \<Longrightarrow>
   mem_sum (store16 p i w) = mem_sum p + unat w"
proof (induction p arbitrary: i rule: mem_sum.induct)
  case (1 a b r)
  show ?case
  proof (cases "i = 0")
    case True
    have "unat (ucast w :: byte) + 256 * unat (ucast (drop_bit 8 w) :: byte) = unat w"
    proof -
      have "unat w < 65536" using unsigned_less [of w] by simp
      then have "unat w div 256 mod 256 = unat w div 256" by simp
      moreover have "unat (drop_bit 8 w) = unat w div 256"
        unfolding unat_drop_bit_eq by (simp add: drop_bit_eq_div)
      ultimately have "unat (ucast (drop_bit 8 w) :: byte) = unat w div 256"
        by (simp only: unsigned_ucast_eq take_bit_eq_mod) simp
      moreover have "unat (ucast w :: byte) = unat w mod 256"
        by (simp only: unsigned_ucast_eq take_bit_eq_mod) simp
      ultimately show ?thesis by simp
    qed
    with True 1(4,5) show ?thesis by (simp add: store16_def)
  next
    case False
    from 1(2) obtain k where "i = 2 * k" by (elim evenE)
    with False obtain m where "k = Suc m" by (cases k) auto
    with \<open>i = 2 * k\<close> have j: "i = Suc (Suc (2 * m))" by simp
    with 1(1) [of "2 * m"] 1(3-5) show ?thesis by (simp add: store16_def)
  qed
qed auto

text \<open>
  Property C19.  \<^verbatim>\<open>checksum\<close> is the Internet checksum: for data of up to 65535 bytes its 32-bit sum
  does not overflow, the folding loop ends, and the result is the complement of the one's
  complement sum of the words in memory.  So a header whose checksum field was zero, and now
  holds what \<^verbatim>\<open>checksum\<close> returned for it, verifies: its own checksum is 0.
\<close>

theorem checksum_verifies:
  assumes "length p \<le> 65535" "even i" "Suc i < length p" "p ! i = 0" "p ! Suc i = 0"
  shows "unat (checksum p) = 65535 - ones_sum (mem_sum p) \<and> checksum (store16 p i (checksum p)) = 0"
proof
  show sum: "unat (checksum p) = 65535 - ones_sum (mem_sum p)" using assms(1) by (rule checksum_ones)
  have "unat (checksum (store16 p i (checksum p))) = 0"
    using assms by (subst checksum_ones)
      (simp_all add: mem_sum_store16 sum ones_sum_complement, simp add: store16_def)
  then show "checksum (store16 p i (checksum p)) = 0" by (simp add: unat_eq_0)
qed

subsection \<open>The packets the clients send\<close>

definition IP_CHECK :: nat where "IP_CHECK = 10"

text \<open>\<^verbatim>\<open>struct iphdr\<close> filled field by field, for 127.0.0.1 to itself, before and after the checksum.\<close>

definition ip_fields :: "nat \<Rightarrow> byte list" where
  "ip_fields tot = [0x45, 0] @ net16 (of_nat tot) @ net16 1 @ [0, 0, 64, IPPROTO_UDP, 0, 0] @
     [127, 0, 0, 1] @ [127, 0, 0, 1]"

definition ip_header :: "nat \<Rightarrow> byte list" where
  "ip_header tot = store16 (ip_fields tot) IP_CHECK (checksum (ip_fields tot))"

definition raw_udp_packet :: "byte list" where
  "raw_udp_packet = udp_packet 12701 SERVER_PORT ''raw udp header''"

definition raw_ip_packet :: "byte list" where
  "raw_ip_packet = ip_header (20 + 8 + 13) @ udp_packet 12702 SERVER_PORT ''raw ip header''"

text \<open>The frame of the third client; only the part behind the 14 bytes of \<^verbatim>\<open>struct ethhdr\<close> is sent.\<close>

definition raw_eth_packet :: "byte list" where
  "raw_eth_packet = replicate 12 0 @ net16 0x0800 @
     ip_header (20 + 8 + 19) @ udp_packet 12703 SERVER_PORT ''raw ethernet header''"

lemma checksum_verifies_witness:
  "unat (checksum (ip_fields 41)) = 65535 - ones_sum (mem_sum (ip_fields 41)) \<and>
   checksum (store16 (ip_fields 41) 10 (checksum (ip_fields 41))) = 0"
proof (rule checksum_verifies)
  have "length (ip_fields 41) = 20" "ip_fields 41 ! 10 = 0" "ip_fields 41 ! 11 = 0" by code_simp+
  then show "length (ip_fields 41) \<le> 65535" "Suc 10 < length (ip_fields 41)"
    "ip_fields 41 ! 10 = 0" "ip_fields 41 ! Suc 10 = 0" by simp_all
qed simp

subsection \<open>Waiting for the answer\<close>

text \<open>
  \<^verbatim>\<open>wait_response\<close> looks for an IPv4 UDP header at the offsets 0, 4 and 14 of each received
  frame.  The packet array keeps what earlier frames left behind the received bytes.  The code
  ends the text in the array at the place the UDP length names; a place outside the array (or a
  length below 8, which wraps in \<^verbatim>\<open>size_t\<close>) is \<open>Overrun\<close>: the write is undefined.
\<close>

definition PACKET_SIZE :: nat where "PACKET_SIZE = 512"

datatype raw_result = Response string | Recv_error | Overrun | Still_waiting

definition ip_version :: "byte list \<Rightarrow> nat" where
  "ip_version ip = unat (ip ! 0) div 16"

definition look_at :: "16 word \<Rightarrow> byte list \<Rightarrow> nat \<Rightarrow> nat \<Rightarrow> raw_result option" where
  "look_at port packet bytes_read ip_offset =
     (if bytes_read < ip_offset + 20 then None
      else
        let ip = drop ip_offset packet in
        if ip_version ip \<noteq> 4 \<or> ip_protocol ip \<noteq> IPPROTO_UDP then None
        else if udp_source ip \<noteq> SERVER_PORT \<or> udp_dest ip \<noteq> port then None
        else
          let data = ip_offset + ip_header_length ip + 8;
              n = unat (of_nat (unat (udp_len ip)) - 8 :: 64 word)
          in if data + n < PACKET_SIZE
             then Some (Response (until_nul (bytes_text (drop data (packet[data + n := 0])))))
             else Some Overrun)"

fun look_at_offsets :: "16 word \<Rightarrow> byte list \<Rightarrow> nat \<Rightarrow> nat list \<Rightarrow> raw_result option" where
  "look_at_offsets port packet bytes_read [] = None"
| "look_at_offsets port packet bytes_read (i # is) =
     (case look_at port packet bytes_read i of
        None \<Rightarrow> look_at_offsets port packet bytes_read is | Some r \<Rightarrow> Some r)"

text \<open>\<^verbatim>\<open>recv\<close> puts at most 512 bytes of the frame at the front of the array; \<open>None\<close>: it fails.\<close>

definition receive_into :: "byte list \<Rightarrow> byte list \<Rightarrow> byte list" where
  "receive_into packet frame = take PACKET_SIZE frame @ drop (min PACKET_SIZE (length frame)) packet"

fun wait_response :: "16 word \<Rightarrow> byte list \<Rightarrow> byte list option list \<Rightarrow> raw_result" where
  "wait_response port packet [] = Still_waiting"
| "wait_response port packet (None # fs) = Recv_error"
| "wait_response port packet (Some frame # fs) =
     (let p = receive_into packet frame in
      case look_at_offsets port p (min PACKET_SIZE (length frame)) [0, 4, 14] of
        None \<Rightarrow> wait_response port p fs | Some r \<Rightarrow> r)"

subsection \<open>The mains\<close>

text \<open>
  \<^verbatim>\<open>main\<close> of the three clients when \<open>wait_response\<close> comes back, with a text (\<open>Some\<close>) or an error.
\<close>

definition end_of_wait :: "string option \<Rightarrow> int list \<Rightarrow> int sysm" where
  "end_of_wait answer fds =
     (case answer of
        None \<Rightarrow> fail ''recv'' fds 1
      | Some t \<Rightarrow> do { say (''Received: '' @ t @ [CHR 0x0A]); finish fds 0 })"

definition not_zero :: "int \<Rightarrow> bool" where "not_zero r \<longleftrightarrow> r \<noteq> 0"

definition raw_udp_client :: "string option \<Rightarrow> int sysm" where
  "raw_udp_client answer =
     open_fd ''socket'' [] 1 (\<lambda>fd.
     open_fd ''socket'' [fd] 1 (\<lambda>recv_fd.
     step ''if_nametoindex'' not_zero [recv_fd, fd] 1 (
     step ''bind'' worked [recv_fd, fd] 1 (
     step ''inet_pton'' is_one [recv_fd, fd] 1 (
     send_step ''sendto'' (bytes_text raw_udp_packet) [recv_fd, fd] 1 (
     end_of_wait answer [recv_fd, fd]))))))"

definition raw_ip_client :: "string option \<Rightarrow> int sysm" where
  "raw_ip_client answer =
     open_fd ''socket'' [] 1 (\<lambda>fd.
     step ''setsockopt'' worked [fd] 1 (
     open_fd ''socket'' [fd] 1 (\<lambda>recv_fd.
     step ''if_nametoindex'' not_zero [recv_fd, fd] 1 (
     step ''bind'' worked [recv_fd, fd] 1 (
     step ''inet_pton'' is_one [recv_fd, fd] 1 (
     step ''inet_pton'' is_one [recv_fd, fd] 1 (
     step ''inet_pton'' is_one [recv_fd, fd] 1 (
     send_step ''sendto'' (bytes_text raw_ip_packet) [recv_fd, fd] 1 (
     end_of_wait answer [recv_fd, fd])))))))))"

definition raw_eth_client :: "string option \<Rightarrow> int sysm" where
  "raw_eth_client answer =
     open_fd ''socket'' [] 1 (\<lambda>fd.
     step ''setsockopt'' worked [fd] 1 (
     open_fd ''socket'' [fd] 1 (\<lambda>recv_fd.
     step ''if_nametoindex'' not_zero [recv_fd, fd] 1 (
     step ''bind'' worked [recv_fd, fd] 1 (
     step ''inet_pton'' is_one [recv_fd, fd] 1 (
     step ''inet_pton'' is_one [recv_fd, fd] 1 (
     step ''inet_pton'' is_one [recv_fd, fd] 1 (
     send_step ''sendto'' (bytes_text (drop 14 raw_eth_packet)) [recv_fd, fd] 1 (
     end_of_wait answer [recv_fd, fd])))))))))"

text \<open>The server.  The buffer of \<^verbatim>\<open>change_symbol\<close> holds a C string; \<^verbatim>\<open>toupper\<close> on a small letter.\<close>

definition change_symbol :: "string \<Rightarrow> string" where
  "change_symbol s =
     (case s of
        [] \<Rightarrow> []
      | c # r \<Rightarrow> if 97 \<le> (of_char c :: nat) \<and> (of_char c :: nat) \<le> 122 then char_of (of_char c - 32 :: nat) # r
                  else CHR ''*'' # r)"

definition raw_server :: "int sysm" where
  "raw_server =
     open_fd ''socket'' [] 1 (\<lambda>fd.
     step ''setsockopt'' worked [fd] 1 (
     step ''inet_pton'' is_one [fd] 1 (
     step ''bind'' worked [fd] 1 (
     recv_step ''recvfrom'' 255 [fd] 1 (\<lambda>buffer. do {
       say (''Received: '' @ buffer @ [CHR 0x0A]);
       say (''Modified: '' @ change_symbol buffer @ [CHR 0x0A]);
       send_step ''sendto'' (change_symbol buffer) [fd] 1 (
       finish [fd] 0) })))))"

lemma end_of_wait_owns: "mset H = mset fds \<Longrightarrow> owns H (end_of_wait answer fds) (\<lambda>_. [])"
  unfolding end_of_wait_def by (cases answer) (auto intro!: owns_intros)

lemma raw_programs_own:
  "owns [] (raw_udp_client answer) (\<lambda>_. [])" "owns [] (raw_ip_client answer) (\<lambda>_. [])"
  "owns [] (raw_eth_client answer) (\<lambda>_. [])" "owns [] raw_server (\<lambda>_. [])"
  unfolding raw_udp_client_def raw_ip_client_def raw_eth_client_def raw_server_def
  by (intro owns_intros end_of_wait_owns; simp)+

lemma raw_programs_clean:
  "clean {} (raw_udp_client answer)" "clean {} (raw_ip_client answer)"
  "clean {} (raw_eth_client answer)" "clean {} raw_server"
  unfolding raw_udp_client_def raw_ip_client_def raw_eth_client_def raw_server_def end_of_wait_def
  by (cases answer; auto intro!: clean_intros)+

subsection \<open>What the clients make of the frames on the loopback interface\<close>

definition plain_header :: "byte list \<Rightarrow> bool" where
  "plain_header h \<longleftrightarrow> length h = 20 \<and> h ! 0 = 0x45 \<and> h ! 9 = IPPROTO_UDP"

definition loop_frame :: "byte list \<Rightarrow> byte list \<Rightarrow> byte list" where
  "loop_frame h d = replicate 12 0 @ net16 0x0800 @ h @ d"

lemma plain_kernel: "plain_header h \<Longrightarrow> kernel_header h (ip_source h)"
  by (simp add: plain_header_def kernel_header_def ip_header_length_def ip_protocol_def)

lemma fields_of_prefix:
  assumes "\<And>i. i < 28 \<Longrightarrow> p ! i = q ! i" "ip_header_length q = 20"
  shows "ip_version p = ip_version q" "ip_protocol p = ip_protocol q" "ip_header_length p = 20"
    "udp_source p = udp_source q" "udp_dest p = udp_dest q" "udp_len p = udp_len q"
  using assms
  by (simp_all add: ip_version_def ip_protocol_def ip_header_length_def udp_source_def udp_dest_def
      udp_len_def get16_def)

lemma receive_prefix:
  assumes "i < 512" "i < length frame"
  shows "receive_into packet frame ! i = frame ! i"
  using assms by (simp add: receive_into_def PACKET_SIZE_def nth_append)

lemma length_receive [simp]:
  "length packet = PACKET_SIZE \<Longrightarrow> length (receive_into packet frame) = PACKET_SIZE"
  by (auto simp: receive_into_def)

lemma look_at_loop_frame:
  assumes "plain_header h" "8 + length t < 2 ^ 16" "length packet = PACKET_SIZE"
    and f: "f = loop_frame h (udp_packet src dst t)" and p: "p = receive_into packet f"
  shows "look_at_offsets port p (min PACKET_SIZE (length f)) [0, 4, 14] =
    (if src \<noteq> SERVER_PORT \<or> dst \<noteq> port then None
     else if 42 + length t < PACKET_SIZE
     then Some (Response (until_nul (bytes_text (drop 42 (p[42 + length t := 0])))))
     else Some Overrun)"
proof -
  let ?q = "h @ udp_packet src dst t"
  have lenh: "length h = 20" using assms(1) by (simp add: plain_header_def)
  have lenf: "length f = 42 + length t" by (simp add: f loop_frame_def lenh udp_packet_def)
  have lenp: "length p = PACKET_SIZE" using assms(3) by (simp add: p)
  have pf: "p ! i = f ! i" if "i < 42" for i
    using receive_prefix [of i f packet] that lenf by (simp add: p)
  have zero: "drop i p ! 0 = 0" if "i < 12" for i
    using that pf [of i] lenp by (simp add: f loop_frame_def nth_append PACKET_SIZE_def)
  have none: "look_at port p (min PACKET_SIZE (length f)) i = None" if "i < 12" for i
    using zero [OF that] by (simp add: look_at_def ip_version_def)
  have pre: "drop 14 p ! i = ?q ! i" if "i < 28" for i
  proof -
    have "drop 14 p ! i = f ! (14 + i)" using that lenp pf [of "14 + i"] by (simp add: PACKET_SIZE_def)
    also have "\<dots> = drop 14 f ! i" using lenf that by simp
    also have "drop 14 f = ?q" by (simp add: f loop_frame_def)
    finally show ?thesis .
  qed
  have hl: "ip_header_length ?q = 20"
    using header_fields(1) [OF plain_kernel [OF assms(1)]] lenh by simp
  note fields = fields_of_prefix [OF pre hl]
  note q = datagram_fields(1-3) [OF plain_kernel [OF assms(1)] assms(2), of ?q src dst "[]"]
  have ver: "ip_version ?q = 4" "ip_protocol ?q = IPPROTO_UDP"
    using assms(1) by (simp_all add: ip_version_def ip_protocol_def plain_header_def nth_append)
  have "unat (of_nat (8 + length t) - 8 :: 64 word) = length t"
    using assms(2) by (simp add: unat_of_nat take_bit_nat_eq_self)
  then have len: "unat (of_nat (unat (udp_len (drop 14 p))) - 8 :: 64 word) = length t"
    using q fields by simp
  then have len': "unat (ucast (udp_len (drop 14 p)) - 8 :: 64 word) = length t" by simp
  have enough: "\<not> min PACKET_SIZE (length f) < 14 + 20" by (simp add: lenf PACKET_SIZE_def)
  have "look_at port p (min PACKET_SIZE (length f)) 14 =
    (if src \<noteq> SERVER_PORT \<or> dst \<noteq> port then None
     else if 42 + length t < PACKET_SIZE
     then Some (Response (until_nul (bytes_text (drop 42 (p[42 + length t := 0])))))
     else Some Overrun)"
    using enough fields(1-5) q(1,2) ver len' by (simp add: look_at_def Let_def)
  then show ?thesis using none [of 0] none [of 4] by (auto split: option.splits)
qed

lemma received_text:
  assumes "plain_header h" "length packet = PACKET_SIZE" "42 + length t < PACKET_SIZE" "c_string t"
    and f: "f = loop_frame h (udp_packet src dst t)" and p: "p = receive_into packet f"
  shows "until_nul (bytes_text (drop 42 (p[42 + length t := 0]))) = t"
proof -
  have lenf: "length f = 42 + length t" and dropf: "drop 42 f = text_bytes t"
    using assms(1) by (simp_all add: f loop_frame_def plain_header_def udp_packet_def)
  have "p = f @ drop (length f) packet"
    using assms(3) lenf by (simp add: p receive_into_def PACKET_SIZE_def)
  then have "drop 42 p = text_bytes t @ drop (length f) packet" using lenf dropf by simp
  moreover obtain x r where "drop (length f) packet = x # r"
    using assms(2,3) lenf by (cases "drop (length f) packet") auto
  ultimately have "drop 42 (p[42 + length t := 0]) = text_bytes t @ 0 # r"
    by (simp add: drop_update_swap list_update_append)
  moreover have "bytes_text (text_bytes t @ 0 # r) = t @ CHR 0x00 # bytes_text r"
    using bytes_text_inverse [of t] by (simp add: bytes_text_def) code_simp
  ultimately show ?thesis using assms(4)
    by (auto simp: until_nul_def c_string_def takeWhile_append)
qed

lemma reply_received:
  assumes "length packet = PACKET_SIZE" "plain_header h1" "plain_header h2"
    and "(src, dst) \<noteq> (SERVER_PORT, port)" "8 + length t1 < 2 ^ 16" "8 + length t2 < 2 ^ 16" "c_string t2"
  shows "wait_response port packet
      [Some (loop_frame h1 (udp_packet src dst t1)), Some (loop_frame h2 (udp_packet SERVER_PORT port t2))] =
    (if length t2 < 470 then Response t2 else Overrun)"
proof -
  let ?p = "receive_into packet (loop_frame h1 (udp_packet src dst t1))"
  have len: "length ?p = PACKET_SIZE" using assms(1) by simp
  show ?thesis
    using look_at_loop_frame [OF assms(2,5,1) refl refl, where src = src and dst = dst and port = port] assms(4)
      look_at_loop_frame [OF assms(3,6) len refl refl, where src = SERVER_PORT and dst = port and port = port]
      received_text [OF assms(3) len _ assms(7) refl refl]
    by (auto simp: Let_def PACKET_SIZE_def simp del: look_at_offsets.simps)
qed

text \<open>
  Property C20.  On the loopback interface, where the packet socket also delivers the client's own
  request: a client waiting on \<open>port\<close> skips a datagram between other ports and takes the one from
  the server port, behind the Ethernet header, whatever was in its array before: it prints exactly
  its text when that has fewer than 470 bytes.  A longer datagram makes it write its terminating
  NUL outside the array of 512 bytes.
\<close>

theorem raw_reply_received:
  assumes "length packet = PACKET_SIZE" "plain_header h1" "plain_header h2"
    and "(src, dst) \<noteq> (SERVER_PORT, port)" "8 + length t1 < 2 ^ 16" "8 + length t2 < 2 ^ 16" "c_string t2"
  shows "wait_response port packet
      [Some (loop_frame h1 (udp_packet src dst t1)), Some (loop_frame h2 (udp_packet SERVER_PORT port t2))] =
    (if length t2 < 470 then Response t2 else Overrun)"
  by (rule reply_received [OF assms])

lemma ip_header_plain: "plain_header (ip_header tot)"
  by (simp add: plain_header_def ip_header_def store16_def ip_fields_def net16_def IP_CHECK_def
      IPPROTO_UDP_def nth_Cons')

lemma raw_reply_received_witness:
  "wait_response 12702 (replicate 512 7)
     [Some (replicate 12 0 @ net16 0x0800 @ raw_ip_packet),
      Some (loop_frame (ip_header 41) (udp_packet SERVER_PORT 12702 (change_symbol ''raw ip header'')))] =
   Response ''Raw ip header''"
proof -
  have change: "change_symbol ''raw ip header'' = ''Raw ip header''" by code_simp
  have "c_string ''Raw ip header''" by code_simp
  moreover have "(12702, SERVER_PORT) \<noteq> (SERVER_PORT, 12702 :: 16 word)" by code_simp
  ultimately have "wait_response 12702 (replicate 512 7)
     [Some (loop_frame (ip_header 41) (udp_packet 12702 SERVER_PORT ''raw ip header'')),
      Some (loop_frame (ip_header 41) (udp_packet SERVER_PORT 12702 ''Raw ip header''))] =
    (if length ''Raw ip header'' < 470 then Response ''Raw ip header'' else Overrun)"
    by (intro raw_reply_received ip_header_plain) (simp_all add: PACKET_SIZE_def)
  then show ?thesis by (simp add: change loop_frame_def raw_ip_packet_def)
qed

end
