(* ===== verification/Socket_Programs.thy ===== *)
theory Socket_Programs
  imports Time_Queue Time_Pool Time_Poll Raw_Headers
begin

text \<open>
  The one-shot programs of the course that talk to one peer and end: the socket pairs of
  \<^verbatim>\<open>labs/lab-16/part-1\<close> and \<^verbatim>\<open>part-3\<close>, the message queue pairs of \<^verbatim>\<open>labs/lab-13\<close>, the shared
  memory pairs of \<^verbatim>\<open>labs/lab-14\<close> and the named pipe of \<^verbatim>\<open>labs/lab-12\<close>, and the clients of the time
  servers.  Each \<^verbatim>\<open>main\<close> is a computation over \<open>sys\<close>, call by call.  Message queues, mappings and
  segments are held like descriptors, and removing a System V object is its release.  Names that
  \<^verbatim>\<open>bind\<close>, \<^verbatim>\<open>mq_open\<close>, \<^verbatim>\<open>shm_open\<close> and \<^verbatim>\<open>mkfifo\<close> make, and semaphores of \<^verbatim>\<open>sem_init\<close>, are
  recorded until they are removed or destroyed.  A \<^verbatim>\<open>close\<close>, \<^verbatim>\<open>munmap\<close>, \<^verbatim>\<open>unlink\<close> or \<^verbatim>\<open>IPC_RMID\<close>
  whose result the code does not look at is taken to work.
\<close>

subsection \<open>Local sockets (part-1/1, part-1/2)\<close>

definition unix_dgram_server :: "int sysm" where
  "unix_dgram_server = do {
     remove_name ''/tmp/lab16_1_server.socket'';
     open_fd ''socket'' [] 1 (\<lambda>fd. then_remove ''/tmp/lab16_1_server.socket'' (
       step ''bind'' worked [fd] 1 (do {
       make_name ''/tmp/lab16_1_server.socket'';
       recv_step ''recvfrom'' 127 [fd] 1 (\<lambda>buffer. do {
         say (''Received: '' @ buffer @ [CHR 0x0A]);
         send_step ''sendto'' ''hi!'' [fd] 1 (
         finish [fd] 0) }) }))) }"

definition unix_dgram_client :: "int sysm" where
  "unix_dgram_client = do {
     remove_name ''/tmp/lab16_1_client.socket'';
     open_fd ''socket'' [] 1 (\<lambda>fd. then_remove ''/tmp/lab16_1_client.socket'' (
       step ''bind'' worked [fd] 1 (do {
       make_name ''/tmp/lab16_1_client.socket'';
       send_step ''sendto'' ''hello!'' [fd] 1 (
       recv_step ''recvfrom'' 127 [fd] 1 (\<lambda>buffer. do {
         say (''Received: '' @ buffer @ [CHR 0x0A]);
         finish [fd] 0 })) }))) }"

definition unix_stream_server :: "int sysm" where
  "unix_stream_server = do {
     remove_name ''/tmp/lab16_2.socket'';
     open_fd ''socket'' [] 1 (\<lambda>fd. then_remove ''/tmp/lab16_2.socket'' (
       step ''bind'' worked [fd] 1 (do {
       make_name ''/tmp/lab16_2.socket'';
       step ''listen'' worked [fd] 1 (
       open_fd ''accept'' [fd] 1 (\<lambda>cfd.
       recv_step ''read'' 127 [cfd, fd] 1 (\<lambda>buffer. do {
         say (''Received: '' @ buffer @ [CHR 0x0A]);
         send_step ''write'' ''hi!'' [cfd, fd] 1 (
         finish [cfd, fd] 0) }))) }))) }"

definition unix_stream_client :: "int sysm" where
  "unix_stream_client =
     open_fd ''socket'' [] 1 (\<lambda>fd.
     step ''connect'' worked [fd] 1 (
     send_step ''write'' ''hello!'' [fd] 1 (
     recv_step ''read'' 127 [fd] 1 (\<lambda>buffer. do {
       say (''Received: '' @ buffer @ [CHR 0x0A]);
       finish [fd] 0 }))))"

subsection \<open>Internet sockets (part-1/3, part-1/4, part-3)\<close>

definition udp_server :: "int sysm" where
  "udp_server =
     open_fd ''socket'' [] 1 (\<lambda>fd.
     step ''setsockopt'' worked [fd] 1 (
     step ''inet_pton'' is_one [fd] 1 (
     step ''bind'' worked [fd] 1 (
     recv_step ''recvfrom'' 127 [fd] 1 (\<lambda>buffer. do {
       say (''Received: '' @ buffer @ [CHR 0x0A]);
       send_step ''sendto'' ''hi!'' [fd] 1 (
       finish [fd] 0) })))))"

definition udp_client :: "int sysm" where
  "udp_client =
     open_fd ''socket'' [] 1 (\<lambda>fd.
     step ''inet_pton'' is_one [fd] 1 (
     send_step ''sendto'' ''hello!'' [fd] 1 (
     recv_step ''recvfrom'' 127 [fd] 1 (\<lambda>buffer. do {
       say (''Received: '' @ buffer @ [CHR 0x0A]);
       finish [fd] 0 }))))"

definition tcp_server :: "int sysm" where
  "tcp_server =
     open_fd ''socket'' [] 1 (\<lambda>fd.
     step ''setsockopt'' worked [fd] 1 (
     step ''inet_pton'' is_one [fd] 1 (
     step ''bind'' worked [fd] 1 (
     step ''listen'' worked [fd] 1 (
     open_fd ''accept'' [fd] 1 (\<lambda>cfd.
     recv_step ''read'' 127 [cfd, fd] 1 (\<lambda>buffer. do {
       say (''Received: '' @ buffer @ [CHR 0x0A]);
       send_step ''write'' ''hi!'' [cfd, fd] 1 (
       finish [cfd, fd] 0) })))))))"

definition tcp_client :: "int sysm" where
  "tcp_client =
     open_fd ''socket'' [] 1 (\<lambda>fd.
     step ''inet_pton'' is_one [fd] 1 (
     step ''connect'' worked [fd] 1 (
     send_step ''write'' ''hello!'' [fd] 1 (
     recv_step ''read'' 127 [fd] 1 (\<lambda>buffer. do {
       say (''Received: '' @ buffer @ [CHR 0x0A]);
       finish [fd] 0 })))))"

definition broadcast_client :: "int sysm" where
  "broadcast_client =
     open_fd ''socket'' [] 1 (\<lambda>fd.
     step ''setsockopt'' worked [fd] 1 (
     step ''inet_pton'' is_one [fd] 1 (
     send_step ''sendto'' ''broadcast message'' [fd] 1 (
     recv_step ''recvfrom'' 255 [fd] 1 (\<lambda>buffer. do {
       say (''Received: '' @ buffer @ [CHR 0x0A]);
       finish [fd] 0 })))))"

definition broadcast_server :: "int sysm" where
  "broadcast_server =
     open_fd ''socket'' [] 1 (\<lambda>fd.
     step ''setsockopt'' worked [fd] 1 (
     step ''inet_pton'' is_one [fd] 1 (
     step ''bind'' worked [fd] 1 (
     recv_step ''recvfrom'' 255 [fd] 1 (\<lambda>buffer. do {
       say (''Received: '' @ buffer @ [CHR 0x0A]);
       send_step ''sendto'' (fit 300 (''broadcast: '' @ buffer)) [fd] 1 (
       finish [fd] 0) })))))"

definition multicast_client :: "int sysm" where
  "multicast_client =
     open_fd ''socket'' [] 1 (\<lambda>fd.
     step ''setsockopt'' worked [fd] 1 (
     step ''inet_pton'' is_one [fd] 1 (
     send_step ''sendto'' ''multicast message'' [fd] 1 (
     recv_step ''recvfrom'' 255 [fd] 1 (\<lambda>buffer. do {
       say (''Received: '' @ buffer @ [CHR 0x0A]);
       finish [fd] 0 })))))"

definition multicast_server :: "int sysm" where
  "multicast_server =
     open_fd ''socket'' [] 1 (\<lambda>fd.
     step ''setsockopt'' worked [fd] 1 (
     step ''inet_pton'' is_one [fd] 1 (
     step ''bind'' worked [fd] 1 (
     step ''inet_pton'' is_one [fd] 1 (
     step ''inet_pton'' is_one [fd] 1 (
     step ''setsockopt'' worked [fd] 1 (
     recv_step ''recvfrom'' 255 [fd] 1 (\<lambda>buffer. do {
       say (''Received: '' @ buffer @ [CHR 0x0A]);
       send_step ''sendto'' (fit 300 (''multicast: '' @ buffer)) [fd] 1 (
       finish [fd] 0) }))))))))"

subsection \<open>Message queues (lab-13)\<close>

text \<open>An \<^verbatim>\<open>mq_unlink\<close> that only finds no queue (\<^verbatim>\<open>ENOENT\<close>) has worked.\<close>

definition posix_mq_server :: "int sysm" where
  "posix_mq_server =
     step ''mq_unlink /POSIX-Client'' worked [] 1 (
     step ''mq_unlink /POSIX-Server'' worked [] 1 (
     open_fd ''mq_open /POSIX-Client'' [] 1 (\<lambda>mq_client. do {
       make_name ''/POSIX-Client'';
       mq_server \<leftarrow> next_result;
       if mq_server = -1 then do {
         report ''mq_open /POSIX-Server'';
         release [mq_client];
         remove_name ''/POSIX-Client'';
         State_Monad.return 1 }
       else do {
         acquire mq_server;
         make_name ''/POSIX-Server'';
         send_step ''mq_send'' ''Hi!'' [mq_client, mq_server] 1 (
         recv_step ''mq_receive'' 128 [mq_client, mq_server] 1 (\<lambda>reply. do {
           say (''Client message: '' @ reply @ [CHR 0x0A]);
           release [mq_client, mq_server];
           remove_name ''/POSIX-Client'';
           remove_name ''/POSIX-Server'';
           State_Monad.return 0 })) } })))"

definition posix_mq_client :: "int sysm" where
  "posix_mq_client =
     open_fd ''mq_open /POSIX-Client'' [] 1 (\<lambda>mq_client.
     open_fd ''mq_open /POSIX-Server'' [mq_client] 1 (\<lambda>mq_server.
     recv_step ''mq_receive'' 128 [mq_client, mq_server] 1 (\<lambda>reply. do {
       say (''Server message: '' @ reply @ [CHR 0x0A]);
       send_step ''mq_send'' ''Hello!'' [mq_client, mq_server] 1 (
       finish [mq_client, mq_server] 0) })))"

text \<open>The System V queue is released by \<^verbatim>\<open>msgctl(IPC_RMID)\<close>; at the end the server looks at its
  result, and the queue stays when it fails.  \<^verbatim>\<open>exit\<close> ends the program with its code.\<close>

definition sysv_mq_server :: "int sysm" where
  "sysv_mq_server =
     open_fd ''msgget'' [] 1 (\<lambda>qid.
     send_step ''msgsnd'' ''Hi!'' [qid] 1 (
     recv_step ''msgrcv'' 128 [qid] 1 (\<lambda>reply. do {
       say (''Client message: '' @ reply @ [CHR 0x0A]);
       step ''msgctl'' worked [] 1 (finish [qid] 0) })))"

definition sysv_mq_client :: "int sysm" where
  "sysv_mq_client =
     step ''msgget'' worked [] 1 (
     recv_step ''msgrcv'' 128 [] 1 (\<lambda>reply. do {
       say (''Server message: '' @ reply @ [CHR 0x0A]);
       send_step ''msgsnd'' ''Hello!'' [] 1 (finish [] 0) }))"

subsection \<open>Shared memory (lab-14)\<close>

text \<open>The text the peer left in the mapping, and the one written for it; the result of \<^verbatim>\<open>sem_wait\<close>
  is not looked at.\<close>

definition posix_shm_client :: "int sysm" where
  "posix_shm_client =
     open_fd ''shm_open'' [] 1 (\<lambda>fd.
     open_fd ''mmap'' [fd] 1 (\<lambda>memory. do {
       server_text \<leftarrow> next_text;
       say (''Server message: '' @ until_nul server_text @ [CHR 0x0A]);
       post ''Hello!'';
       finish [memory, fd] 0 }))"

definition posix_shm_server :: "int sysm" where
  "posix_shm_server = do {
     remove_name ''/lab14_posix_exchange'';
     open_fd ''shm_open'' [] 1 (\<lambda>fd. then_remove ''/lab14_posix_exchange'' (do {
       make_name ''/lab14_posix_exchange'';
       step ''ftruncate'' worked [fd] 1 (
       open_fd ''mmap'' [fd] 1 (\<lambda>memory.
       step ''sem_init'' worked [memory, fd] 1 (do {
       init_sem ''server_ready'';
       step ''sem_init'' worked [memory, fd] 1 (do {
         init_sem ''client_ready'';
         post ''Hi!'';
         client_text \<leftarrow> next_text;
         say (''Client message: '' @ until_nul client_text @ [CHR 0x0A]);
         destroy_sem ''server_ready'';
         destroy_sem ''client_ready'';
         finish [memory, fd] 0 }) }))) })) }"

text \<open>\<^verbatim>\<open>semop\<close> that a signal interrupts is \<open>sem_interrupted\<close>: the client tries again, the server gives up.\<close>

definition sem_interrupted :: int where "sem_interrupted = -2"

definition semaphore_wait :: "string \<Rightarrow> int list \<Rightarrow> 'a \<Rightarrow> 'a sysm \<Rightarrow> 'a sysm" where
  "semaphore_wait name fds code m = do {
     _ \<leftarrow> State (\<lambda>s. ((), s\<lparr>results := dropWhile (\<lambda>r. r = sem_interrupted) (results s)\<rparr>));
     step name worked fds code m }"

definition semop_worked :: "int \<Rightarrow> bool" where
  "semop_worked r \<longleftrightarrow> r \<noteq> -1 \<and> r \<noteq> sem_interrupted"

definition sysv_shm_client :: "int sysm" where
  "sysv_shm_client =
     step ''ftok'' worked [] 1 (
     step ''shmget'' worked [] 1 (
     step ''ftok'' worked [] 1 (
     step ''semget'' worked [] 1 (
     open_fd ''shmat'' [] 1 (\<lambda>memory.
     semaphore_wait ''semop wait'' [memory] 1 (do {
       server_text \<leftarrow> next_text;
       say (''Server message: '' @ until_nul server_text @ [CHR 0x0A]);
       post ''Hello!'';
       step ''semop post'' semop_worked [memory] 1 (finish [memory] 0) }))))))"

definition sysv_shm_server :: "int sysm" where
  "sysv_shm_server =
     step ''ftok'' worked [] 1 (
     open_fd ''shmget'' [] 1 (\<lambda>shmid.
     step ''ftok'' worked [shmid] 1 (
     open_fd ''semget'' [shmid] 1 (\<lambda>semid.
     step ''semctl'' worked [semid, shmid] 1 (
     open_fd ''shmat'' [semid, shmid] 1 (\<lambda>memory. do {
       post ''Hi!'';
       step ''semop post'' semop_worked [memory, semid, shmid] 1 (
       step ''semop wait'' semop_worked [memory, semid, shmid] 1 (do {
         client_text \<leftarrow> next_text;
         say (''Client message: '' @ until_nul client_text @ [CHR 0x0A]);
         finish [memory, semid, shmid] 0 })) }))))))"

subsection \<open>Named pipe (lab-12)\<close>

definition fifo_server :: "int sysm" where
  "fifo_server = do {
     remove_name ''mypipe'';
     step ''mkfifo'' worked [] 1 (do {
       make_name ''mypipe'';
       open_fd ''open'' [] 1 (\<lambda>fd. do {
         r \<leftarrow> next_result;
         (if r \<noteq> -1 then post ''Hi!'' else State_Monad.return ());
         finish [fd] 0 }) }) }"

definition fifo_client :: "int sysm" where
  "fifo_client =
     open_fd ''open'' [] 1 (\<lambda>fd.
     recv_step ''read'' 99 [fd] 1 (\<lambda>buffer. do {
       say (''Received message: '' @ buffer @ [CHR 0x0A]);
       release [fd];
       remove_name ''mypipe'';
       State_Monad.return 0 }))"

subsection \<open>Clients of the time servers (part-2)\<close>

text \<open>The client of the thread-per-client server; the one of the producer/consumer server is the
  same.\<close>

definition time_client :: "int sysm" where
  "time_client =
     open_fd ''socket'' [] 1 (\<lambda>fd.
     step ''inet_pton'' is_one [fd] 1 (
     step ''connect'' worked [fd] 1 (
     send_step ''write'' ''time'' [fd] 1 (
     recv_step ''read'' 127 [fd] 1 (\<lambda>buffer. do {
       say (''Current time: '' @ buffer);
       finish [fd] 0 })))))"

definition run_tcp_client :: "int sysm" where
  "run_tcp_client =
     open_fd ''socket'' [] 1 (\<lambda>fd.
     step ''inet_pton'' is_one [fd] 1 (
     step ''connect'' worked [fd] 1 (
     send_step ''write'' ''time'' [fd] 1 (
     recv_step ''read'' 127 [fd] 1 (\<lambda>buffer. do {
       say (''TCP time: '' @ buffer);
       finish [fd] 0 })))))"

definition run_udp_client :: "int sysm" where
  "run_udp_client =
     open_fd ''socket'' [] 1 (\<lambda>fd.
     step ''inet_pton'' is_one [fd] 1 (
     send_step ''sendto'' ''time'' [fd] 1 (
     recv_step ''recvfrom'' 127 [fd] 1 (\<lambda>buffer. do {
       say (''UDP time: '' @ buffer);
       finish [fd] 0 }))))"

definition multi_client_main :: "string list \<Rightarrow> int sysm" where
  "multi_client_main args =
     (case args of a # _ \<Rightarrow> if a = ''udp'' then run_udp_client else run_tcp_client
      | [] \<Rightarrow> run_tcp_client)"

subsection \<open>The thread-per-client server (part-2/1)\<close>

text \<open>
  One round of the loop of \<^verbatim>\<open>main\<close>: a cell is allocated for the descriptor, handed to a thread
  that frees it, or freed here.  \<open>round_client\<close> is \<open>None\<close> when \<^verbatim>\<open>accept\<close> fails.  The thread's own
  effects are \<open>serve_client\<close>; threads share nothing, so their interleaving does not matter.
\<close>

record thread_round =
  malloc_ok :: bool
  round_client :: "int option"
  accept_interrupted :: bool
  thread_ok :: bool
  round_read :: read_outcome
  round_time :: tm
  round_write :: bool

datatype thread_event =
    Malloced | Freed | Round_accepted int | Round_served int "serve_event list" | Round_closed int
  | Round_perror string

definition serve_client :: "int \<Rightarrow> thread_round \<Rightarrow> thread_event list" where
  "serve_client fd e =
     [Freed, Round_served fd (serve_time (round_read e) (round_time e) (round_write e)), Round_closed fd]"

definition thread_server_round :: "thread_round \<Rightarrow> thread_event list" where
  "thread_server_round e =
     (if \<not> malloc_ok e then [Round_perror ''malloc'']
      else Malloced #
        (case round_client e of
           None \<Rightarrow> (if accept_interrupted e then [] else [Round_perror ''accept'']) @ [Freed]
         | Some fd \<Rightarrow> Round_accepted fd #
             (if \<not> thread_ok e then [Round_perror ''pthread_create'', Round_closed fd, Freed]
              else serve_client fd e)))"

definition thread_server_run :: "thread_round list \<Rightarrow> thread_event list" where
  "thread_server_run es = concat (map thread_server_round es)"

subsection \<open>Every program gives back what it takes\<close>

lemmas program_defs =
  unix_dgram_server_def unix_dgram_client_def unix_stream_server_def unix_stream_client_def
  udp_server_def udp_client_def tcp_server_def tcp_client_def broadcast_client_def
  broadcast_server_def multicast_client_def multicast_server_def posix_mq_server_def
  posix_mq_client_def sysv_mq_server_def sysv_mq_client_def posix_shm_client_def
  posix_shm_server_def sysv_shm_client_def sysv_shm_server_def fifo_server_def fifo_client_def
  time_client_def run_tcp_client_def run_udp_client_def

lemma owns_post_if: "owns H (if b then post t else State_Monad.return ()) (\<lambda>_. H)"
  by (auto simp: owns_def post_def State_Monad.return_def)

lemma owns_semaphore_wait [owns_intros]:
  assumes "mset H = mset fds + mset (R code)" "owns H m R"
  shows "owns H (semaphore_wait name fds code m) R"
  unfolding semaphore_wait_def
proof (rule owns_bind [where Q = "\<lambda>_. H"])
  show "owns H (State (\<lambda>s. ((), s\<lparr>results := dropWhile (\<lambda>r. r = sem_interrupted) (results s)\<rparr>))) (\<lambda>_. H)"
    by (auto simp: owns_def)
  show "owns H (step name worked fds code m) R" for u using assms by (rule owns_step)
qed

lemma clean_semaphore_wait [clean_intros]: "clean N m \<Longrightarrow> clean N (semaphore_wait t fds code m)"
  unfolding semaphore_wait_def by (intro clean_intros) (simp_all add: clean_def)

definition tidy_programs :: "string option \<Rightarrow> int sysm list" where
  "tidy_programs answer =
     [unix_dgram_server, unix_dgram_client, unix_stream_server, unix_stream_client,
      udp_server, udp_client, tcp_server, tcp_client, broadcast_client, broadcast_server,
      multicast_client, multicast_server, posix_mq_client, sysv_mq_client, posix_shm_client,
      sysv_shm_client, sysv_shm_server, fifo_client, time_client, run_tcp_client, run_udp_client,
      pool_client_main, raw_server, raw_udp_client answer, raw_ip_client answer, raw_eth_client answer]"

lemma programs_own: "list_all (\<lambda>m. owns [] m (\<lambda>_. [])) ([posix_mq_server, posix_shm_server, fifo_server] @ tidy_programs answer)"
  unfolding tidy_programs_def append.simps list.pred_inject program_defs
  by (intro conjI TrueI owns_intros owns_release_then owns_report_then owns_acquire_then
      owns_bind [OF owns_next_result] owns_bind [OF owns_next_text] owns_bind [OF owns_post_if]
      pool_client_owns raw_programs_own) (auto intro!: owns_intros owns_release_then owns_report_then owns_acquire_then)

lemma programs_clean: "list_all (clean {}) (tidy_programs answer)"
  unfolding tidy_programs_def list.pred_inject program_defs
  by (intro conjI TrueI clean_intros pool_client_clean raw_programs_clean) auto

text \<open>The programs that may leave something: what the state at their end says.\<close>

lemmas run_all_steps = run_steps acquire_def release_def report_def post_def next_text_def then_remove_def
  sys_start_def worked_def State_Monad.run_state_bind State_Monad.return_def

lemma posix_mq_server_leaves:
  "run_state posix_mq_server (sys_start rs texts) = (code, s) \<Longrightarrow> live_sems s = [] \<and>
   made_names s = (if ''mq_send'' \<in> set (reported s) \<or> ''mq_receive'' \<in> set (reported s)
                   then [''/POSIX-Server'', ''/POSIX-Client''] else [])"
  by (auto simp: posix_mq_server_def run_all_steps split: list.splits if_splits prod.splits)

lemma posix_shm_server_leaves:
  "run_state posix_shm_server (sys_start rs texts) = (code, s) \<Longrightarrow> made_names s = [] \<and>
   (live_sems s = [] \<or> live_sems s = [''server_ready''] \<and> reported s = [''sem_init''])"
  by (auto simp: posix_shm_server_def run_all_steps split: list.splits if_splits prod.splits)

lemma fifo_server_leaves:
  "run_state fifo_server (sys_start rs texts) = (code, s) \<Longrightarrow> live_sems s = [] \<and>
   made_names s = (if ''mkfifo'' \<in> set (reported s) then [] else [''mypipe''])"
  by (auto simp: fifo_server_def run_all_steps split: list.splits if_splits prod.splits)

lemma sysv_mq_server_leaves:
  "run_state sysv_mq_server (sys_start rs texts) = (code, s) \<Longrightarrow> live_sems s = [] \<and> made_names s = [] \<and>
   (if ''msgctl'' \<in> set (reported s) then released s = [] \<and> length (acquired s) = 1
    else released s = acquired s)"
  by (auto simp: sysv_mq_server_def run_all_steps split: list.splits if_splits prod.splits)

definition ends_tidy :: "sys \<Rightarrow> bool" where
  "ends_tidy s \<longleftrightarrow> mset (released s) = mset (acquired s) \<and> made_names s = [] \<and> live_sems s = []"

definition at_end :: "int list \<Rightarrow> string list \<Rightarrow> int sysm \<Rightarrow> sys" where
  "at_end rs texts m = snd (run_state m (sys_start rs texts))"

text \<open>
  Property C18.  What each of the 30 one-shot programs leaves behind, whatever the checked system
  calls return and whatever is received.  26 of them end with every descriptor, queue, mapping, segment
  and semaphore set they obtained released exactly once, and with no name and no semaphore left that
  they made, on success and on every error path.  The other four: the POSIX queue server releases its
  descriptors, but leaves both queue names exactly when \<^verbatim>\<open>mq_send\<close> or \<^verbatim>\<open>mq_receive\<close> failed; the POSIX
  shared memory server leaves nothing but, when it reports a failed \<^verbatim>\<open>sem_init\<close>, possibly the first
  semaphore without its \<^verbatim>\<open>sem_destroy\<close>; the pipe server leaves the name of the pipe whenever it was made
  (its client removes it); the System V queue server leaves its queue exactly when the last
  \<^verbatim>\<open>msgctl\<close> fails.  (\<open>answer\<close> is what the search for the answer of a raw client returns; results the
  code does not look at are taken as success.)
\<close>

theorem socket_programs_release:
  "list_all (\<lambda>m. ends_tidy (at_end rs texts m)) (tidy_programs answer) \<and>
   (let s = at_end rs texts posix_mq_server in
      mset (released s) = mset (acquired s) \<and> live_sems s = [] \<and>
      made_names s = (if ''mq_send'' \<in> set (reported s) \<or> ''mq_receive'' \<in> set (reported s)
                      then [''/POSIX-Server'', ''/POSIX-Client''] else [])) \<and>
   (let s = at_end rs texts posix_shm_server in
      mset (released s) = mset (acquired s) \<and> made_names s = [] \<and>
      (live_sems s = [] \<or> live_sems s = [''server_ready''] \<and> reported s = [''sem_init''])) \<and>
   (let s = at_end rs texts fifo_server in
      mset (released s) = mset (acquired s) \<and> live_sems s = [] \<and>
      made_names s = (if ''mkfifo'' \<in> set (reported s) then [] else [''mypipe''])) \<and>
   (let s = at_end rs texts sysv_mq_server in
      live_sems s = [] \<and> made_names s = [] \<and>
      (if ''msgctl'' \<in> set (reported s) then released s = [] \<and> length (acquired s) = 1
       else released s = acquired s))"
proof -
  have end_state: "\<exists>r. run_state m (sys_start rs texts) = (r, at_end rs texts m)" for m
    by (metis at_end_def prod.collapse)
  have balanced: "mset (released (at_end rs texts m)) = mset (acquired (at_end rs texts m))"
    if "owns [] m (\<lambda>_. [])" for m
    using owns_from_start [OF that, of rs texts] end_state [of m] by auto
  have "list_all (\<lambda>m. ends_tidy (at_end rs texts m)) (tidy_programs answer)"
    using programs_own [of answer] programs_clean [of answer] end_state balanced clean_from_start
    unfolding list_all_iff ends_tidy_def set_append by (metis Un_iff)
  moreover from programs_own have "owns [] posix_mq_server (\<lambda>_. [])" "owns [] posix_shm_server (\<lambda>_. [])"
    "owns [] fifo_server (\<lambda>_. [])" by simp_all
  note this [THEN balanced]
  ultimately show ?thesis
    using end_state [of posix_mq_server] end_state [of posix_shm_server] end_state [of fifo_server]
      end_state [of sysv_mq_server] posix_mq_server_leaves posix_shm_server_leaves fifo_server_leaves
      sysv_mq_server_leaves
    unfolding Let_def by blast
qed

subsection \<open>What the pairs say to each other\<close>

text \<open>
  A conversation over a link that delivers what is sent, with calls that succeed: the first
  program speaks, the second answers to that, and the first reads the answer.
\<close>

definition all_work :: "int list" where "all_work = replicate 16 1"

lemma all_work_list: "all_work = [1, 1, 1, 1, 1, 1, 1, 1, 1, 1, 1, 1, 1, 1, 1, 1]"
  by (simp add: all_work_def numeral_eq_Suc)

definition conversation :: "int sysm \<Rightarrow> int sysm \<Rightarrow> string list \<times> string list" where
  "conversation first second =
     (let asked = outbox (snd (run_state first (sys_start all_work [])));
          s2 = snd (run_state second (sys_start all_work asked));
          s1 = snd (run_state first (sys_start all_work (outbox s2)))
      in (printed s1, printed s2))"

definition pairs :: "(int sysm \<times> int sysm) list" where
  "pairs =
     [(unix_dgram_client, unix_dgram_server), (unix_stream_client, unix_stream_server),
      (udp_client, udp_server), (tcp_client, tcp_server),
      (broadcast_client, broadcast_server), (multicast_client, multicast_server),
      (posix_mq_server, posix_mq_client), (sysv_mq_server, sysv_mq_client),
      (posix_shm_server, posix_shm_client), (sysv_shm_server, sysv_shm_client),
      (fifo_server, fifo_client)]"

text \<open>
  Every pair of programs completes its exchange: each side prints exactly the text the
  other one sends, for the four local and internet socket pairs, broadcast, multicast, both kinds
  of message queues, both kinds of shared memory and the named pipe.
\<close>

theorem pairs_exchange:
  "map (\<lambda>(first, second). conversation first second) pairs =
     (let nl = [CHR 0x0A]; got = (\<lambda>t. ''Received: '' @ t @ nl);
          asked = (\<lambda>t. ''Client message: '' @ t @ nl); told = (\<lambda>t. ''Server message: '' @ t @ nl)
      in replicate 4 ([got ''hi!''], [got ''hello!'']) @
         [([got ''broadcast: broadcast message''], [got ''broadcast message'']),
          ([got ''multicast: multicast message''], [got ''multicast message''])] @
         replicate 4 ([asked ''Hello!''], [told ''Hi!'']) @
         [([], [''Received message: Hi!'' @ nl])])"
  by code_simp

subsection \<open>The thread-per-client server\<close>

fun malloc_of :: "thread_event \<Rightarrow> unit list" where "malloc_of Malloced = [()]" | "malloc_of _ = []"
fun free_of :: "thread_event \<Rightarrow> unit list" where "free_of Freed = [()]" | "free_of _ = []"
fun accept_of :: "thread_event \<Rightarrow> int list" where "accept_of (Round_accepted fd) = [fd]" | "accept_of _ = []"
fun close_of :: "thread_event \<Rightarrow> int list" where "close_of (Round_closed fd) = [fd]" | "close_of _ = []"
fun serve_of :: "thread_event \<Rightarrow> int list" where "serve_of (Round_served fd _) = [fd]" | "serve_of _ = []"

definition each :: "(thread_event \<Rightarrow> 'a list) \<Rightarrow> thread_event list \<Rightarrow> 'a list" where
  "each f ev = concat (map f ev)"

lemma each_simps [simp]: "each f [] = []" "each f (x # ev) = f x @ each f ev"
  "each f (ev @ ev') = each f ev @ each f ev'"
  by (simp_all add: each_def)

definition threads_of :: "thread_round list \<Rightarrow> int list" where
  "threads_of es = List.map_filter (\<lambda>e. if malloc_ok e \<and> thread_ok e then round_client e else None) es"

text \<open>
  The thread-per-client server, for any rounds: every cell it allocates is freed once,
  every client it accepts is closed once, in the order of acceptance, and exactly the clients for
  which a thread could be started are served.
\<close>

theorem thread_server_releases:
  "let ev = thread_server_run es in
     each malloc_of ev = each free_of ev \<and> each accept_of ev = each close_of ev \<and>
     each serve_of ev = threads_of es"
proof (induction es)
  case Nil
  show ?case by (simp add: thread_server_run_def threads_of_def map_filter_def)
next
  case (Cons e es)
  have "let ev = thread_server_round e in each malloc_of ev = each free_of ev \<and>
      each accept_of ev = each close_of ev \<and> each serve_of ev = threads_of [e]"
    by (cases "round_client e")
      (auto simp: thread_server_round_def serve_client_def threads_of_def map_filter_def)
  with Cons show ?case
    by (simp add: thread_server_run_def threads_of_def map_filter_def Let_def)
qed

end
