(* ===== verification/Raw_System.thy ===== *)
theory Raw_System
  imports Socket_Programs
begin

text \<open>
  The exchanges of \<^verbatim>\<open>labs/lab-16/part-4\<close> as a whole: a client sends its packet, the kernel hands the
  text to the server, the server answers with the text it has changed, and the client finds that
  answer among the frames of the loopback interface.  The three clients have their own ports, and
  their own copies of \<^verbatim>\<open>wait_response\<close> (and the third of \<^verbatim>\<open>checksum\<close>), which differ in nothing else.
\<close>

definition CLIENT_PORT_1 :: "16 word" where "CLIENT_PORT_1 = 12701"
definition CLIENT_PORT_2 :: "16 word" where "CLIENT_PORT_2 = 12702"
definition CLIENT_PORT_3 :: "16 word" where "CLIENT_PORT_3 = 12703"

definition wait_response_1 :: "byte list \<Rightarrow> byte list option list \<Rightarrow> raw_result" where
  "wait_response_1 = wait_response CLIENT_PORT_1"

definition wait_response_2 :: "byte list \<Rightarrow> byte list option list \<Rightarrow> raw_result" where
  "wait_response_2 = wait_response CLIENT_PORT_2"

definition wait_response_3 :: "byte list \<Rightarrow> byte list option list \<Rightarrow> raw_result" where
  "wait_response_3 = wait_response CLIENT_PORT_3"

definition checksum_3 :: "byte list \<Rightarrow> 16 word" where
  "checksum_3 = checksum"

text \<open>The third client's header is the one its own checksum completes.\<close>

lemma third_header: "drop 14 raw_eth_packet =
    store16 (ip_fields 47) IP_CHECK (checksum_3 (ip_fields 47)) @ udp_packet CLIENT_PORT_3 SERVER_PORT ''raw ethernet header''"
  by (simp add: raw_eth_packet_def checksum_3_def ip_header_def CLIENT_PORT_3_def net16_def)

subsection \<open>An exchange\<close>

text \<open>
  \<open>incl\<close>: the client has written the IP header itself (\<^verbatim>\<open>IP_HDRINCL\<close>); otherwise the kernel puts
  \<open>h1\<close> before what is sent, as it puts \<open>h2\<close> before the server's answer.  The packet socket
  delivers both datagrams, in Ethernet frames.
\<close>

definition ip_datagram :: "bool \<Rightarrow> byte list \<Rightarrow> string \<Rightarrow> byte list" where
  "ip_datagram incl h1 req = (if incl then text_bytes req else h1 @ text_bytes req)"

definition delivered_text :: "byte list \<Rightarrow> string list" where
  "delivered_text ip =
     (if ip_protocol ip = IPPROTO_UDP \<and> udp_dest ip = SERVER_PORT
      then [take (unat (udp_len ip) - 8) (bytes_text (drop (ip_header_length ip + 8) ip))] else [])"

type_synonym raw_program = "(string option \<Rightarrow> int sysm) \<times> (byte list \<Rightarrow> byte list option list \<Rightarrow> raw_result) \<times> bool"

definition raw_clients :: "raw_program list" where
  "raw_clients =
     [(raw_udp_client, wait_response_1, False), (raw_ip_client, wait_response_2, True),
      (raw_eth_client, wait_response_3, True)]"

definition raw_conversation ::
  "byte list \<Rightarrow> byte list \<Rightarrow> byte list \<Rightarrow> raw_program \<Rightarrow> string list \<times> string list" where
  "raw_conversation h1 h2 packet rp =
     (case rp of (client, wait, incl) \<Rightarrow>
        let req = hd (outbox (snd (run_state (client None) (sys_start all_work []))));
            ip = ip_datagram incl h1 req;
            srv = snd (run_state raw_server (sys_start all_work (delivered_text ip)));
            reply = loop_frame h2 (udp_packet SERVER_PORT (udp_source ip) (hd (outbox srv)))
        in (printed srv,
            case wait packet [Some (loop_frame ip []), Some reply] of
              Response t \<Rightarrow> printed (snd (run_state (client (Some t)) (sys_start all_work [])))
            | _ \<Rightarrow> []))"

lemma text_bytes_inverse: "text_bytes (bytes_text bs) = bs"
proof -
  have "of_nat (of_char (char_of (unat b) :: char)) = b" for b :: byte
    using byte_small [of b] by simp
  then show ?thesis by (simp add: bytes_text_def text_bytes_def o_def)
qed

lemma clients_send:
  "outbox (snd (run_state (raw_udp_client None) (sys_start all_work []))) = [bytes_text raw_udp_packet]"
  "outbox (snd (run_state (raw_ip_client None) (sys_start all_work []))) = [bytes_text raw_ip_packet]"
  "outbox (snd (run_state (raw_eth_client None) (sys_start all_work []))) = [bytes_text (drop 14 raw_eth_packet)]"
  by (simp_all add: raw_udp_client_def raw_ip_client_def raw_eth_client_def run_steps sys_start_def all_work_list
      worked_def is_one_def not_zero_def end_of_wait_def)

lemma clients_print:
  "printed (snd (run_state (raw_udp_client (Some t)) (sys_start all_work []))) = [''Received: '' @ t @ [CHR 0x0A]]"
  "printed (snd (run_state (raw_ip_client (Some t)) (sys_start all_work []))) = [''Received: '' @ t @ [CHR 0x0A]]"
  "printed (snd (run_state (raw_eth_client (Some t)) (sys_start all_work []))) = [''Received: '' @ t @ [CHR 0x0A]]"
  by (simp_all add: raw_udp_client_def raw_ip_client_def raw_eth_client_def run_steps sys_start_def all_work_list
      worked_def is_one_def not_zero_def end_of_wait_def)

text \<open>The server answers a text of up to 255 characters with the text it has changed.\<close>

lemma server_answers:
  assumes "c_string t" "length t \<le> 255"
  shows "outbox (snd (run_state raw_server (sys_start all_work [t]))) = [change_symbol t]"
    and "printed (snd (run_state raw_server (sys_start all_work [t]))) =
      [''Received: '' @ t @ [CHR 0x0A], ''Modified: '' @ change_symbol t @ [CHR 0x0A]]"
proof -
  have "until_nul t = t" using assms(1) by (auto simp: until_nul_def c_string_def)
  then show "outbox (snd (run_state raw_server (sys_start all_work [t]))) = [change_symbol t]"
    "printed (snd (run_state raw_server (sys_start all_work [t]))) =
      [''Received: '' @ t @ [CHR 0x0A], ''Modified: '' @ change_symbol t @ [CHR 0x0A]]"
    using assms(2)
    by (simp_all add: raw_server_def run_steps sys_start_def all_work_list worked_def is_one_def next_text_def)
qed

lemma change_symbol_keeps [simp]: "length (change_symbol t) = length t"
  by (cases t) (simp_all add: change_symbol_def)

lemma c_string_change: "c_string t \<Longrightarrow> c_string (change_symbol t)"
proof (cases t)
  case (Cons c r)
  assume "c_string t"
  have "char_of (of_char c - 32 :: nat) \<noteq> CHR 0x00" if "97 \<le> (of_char c :: nat)" "(of_char c :: nat) \<le> 122"
  proof
    assume "char_of (of_char c - 32 :: nat) = CHR 0x00"
    then have "(of_char (char_of (of_char c - 32 :: nat)) :: nat) = of_char (CHR 0x00)" by (rule arg_cong)
    with that show False by simp
  qed
  with \<open>c_string t\<close> Cons show ?thesis by (auto simp: change_symbol_def c_string_def)
qed (simp add: change_symbol_def c_string_def)

text \<open>One exchange, with the client's IP datagram split into header and UDP packet.\<close>

lemma one_exchange:
  assumes "length packet = PACKET_SIZE" "plain_header h" "plain_header h2"
    and "c_string t" "length t \<le> 255" "port \<noteq> SERVER_PORT"
    and ip: "ip = h @ udp_packet port SERVER_PORT t"
  shows "delivered_text ip = [t]" "udp_source ip = port"
    "wait_response port packet
       [Some (loop_frame ip []), Some (loop_frame h2 (udp_packet SERVER_PORT port (change_symbol t)))] =
     Response (change_symbol t)"
proof -
  have len: "8 + length t < 2 ^ 16" using assms(5) by simp
  have ip': "ip = h @ udp_packet port SERVER_PORT t @ []" by (simp add: ip)
  note f = datagram_fields [OF plain_kernel [OF assms(2)] len ip']
  have "ip_protocol ip = IPPROTO_UDP"
    using assms(2) by (simp add: ip plain_header_def ip_protocol_def nth_append)
  with f show "delivered_text ip = [t]" "udp_source ip = port" by (simp_all add: delivered_text_def)
  have "loop_frame ip [] = loop_frame h (udp_packet port SERVER_PORT t)" by (simp add: loop_frame_def ip)
  moreover have "(port, SERVER_PORT) \<noteq> (SERVER_PORT, port)" using assms(6) by simp
  ultimately show "wait_response port packet
       [Some (loop_frame ip []), Some (loop_frame h2 (udp_packet SERVER_PORT port (change_symbol t)))] =
     Response (change_symbol t)"
    using reply_received [OF assms(1-3) _ len _ c_string_change [OF assms(4)]] assms(5) by simp
qed

text \<open>
  Property C39.  Every raw client talks to the server: with headers made by the kernel, and whatever is in
  the client's array, the server prints the client's text and the changed text, and the client, which
  sees its own request and the answer on the loopback interface, prints exactly the changed text, for the
  client with its own UDP header, the one with its own IP header, and the one with an Ethernet header.
\<close>

theorem raw_exchange:
  assumes "length packet = PACKET_SIZE" "plain_header h1" "plain_header h2"
  shows "map (raw_conversation h1 h2 packet) raw_clients =
    (let nl = [CHR 0x0A]; said = (\<lambda>t u. ([''Received: '' @ t @ nl, ''Modified: '' @ u @ nl], [''Received: '' @ u @ nl]))
     in [said ''raw udp header'' ''Raw udp header'', said ''raw ip header'' ''Raw ip header'',
         said ''raw ethernet header'' ''Raw ethernet header''])"
proof -
  have change: "change_symbol ''raw udp header'' = ''Raw udp header''"
    "change_symbol ''raw ip header'' = ''Raw ip header''"
    "change_symbol ''raw ethernet header'' = ''Raw ethernet header''" by code_simp+
  have strings: "c_string ''raw udp header''" "c_string ''raw ip header''" "c_string ''raw ethernet header''"
    by code_simp+
  have ports: "CLIENT_PORT_1 \<noteq> SERVER_PORT" "CLIENT_PORT_2 \<noteq> SERVER_PORT" "CLIENT_PORT_3 \<noteq> SERVER_PORT"
    by code_simp+
  have packets: "ip_datagram False h1 (bytes_text raw_udp_packet) = h1 @ udp_packet CLIENT_PORT_1 SERVER_PORT ''raw udp header''"
    "ip_datagram True h1 (bytes_text raw_ip_packet) = ip_header 41 @ udp_packet CLIENT_PORT_2 SERVER_PORT ''raw ip header''"
    "ip_datagram True h1 (bytes_text (drop 14 raw_eth_packet)) =
       ip_header 47 @ udp_packet CLIENT_PORT_3 SERVER_PORT ''raw ethernet header''"
    by (simp_all add: ip_datagram_def text_bytes_inverse raw_udp_packet_def raw_ip_packet_def raw_eth_packet_def
        CLIENT_PORT_1_def CLIENT_PORT_2_def CLIENT_PORT_3_def net16_def)
  note one = one_exchange [OF assms(1,2,3) strings(1) _ ports(1) packets(1)]
    one_exchange [OF assms(1) ip_header_plain assms(3) strings(2) _ ports(2) packets(2)]
    one_exchange [OF assms(1) ip_header_plain assms(3) strings(3) _ ports(3) packets(3)]
  note server = server_answers [OF strings(1)] server_answers [OF strings(2)] server_answers [OF strings(3)]
  show ?thesis
    using one server
    by (simp add: raw_clients_def raw_conversation_def clients_send clients_print Let_def change
        wait_response_1_def wait_response_2_def wait_response_3_def del: wait_response.simps)
qed

lemma raw_exchange_witness:
  "snd (raw_conversation (ip_header 42) (ip_header 42) (replicate 512 7) (raw_ip_client, wait_response_2, True)) =
   [''Received: Raw ip header'' @ [CHR 0x0A]]"
proof -
  have "length (replicate 512 (7 :: byte)) = PACKET_SIZE" by (simp add: PACKET_SIZE_def)
  from raw_exchange [OF this ip_header_plain ip_header_plain, of 42 42] show ?thesis
    by (simp add: raw_clients_def Let_def)
qed

end
