(* ===== verification/Time_Service.thy ===== *)
theory Time_Service
  imports Socket_Programs
begin

text \<open>
  The four time services of \<^verbatim>\<open>labs/lab-16/part-2\<close> as a whole.  The thread-per-client server (1) and
  the worker pool (2) with their own listeners and copies of the reply, the mains of all four servers
  up to and into their loops, and what the clients make of the replies.  A main that has entered its
  loop returns \<open>None\<close> with what happened in the loop so far.
\<close>

subsection \<open>The thread-per-client server\<close>

definition thread_make_time_response :: "nat \<Rightarrow> tm \<Rightarrow> string option" where
  "thread_make_time_response = make_time_response"

definition thread_listener :: "int sysm" where
  "thread_listener =
     open_fd ''socket'' [] (-1) (\<lambda>fd.
     step ''setsockopt'' worked [fd] (-1) (
     step ''inet_pton'' is_one [fd] (-1) (
     step ''bind'' worked [fd] (-1) (
     step ''listen'' worked [fd] (-1) (
     finish [] fd)))))"

definition thread_server_main :: "thread_round list \<Rightarrow> (int option \<times> thread_event list) sysm" where
  "thread_server_main es = do {
     server_fd \<leftarrow> thread_listener;
     if server_fd = -1 then State_Monad.return (Some 1, [])
     else do {
       say (''Thread-per-client server started on port 7777'' @ [CHR 0x0A]);
       State_Monad.return (None, thread_server_run es) } }"

subsection \<open>The worker pool\<close>

definition pool_make_time_response :: "nat \<Rightarrow> tm \<Rightarrow> string option" where
  "pool_make_time_response = make_time_response"

definition pool_serve_time :: "read_outcome \<Rightarrow> tm \<Rightarrow> bool \<Rightarrow> serve_event list" where
  "pool_serve_time r t written =
     (case r of
        Data _ \<Rightarrow> Reply (case pool_make_time_response 64 t of None \<Rightarrow> [] | Some s \<Rightarrow> s) written #
                  (if written then [] else [Serve_perror ''write''])
      | Eof \<Rightarrow> []
      | _ \<Rightarrow> [Serve_perror ''read''])"

definition pool_server_main :: "pool_action list \<Rightarrow> (int option \<times> pool_event list) sysm" where
  "pool_server_main as = do {
     (r, ws) \<leftarrow> start_workers;
     if r = -1 then State_Monad.return (Some 1, [])
     else do {
       listener_fd \<leftarrow> pool_listener;
       if listener_fd = -1 then State_Monad.return (Some 1, [])
       else do {
         say (''Pool listener started on port 7777'' @ [CHR 0x0A]);
         State_Monad.return (None, snd (pool_run as ws)) } } }"

subsection \<open>The producer/consumer server and the multi-protocol server\<close>

text \<open>The actions of the threads that are enabled, one after another; the producer's descriptor is
  the argument of its action.\<close>

fun tq_run :: "tq_action list \<Rightarrow> time_server \<Rightarrow> time_server" where
  "tq_run [] s = s"
| "tq_run (a # as) s = tq_run as (case tq_exec a s of None \<Rightarrow> s | Some s' \<Rightarrow> s')"

definition queue_server_main :: "tq_action list \<Rightarrow> (int option \<times> time_server) sysm" where
  "queue_server_main as = do {
     r \<leftarrow> queue_startup;
     case r of
       Inl code \<Rightarrow> State_Monad.return (Some code, tq_start)
     | Inr server_fd \<Rightarrow> do {
         say (''Producer/consumer server started on port 7777'' @ [CHR 0x0A]);
         State_Monad.return (None, tq_run as tq_start) } }"

definition poll_make_time_response :: "nat \<Rightarrow> tm \<Rightarrow> string option" where
  "poll_make_time_response = make_time_response"

definition poll_server_main :: "poll_env list \<Rightarrow> (int option \<times> poll_event list) sysm" where
  "poll_server_main es = do {
     r \<leftarrow> poll_startup;
     case r of
       Inl code \<Rightarrow> State_Monad.return (Some code, [])
     | Inr (tcp, udp) \<Rightarrow> do {
         say (''Multiprotocol server started on tcp/udp port 7777'' @ [CHR 0x0A]);
         State_Monad.return (None, snd (poll_run es (poll_start tcp udp))) } }"

text \<open>The client of the producer/consumer server.\<close>

definition queue_client :: "int sysm" where
  "queue_client =
     open_fd ''socket'' [] 1 (\<lambda>fd.
     step ''inet_pton'' is_one [fd] 1 (
     step ''connect'' worked [fd] 1 (
     send_step ''write'' ''time'' [fd] 1 (
     recv_step ''read'' 127 [fd] 1 (\<lambda>buffer. do {
       say (''Current time: '' @ buffer);
       finish [fd] 0 })))))"

subsection \<open>The line of the time\<close>

definition valid_tm :: "tm \<Rightarrow> bool" where
  "valid_tm t \<longleftrightarrow> tm_year t < 10000 \<and> tm_mon t < 100 \<and> tm_mday t < 100 \<and> tm_hour t < 100 \<and>
     tm_min t < 100 \<and> tm_sec t < 100"

definition time_line :: "tm \<Rightarrow> string" where
  "time_line t = show_nat (tm_year t) @ ''-'' @ two_digits (tm_mon t) @ ''-'' @ two_digits (tm_mday t) @
     '' '' @ two_digits (tm_hour t) @ '':'' @ two_digits (tm_min t) @ '':'' @ two_digits (tm_sec t) @ [CHR 0x0A]"

text \<open>Reading such a line back, as \<^verbatim>\<open>sscanf(s, "%d-%d-%d %d:%d:%d")\<close> does.\<close>

fun skip_char :: "char \<Rightarrow> string \<Rightarrow> string option" where
  "skip_char c (d # s) = (if c = d then Some s else None)"
| "skip_char c [] = None"

definition read_time :: "string \<Rightarrow> tm option" where
  "read_time s0 = do {
     (y, s1) \<leftarrow> scan_d s0; s2 \<leftarrow> skip_char (CHR ''-'') s1;
     (m, s3) \<leftarrow> scan_d s2; s4 \<leftarrow> skip_char (CHR ''-'') s3;
     (d, s5) \<leftarrow> scan_d s4;
     (h, s6) \<leftarrow> scan_d s5; s7 \<leftarrow> skip_char (CHR '':'') s6;
     (i, s8) \<leftarrow> scan_d s7; s9 \<leftarrow> skip_char (CHR '':'') s8;
     (s, s10) \<leftarrow> scan_d s9;
     Some \<lparr>tm_year = nat y, tm_mon = nat m, tm_mday = nat d, tm_hour = nat h, tm_min = nat i, tm_sec = nat s\<rparr> }"

lemma scan_d_digits:
  assumes "ds \<noteq> []" "\<forall>c \<in> set ds. is_digit c" "r = [] \<or> \<not> is_digit (hd r)"
  shows "scan_d (ds @ r) = Some (int (read_digits ds), r)"
proof -
  obtain c cs where ds: "ds = c # cs" using assms(1) by (cases ds) auto
  then have c: "\<not> is_space c" "c \<noteq> CHR 0x2D" "c \<noteq> CHR 0x2B"
    using assms(2) digit_not_space sign_not_digit by auto
  have "takeWhile is_digit (ds @ r) = ds @ takeWhile is_digit r"
    by (rule takeWhile_append2) (use assms(2) in blast)
  moreover have "takeWhile is_digit r = []" using assms(3) by (cases r) auto
  ultimately show ?thesis using c by (simp add: scan_d_def ds Let_def)
qed

lemma two_digits_facts:
  "two_digits n \<noteq> []" "\<forall>c \<in> set (two_digits n). is_digit c" "read_digits (two_digits n) = n"
  "n < 100 \<Longrightarrow> length (two_digits n) = 2"
proof -
  show "two_digits n \<noteq> []" by (simp add: two_digits_def)
  have "is_digit (CHR ''0'')" by (simp add: is_digit_def)
  then show "\<forall>c \<in> set (two_digits n). is_digit c" using show_nat_digits by (auto simp: two_digits_def)
  have "read_digits (CHR ''0'' # show_nat n) = read_digits (show_nat n)"
    by (simp add: read_digits_def digit_val_def)
  then show "read_digits (two_digits n) = n" by (simp add: two_digits_def)
  show "length (two_digits n) = 2" if "n < 100"
  proof (cases "n < 10")
    case True
    then show ?thesis by (subst two_digits_def) (simp add: show_nat.simps [of n])
  next
    case False
    then have "n div 10 < 10" using that by simp
    with False show ?thesis by (simp add: two_digits_def show_nat.simps [of n] show_nat.simps [of "n div 10"])
  qed
qed

lemma scan_two_digits:
  "r = [] \<or> \<not> is_digit (hd r) \<Longrightarrow> scan_d (two_digits n @ r) = Some (int n, r)"
  using scan_d_digits [OF two_digits_facts(1,2)] by (simp add: two_digits_facts(3))

lemma separators: "\<not> is_digit (CHR ''-'')" "\<not> is_digit (CHR '' '')" "\<not> is_digit (CHR '':'')" "\<not> is_digit (CHR 0x0A)"
  "is_space (CHR '' '')"
  by (simp_all add: is_digit_def is_space_def)

lemma read_time_line: "read_time (time_line t) = Some t"
proof -
  have year: "scan_d (show_nat n @ r) = Some (int n, r)" if "r = [] \<or> \<not> is_digit (hd r)" for n r
    using scan_d_digits [OF show_nat_not_Nil show_nat_digits that] by simp
  have blank: "scan_d (CHR '' '' # s) = scan_d s" for s
    using scan_d_spaces [of "'' ''" s] separators by simp
  show ?thesis
    using separators by (simp add: read_time_def time_line_def year scan_two_digits blank)
qed

lemma time_line_length: "valid_tm t \<Longrightarrow> length (time_line t) \<le> 20"
  using length_show_nat [of "tm_year t" 4] by (simp add: valid_tm_def time_line_def two_digits_facts(4))

lemma reply_line:
  "valid_tm t \<Longrightarrow> make_time_response 64 t = Some (time_line t) \<and> time_text t = time_line t"
  using time_line_length [of t] by (simp add: make_time_response_def time_text_def time_line_def Let_def)

lemma c_string_time_line: "c_string (time_line t)"
proof -
  have "\<not> is_digit (CHR 0x00)" by (simp add: is_digit_def)
  then have "c_string w" if "\<forall>c \<in> set w. is_digit c" for w using that by (auto simp: c_string_def)
  then have "c_string (show_nat n)" "c_string (two_digits n)" for n
    using show_nat_digits two_digits_facts(2) by blast+
  moreover have "c_string (c # w) \<longleftrightarrow> c \<noteq> CHR 0x00 \<and> c_string w" "c_string []" for c w
    by (auto simp: c_string_def)
  ultimately show ?thesis by (simp add: time_line_def)
qed

subsection \<open>From the clock to the client\<close>

text \<open>What a program prints when every call works and the texts \<open>ts\<close> come in.\<close>

definition prints_on :: "'a sysm \<Rightarrow> string list \<Rightarrow> string list" where
  "prints_on m ts = printed (snd (run_state m (sys_start all_work ts)))"

lemma until_nul_line: "c_string s \<Longrightarrow> length s \<le> n \<Longrightarrow> until_nul (take n s) = s"
  by (auto simp: until_nul_def c_string_def intro!: takeWhile_eq_all_conv [THEN iffD2])

lemma clients_show:
  assumes "c_string s" "length s \<le> 127"
  shows "prints_on time_client [s] = [''Current time: '' @ s]" "prints_on queue_client [s] = [''Current time: '' @ s]"
    "prints_on (multi_client_main []) [s] = [''TCP time: '' @ s]"
    "prints_on (multi_client_main [''udp'']) [s] = [''UDP time: '' @ s]"
  using until_nul_line [OF assms]
  by (simp_all add: prints_on_def time_client_def queue_client_def multi_client_main_def run_tcp_client_def
      run_udp_client_def run_steps sys_start_def all_work_list worked_def is_one_def next_text_def)

lemma pool_client_shows:
  assumes "c_string s" "length s \<le> 127" "c_string a" "length a \<le> 127" "scan_port a = Some port"
  shows "prints_on pool_client_main [a, s] = [''Current time: '' @ s]"
  using until_nul_line [OF assms(1,2)] until_nul_line [OF assms(3,4)] assms(5)
  by (simp add: prints_on_def pool_client_main_def connect_to_port_def run_steps sys_start_def all_work_list
      worked_def is_one_def next_text_def release_def State_Monad.run_state_bind)

lemma pool_answers:
  "w \<in> set pool_start \<Longrightarrow> scan_port (pool_answer (w_port w)) = Some (w_port w) \<and>
   c_string (pool_answer (w_port w)) \<and> length (pool_answer (w_port w)) \<le> 127"
proof -
  assume w: "w \<in> set pool_start"
  have "c_string (pool_answer p)" if "0 \<le> p" for p
  proof -
    have "c_string (''PORT '' @ show_int p @ [CHR 0x0A])" by (simp add: c_string_def) (use show_int_no_nul in \<open>simp add: c_string_def\<close>)
    with that show ?thesis by (simp add: pool_answer_def c_string_fit)
  qed
  moreover have "0 \<le> w_port w" using w by (auto simp: pool_start_def WORKER_PORT_BASE_def)
  moreover have "length (pool_answer p) \<le> 127" for p
  proof -
    have "length (fit 64 x) \<le> 127" for x using length_fit [of 64 x] by simp
    then show ?thesis by (simp add: pool_answer_def)
  qed
  ultimately show ?thesis using pool_answer_round_trip w by auto
qed

text \<open>What the servers do with one client that sent something, when \<^verbatim>\<open>write\<close> works.\<close>

lemma servers_reply:
  assumes "valid_tm t"
  shows "pool_serve_time (Data req) t True = [Reply (time_line t) True]"
    and "thread_server_round \<lparr>malloc_ok = True, round_client = Some fd, accept_interrupted = intr, thread_ok = True,
         round_read = Data req, round_time = t, round_write = True\<rparr> =
      [Malloced, Round_accepted fd, Freed, Round_served fd [Reply (time_line t) True], Round_closed fd]"
    and "i < length ws \<Longrightarrow> snd (worker_visit i (Data req) t True ws) =
      [Served i [Reply (time_line t) True], Pool_print (''worker '' @ show_int (w_id (ws ! i)) @ '' is free'')]"
    and "w < length (workers s) \<Longrightarrow> workers s ! w = Some fd \<Longrightarrow> fd \<in> spoken s \<Longrightarrow>
      worker_serve w (Data req) t True s = Some (s\<lparr>workers := (workers s)[w := None],
        served := served s @ [(fd, [Reply (time_line t) True])], closed := closed s @ [fd], spoken := spoken s - {fd}\<rparr>)"
    and "snd (handle_tcp_client t (Data req) True i tbl) =
      [Tcp_reply (pfd (slots tbl ! i)) (time_line t) True, Tcp_closed (pfd (slots tbl ! i))]"
    and "handle_udp t (map (\<lambda>from. Datagram from True) froms) = map (\<lambda>from. Udp_reply from (time_line t) True) froms"
proof -
  have reply: "serve_time (Data req) t True = [Reply (time_line t) True]" for req
    using reply_line [OF assms] by (simp add: serve_time_def)
  show "pool_serve_time (Data req) t True = [Reply (time_line t) True]"
    using reply_line [OF assms] by (simp add: pool_serve_time_def pool_make_time_response_def)
  show "thread_server_round \<lparr>malloc_ok = True, round_client = Some fd, accept_interrupted = intr, thread_ok = True,
         round_read = Data req, round_time = t, round_write = True\<rparr> =
      [Malloced, Round_accepted fd, Freed, Round_served fd [Reply (time_line t) True], Round_closed fd]"
    by (simp add: thread_server_round_def serve_client_def reply)
  show "snd (worker_visit i (Data req) t True ws) =
      [Served i [Reply (time_line t) True], Pool_print (''worker '' @ show_int (w_id (ws ! i)) @ '' is free'')]"
    if "i < length ws"
    using that by (simp add: worker_visit_def reply)
  show "worker_serve w (Data req) t True s = Some (s\<lparr>workers := (workers s)[w := None],
        served := served s @ [(fd, [Reply (time_line t) True])], closed := closed s @ [fd], spoken := spoken s - {fd}\<rparr>)"
    if "w < length (workers s)" "workers s ! w = Some fd" "fd \<in> spoken s"
    using that by (simp add: worker_serve_def reply)
  show "snd (handle_tcp_client t (Data req) True i tbl) =
      [Tcp_reply (pfd (slots tbl ! i)) (time_line t) True, Tcp_closed (pfd (slots tbl ! i))]"
    using reply_line [OF assms] by (simp add: handle_tcp_client_def remove_fd_def)
  show "handle_udp t (map (\<lambda>from. Datagram from True) froms) = map (\<lambda>from. Udp_reply from (time_line t) True) froms"
    using reply_line [OF assms] by (induction froms) simp_all
qed

text \<open>
  Property C40.  The time arrives.  For every time of day with a year of at most four digits there is
  one line that reads back as exactly that time, and it is what each of the four servers sends to a
  client whose request it reads, as long as \<^verbatim>\<open>write\<close> and \<^verbatim>\<open>sendto\<close> work: a round of the
  thread-per-client server, whose thread closes the client afterwards; a worker of the pool; a worker behind the ring, which closes
  the client; and the multi-protocol server, to the ready TCP client it then closes and to the sender of every
  datagram that is waiting.  Every client, when its calls work, prints that line when it receives it: those
  of the servers 1 and 3, both kinds of client of server 4, and the client of the pool that was first
  sent to the port of any of the workers.
\<close>

theorem time_service:
  assumes "valid_tm t"
  shows "\<exists>line. read_time line = Some t \<and>
    (\<forall>fd req intr. thread_server_round \<lparr>malloc_ok = True, round_client = Some fd, accept_interrupted = intr,
         thread_ok = True, round_read = Data req, round_time = t, round_write = True\<rparr> =
       [Malloced, Round_accepted fd, Freed, Round_served fd [Reply line True], Round_closed fd]) \<and>
    (\<forall>req. pool_serve_time (Data req) t True = [Reply line True]) \<and>
    (\<forall>req i ws. i < length ws \<longrightarrow> Served i [Reply line True] \<in> set (snd (worker_visit i (Data req) t True ws))) \<and>
    (\<forall>req s w fd. w < length (workers s) \<longrightarrow> workers s ! w = Some fd \<longrightarrow> fd \<in> spoken s \<longrightarrow>
       (\<exists>s'. worker_serve w (Data req) t True s = Some s' \<and>
          served s' = served s @ [(fd, [Reply line True])] \<and> closed s' = closed s @ [fd])) \<and>
    (\<forall>req i tbl. snd (handle_tcp_client t (Data req) True i tbl) =
       [Tcp_reply (pfd (slots tbl ! i)) line True, Tcp_closed (pfd (slots tbl ! i))]) \<and>
    (\<forall>froms. handle_udp t (map (\<lambda>from. Datagram from True) froms) = map (\<lambda>from. Udp_reply from line True) froms) \<and>
    prints_on time_client [line] = [''Current time: '' @ line] \<and>
    prints_on queue_client [line] = [''Current time: '' @ line] \<and>
    prints_on (multi_client_main []) [line] = [''TCP time: '' @ line] \<and>
    prints_on (multi_client_main [''udp'']) [line] = [''UDP time: '' @ line] \<and>
    list_all (\<lambda>w. prints_on pool_client_main [pool_answer (w_port w), line] = [''Current time: '' @ line]) pool_start"
proof -
  have len: "length (time_line t) \<le> 127" using time_line_length [OF assms] by simp
  have "prints_on pool_client_main [pool_answer (w_port w), time_line t] = [''Current time: '' @ time_line t]"
    if "w \<in> set pool_start" for w
    using pool_answers [OF that] by (intro pool_client_shows [OF c_string_time_line len]) auto
  then have "list_all (\<lambda>w. prints_on pool_client_main [pool_answer (w_port w), time_line t] =
      [''Current time: '' @ time_line t]) pool_start"
    by (simp add: list_all_iff)
  then show ?thesis
    using read_time_line [of t] clients_show [OF c_string_time_line len]
    by (intro exI [of _ "time_line t"]) (simp add: servers_reply [OF assms])
qed

definition demo_poll_table :: poll_table where
  "demo_poll_table = fst (handle_tcp_listener [Client 9 True] (poll_start 3 4))"

lemma time_service_witness:
  "\<exists>line. read_time line = Some demo_tm \<and> prints_on time_client [line] = [''Current time: '' @ line] \<and>
     snd (handle_tcp_client demo_tm (Data ''time'') True 2 demo_poll_table) = [Tcp_reply 9 line True, Tcp_closed 9]"
proof -
  have "valid_tm demo_tm" by (simp add: valid_tm_def demo_tm_def)
  from time_service [OF this] obtain line where line: "read_time line = Some demo_tm"
      "prints_on time_client [line] = [''Current time: '' @ line]"
      "snd (handle_tcp_client demo_tm (Data ''time'') True 2 demo_poll_table) =
        [Tcp_reply (pfd (slots demo_poll_table ! 2)) line True, Tcp_closed (pfd (slots demo_poll_table ! 2))]"
    by blast
  moreover have "pfd (slots demo_poll_table ! 2) = 9" by code_simp
  ultimately show ?thesis by (intro exI [of _ line]) simp
qed

subsection \<open>The mains\<close>

text \<open>A server that cannot start returns 1 having closed what it opened; one that runs holds its
  listener.\<close>

lemma thread_listener_owns: "owns [] thread_listener (\<lambda>fd. if fd = -1 then [] else [fd])"
  unfolding thread_listener_def by (intro owns_intros) simp_all

lemma thread_main_failed:
  assumes "run_state (thread_server_main es) (sys_start rs ts) = ((Some code, ev), s)"
  shows "code = 1 \<and> ev = [] \<and> mset (released s) = mset (acquired s)"
proof -
  obtain fd s1 where l: "run_state thread_listener (sys_start rs ts) = (fd, s1)" by fastforce
  with assms have "fd = -1 \<and> code = 1 \<and> ev = [] \<and> s = s1"
    by (auto simp: thread_server_main_def State_Monad.run_state_bind run_say State_Monad.return_def split: if_splits)
  with owns_from_start [OF thread_listener_owns l] show ?thesis by auto
qed

end
