(* ===== verification/Abonent.thy ===== *)
theory Abonent
  imports C_Text "HOL-Library.Word"
begin

text \<open>
  What the two phone books (\<^verbatim>\<open>labs/lab-4\<close>, an array, and \<^verbatim>\<open>labs/lab-6\<close>, a doubly linked list)
  share: the entry with its three buffers of ten bytes, the comparison of ten bytes, and the
  reading of the menu from standard input, which is the list of the characters still to come.
\<close>

record abonent =
  ab_name :: "char list"
  second_name :: "char list"
  tel :: "char list"

text \<open>\<^verbatim>\<open>strcmp10\<close> from byte \<open>i\<close> on.\<close>

function strcmp10_from :: "nat \<Rightarrow> char list \<Rightarrow> char list \<Rightarrow> int" where
  "strcmp10_from i first second =
     (if i < 10 then
        if first ! i \<noteq> second ! i then of_char (first ! i) - of_char (second ! i)
        else strcmp10_from (i + 1) first second
      else 0)"
  by pat_completeness auto
termination by (relation "measure (\<lambda>(i, _, _). 10 - i)") auto

declare strcmp10_from.simps [simp del]

definition strcmp10 :: "char list \<Rightarrow> char list \<Rightarrow> int" where
  "strcmp10 first second = strcmp10_from 0 first second"

lemma strcmp10_from_zero:
  "strcmp10_from i a b = 0 \<longleftrightarrow> (\<forall>j. i \<le> j \<and> j < 10 \<longrightarrow> a ! j = b ! j)"
proof (induction i a b rule: strcmp10_from.induct)
  case (1 i a b)
  show ?case
  proof (cases "i < 10")
    case True
    have "of_char (a ! i) - of_char (b ! i) = (0 :: int) \<longleftrightarrow> a ! i = b ! i" by simp
    moreover have "(\<forall>j. i \<le> j \<and> j < 10 \<longrightarrow> a ! j = b ! j) \<longleftrightarrow>
        a ! i = b ! i \<and> (\<forall>j. i + 1 \<le> j \<and> j < 10 \<longrightarrow> a ! j = b ! j)"
      using True by (auto simp: Suc_le_eq dest: le_neq_implies_less)
    ultimately show ?thesis using 1 True by (simp add: strcmp10_from.simps [of i])
  next
    case False
    then show ?thesis by (subst strcmp10_from.simps) auto
  qed
qed

lemma strcmp10_eq:
  assumes "length a = 10" "length b = 10"
  shows "strcmp10 a b = 0 \<longleftrightarrow> a = b"
  using assms by (simp add: strcmp10_def strcmp10_from_zero list_eq_iff_nth_eq)

subsection \<open>Standard input\<close>

text \<open>\<^verbatim>\<open>clear_input\<close>: up to and including the end of the line.\<close>

fun clear_input :: "string \<Rightarrow> string" where
  "clear_input [] = []"
| "clear_input (c # s) = (if c = CHR 0x0A then s else clear_input s)"

text \<open>
  \<^verbatim>\<open>scanf("%9s", buf)\<close>: white space is skipped, at most nine characters and a NUL are stored; the
  rest of the buffer, and at the end of the input all of it, stays as it was.
\<close>

definition scan_word :: "char list \<Rightarrow> string \<Rightarrow> char list \<times> string" where
  "scan_word buf input =
     (let s = dropWhile is_space input; w = take 9 (takeWhile (\<lambda>c. \<not> is_space c) s)
      in if w = [] then (buf, s) else (w @ [CHR 0x00] @ drop (length w + 1) buf, drop (length w) s))"

text \<open>
  \<^verbatim>\<open>scanf("%u", &v)\<close>: the number in 64 bits, cut to 32; \<open>None\<close> when there is none (the input is then
  at the first character that is not white space).
\<close>

definition scan_unsigned :: "string \<Rightarrow> 32 word option \<times> string" where
  "scan_unsigned input =
     (let s = dropWhile is_space input;
          neg = (s \<noteq> [] \<and> hd s = CHR ''-'');
          r = (if s \<noteq> [] \<and> (hd s = CHR ''-'' \<or> hd s = CHR ''+'') then tl s else s);
          ds = takeWhile is_digit r; v = int (read_digits ds)
      in if ds = [] then (None, s)
         else (Some (word_of_int (if v < 2 ^ 64 then (if neg then - v else v) else - 1)),
               drop (length ds) r))"

definition zero_buffer :: "char list" where
  "zero_buffer = replicate 10 (CHR 0x00)"

lemma scan_word_length:
  "length buf = 10 \<Longrightarrow> length (fst (scan_word buf input)) = 10"
  by (auto simp: scan_word_def Let_def)

text \<open>The word \<open>%9s\<close> reads; in a buffer of zeros nothing else is left behind it.\<close>

definition word_of :: "string \<Rightarrow> string" where
  "word_of input = take 9 (takeWhile (\<lambda>c. \<not> is_space c) (dropWhile is_space input))"

definition padded :: "string \<Rightarrow> char list" where
  "padded w = w @ replicate (10 - length w) (CHR 0x00)"

lemma scan_word_zero: "fst (scan_word zero_buffer input) = padded (word_of input)"
proof -
  have len: "length (word_of input) \<le> 9" by (simp add: word_of_def)
  then have "[CHR 0x00] @ drop (length (word_of input) + 1) zero_buffer =
      replicate (10 - length (word_of input)) (CHR 0x00)"
    by (simp add: zero_buffer_def flip: replicate_Suc)
  then show ?thesis
    unfolding scan_word_def Let_def word_of_def [symmetric] padded_def
    by (auto simp: zero_buffer_def)
qed

lemma padded_inj:
  assumes "CHR 0x00 \<notin> set v" "CHR 0x00 \<notin> set w"
  shows "padded v = padded w \<longleftrightarrow> v = w"
proof
  have cut: "takeWhile (\<lambda>c. c \<noteq> CHR 0x00) (padded u) = u" if "CHR 0x00 \<notin> set u" for u
  proof -
    have "takeWhile (\<lambda>c. c \<noteq> CHR 0x00) (padded u) =
        u @ takeWhile (\<lambda>c. c \<noteq> CHR 0x00) (replicate (10 - length u) (CHR 0x00))"
      unfolding padded_def by (rule takeWhile_append2) (use that in blast)
    then show ?thesis by (cases "10 - length u") simp_all
  qed
  assume "padded v = padded w"
  with cut [OF assms(1)] cut [OF assms(2)] show "v = w" by metis
qed simp

lemma length_clear_input: "length (clear_input s) \<le> length s"
  by (induction s) auto

end
