(* ===== verification/Book_List.thy ===== *)
theory Book_List
  imports Abonent "HOL-Library.Monad_Syntax"
begin

text \<open>
  The phone book as a doubly linked list, \<^verbatim>\<open>labs/lab-6/src/abonent.c\<close> and \<^verbatim>\<open>menu.c\<close>.

  Memory is a map from addresses to nodes; a pointer is an address or \<open>None\<close> (\<^verbatim>\<open>NULL\<close>).  An
  operation returns \<open>None\<close> when it reads or writes through a pointer to memory that is not
  allocated, or never returns: its loops are \<open>partial_function (option)\<close>.  \<^verbatim>\<open>malloc\<close> is the argument
  \<open>alloc\<close>; what the program relies on is \<open>fresh_alloc\<close>.
\<close>

record node =
  n_data :: abonent
  n_next :: "nat option"
  n_prev :: "nat option"

type_synonym memory = "nat \<Rightarrow> node option"

record book =
  bk_heap :: memory
  bk_head :: "nat option"

datatype book_event =
    Print_abonent abonent | Print_not_found string | Remove_error string | Added string
  | Removed string | Tabs nat | Error_id

definition fresh_alloc :: "(memory \<Rightarrow> nat option) \<Rightarrow> bool" where
  "fresh_alloc alloc \<longleftrightarrow> (\<forall>h a. alloc h = Some a \<longrightarrow> h a = None)"

definition set_next :: "nat \<Rightarrow> nat option \<Rightarrow> memory \<Rightarrow> memory option" where
  "set_next a p h = do { n \<leftarrow> h a; Some (h(a \<mapsto> n\<lparr>n_next := p\<rparr>)) }"

definition set_prev :: "nat \<Rightarrow> nat option \<Rightarrow> memory \<Rightarrow> memory option" where
  "set_prev a p h = do { n \<leftarrow> h a; Some (h(a \<mapsto> n\<lparr>n_prev := p\<rparr>)) }"

subsection \<open>The operations\<close>

partial_function (option) size_from :: "memory \<Rightarrow> nat option \<Rightarrow> nat \<Rightarrow> nat option" where
  "size_from h p count =
     (case p of None \<Rightarrow> Some count
      | Some a \<Rightarrow> do { n \<leftarrow> h a; size_from h (n_next n) (count + 1) })"

definition get_abonents_size :: "book \<Rightarrow> nat option" where
  "get_abonents_size b = size_from (bk_heap b) (bk_head b) 0"

partial_function (option) clear_from :: "memory \<Rightarrow> nat option \<Rightarrow> memory option" where
  "clear_from h p =
     (case p of None \<Rightarrow> Some h
      | Some a \<Rightarrow> do { n \<leftarrow> h a; clear_from (h(a := None)) (n_next n) })"

definition abonents_clear :: "book \<Rightarrow> book option" where
  "abonents_clear b =
     (if bk_head b = None then Some b
      else do { h \<leftarrow> clear_from (bk_heap b) (bk_head b); Some \<lparr>bk_heap = h, bk_head = None\<rparr> })"

definition create_node :: "(memory \<Rightarrow> nat option) \<Rightarrow> abonent \<Rightarrow> memory \<Rightarrow> nat option \<times> memory" where
  "create_node alloc data h =
     (case alloc h of None \<Rightarrow> (None, h)
      | Some a \<Rightarrow> (Some a, h(a \<mapsto> \<lparr>n_data = data, n_next = None, n_prev = None\<rparr>)))"

partial_function (option) last_from :: "memory \<Rightarrow> nat \<Rightarrow> nat option" where
  "last_from h a =
     do { n \<leftarrow> h a; case n_next n of None \<Rightarrow> Some a | Some b \<Rightarrow> last_from h b }"

text \<open>\<^verbatim>\<open>abonent_add\<close> returns whether it failed.\<close>

definition abonent_add :: "(memory \<Rightarrow> nat option) \<Rightarrow> abonent \<Rightarrow> book \<Rightarrow> (bool \<times> book) option" where
  "abonent_add alloc data b =
     (case bk_head b of
        None \<Rightarrow>
          (case create_node alloc data (bk_heap b) of
             (p, h) \<Rightarrow> Some (p = None, \<lparr>bk_heap = h, bk_head = p\<rparr>))
      | Some a \<Rightarrow> do {
          current \<leftarrow> last_from (bk_heap b) a;
          case create_node alloc data (bk_heap b) of
            (p, h) \<Rightarrow> do {
              h1 \<leftarrow> set_next current p h;
              case p of
                None \<Rightarrow> Some (True, b\<lparr>bk_heap := h1\<rparr>)
              | Some new \<Rightarrow> do {
                  h2 \<leftarrow> set_prev new (Some current) h1;
                  Some (False, b\<lparr>bk_heap := h2\<rparr>) } } })"

partial_function (option) search_from :: "memory \<Rightarrow> nat option \<Rightarrow> char list \<Rightarrow> nat option option" where
  "search_from h p name =
     (case p of None \<Rightarrow> Some None
      | Some a \<Rightarrow> do {
          n \<leftarrow> h a;
          if strcmp10 (ab_name (n_data n)) name = 0 then Some (Some a)
          else search_from h (n_next n) name })"

definition abonent_remove :: "char list \<Rightarrow> book \<Rightarrow> (bool \<times> book \<times> book_event list) option" where
  "abonent_remove name b = do {
     current \<leftarrow> search_from (bk_heap b) (bk_head b) name;
     case current of
       None \<Rightarrow> Some (True, b, [Remove_error (until_nul name)])
     | Some a \<Rightarrow> do {
         n \<leftarrow> bk_heap b a;
         let head = (if bk_head b = Some a then n_next n else bk_head b);
         h1 \<leftarrow> (case n_prev n of None \<Rightarrow> Some (bk_heap b) | Some q \<Rightarrow> set_next q (n_next n) (bk_heap b));
         h2 \<leftarrow> (case n_next n of None \<Rightarrow> Some h1 | Some q \<Rightarrow> set_prev q (n_prev n) h1);
         Some (False, \<lparr>bk_heap = h2(a := None), bk_head = head\<rparr>, []) } }"

partial_function (option) matches_from :: "memory \<Rightarrow> nat option \<Rightarrow> char list \<Rightarrow> abonent list option" where
  "matches_from h p name =
     (case p of None \<Rightarrow> Some []
      | Some a \<Rightarrow> do {
          n \<leftarrow> h a;
          rest \<leftarrow> matches_from h (n_next n) name;
          Some (if strcmp10 (ab_name (n_data n)) name = 0 then n_data n # rest else rest) })"

definition abonent_find :: "char list \<Rightarrow> book \<Rightarrow> book_event list option" where
  "abonent_find name b = do {
     found \<leftarrow> matches_from (bk_heap b) (bk_head b) name;
     Some (if found = [] then [Print_not_found (until_nul name)] else map Print_abonent found) }"

partial_function (option) print_from :: "memory \<Rightarrow> nat option \<Rightarrow> book_event list option" where
  "print_from h p =
     (case p of None \<Rightarrow> Some []
      | Some a \<Rightarrow> do { n \<leftarrow> h a; rest \<leftarrow> print_from h (n_next n); Some (Print_abonent (n_data n) # rest) })"

definition abonents_print :: "book \<Rightarrow> book_event list option" where
  "abonents_print b = print_from (bk_heap b) (bk_head b)"

subsection \<open>The menu\<close>

text \<open>What one round reads: the number and, for 1, 2 and 3, the words, into buffers of zeros.\<close>

datatype menu_command =
    Cmd_add abonent | Cmd_remove "char list" | Cmd_find "char list" | Cmd_print | Cmd_exit | Cmd_bad

definition read_word :: "string \<Rightarrow> char list \<times> string" where
  "read_word input = (case scan_word zero_buffer input of (buf, rest) \<Rightarrow> (buf, clear_input rest))"

definition read_menu :: "string \<Rightarrow> menu_command \<times> string" where
  "read_menu input =
     (case scan_unsigned input of
        (None, rest) \<Rightarrow> (Cmd_bad, clear_input rest)
      | (Some menu_id, rest) \<Rightarrow>
          if menu_id = 1 then
            (case read_word rest of (name, i1) \<Rightarrow> case read_word i1 of (second, i2) \<Rightarrow>
             case read_word i2 of (t, i3) \<Rightarrow>
               (Cmd_add \<lparr>ab_name = name, second_name = second, tel = t\<rparr>, i3))
          else if menu_id = 2 then (case read_word rest of (name, i1) \<Rightarrow> (Cmd_remove name, i1))
          else if menu_id = 3 then (case read_word rest of (name, i1) \<Rightarrow> (Cmd_find name, i1))
          else if menu_id = 4 then (Cmd_print, rest)
          else if menu_id = 5 then (Cmd_exit, rest)
          else (Cmd_bad, rest))"

definition menu_switch ::
    "(memory \<Rightarrow> nat option) \<Rightarrow> menu_command \<Rightarrow> book \<Rightarrow> (book \<times> book_event list) option" where
  "menu_switch alloc c b =
     (case c of
        Cmd_add d \<Rightarrow> do {
          (failed, b1) \<leftarrow> abonent_add alloc d b;
          Some (b1, if failed then [] else [Added (until_nul (ab_name d))]) }
      | Cmd_remove name \<Rightarrow> do {
          (failed, b1, ev) \<leftarrow> abonent_remove name b;
          Some (b1, ev @ (if failed then [] else [Removed (until_nul name)])) }
      | Cmd_find name \<Rightarrow> do { ev \<leftarrow> abonent_find name b; Some (b, ev) }
      | Cmd_print \<Rightarrow> do { ev \<leftarrow> abonents_print b; Some (b, ev) }
      | Cmd_exit \<Rightarrow> do { b1 \<leftarrow> abonents_clear b; Some (b1, []) }
      | Cmd_bad \<Rightarrow> Some (b, [Error_id]))"

text \<open>\<^verbatim>\<open>abonent_handbook\<close> for at most \<open>fuel\<close> rounds.\<close>

fun abonent_handbook ::
    "nat \<Rightarrow> (memory \<Rightarrow> nat option) \<Rightarrow> string \<Rightarrow> book \<Rightarrow> (book \<times> book_event list) option" where
  "abonent_handbook 0 alloc input b = None"
| "abonent_handbook (Suc fuel) alloc input b = do {
     n \<leftarrow> get_abonents_size b;
     case read_menu input of
       (c, rest) \<Rightarrow> do {
         (b1, ev) \<leftarrow> menu_switch alloc c b;
         if c = Cmd_exit then Some (b1, Tabs n # ev)
         else do {
           (b2, ev2) \<leftarrow> abonent_handbook fuel alloc rest b1;
           Some (b2, Tabs n # ev @ ev2) } } }"

definition empty_book :: book where
  "empty_book = \<lparr>bk_heap = (\<lambda>_. None), bk_head = None\<rparr>"

subsection \<open>Lists in memory\<close>

text \<open>
  The nodes \<open>xs\<close> (address and data) from pointer \<open>p\<close>, behind \<open>prev\<close>, up to the pointer \<open>q\<close>, with
  \<open>l\<close> the last of them.
\<close>

primrec seg :: "memory \<Rightarrow> nat option \<Rightarrow> nat option \<Rightarrow> (nat \<times> abonent) list \<Rightarrow> nat option \<Rightarrow> nat option \<Rightarrow> bool" where
  "seg h prev p [] l q \<longleftrightarrow> l = prev \<and> p = q"
| "seg h prev p (x # xs) l q \<longleftrightarrow> p = Some (fst x) \<and>
     (\<exists>nx. h (fst x) = Some \<lparr>n_data = snd x, n_next = nx, n_prev = prev\<rparr> \<and> seg h (Some (fst x)) nx xs l q)"

lemma seg_append:
  "seg h prev p (xs @ ys) l q \<longleftrightarrow> (\<exists>l1 q1. seg h prev p xs l1 q1 \<and> seg h l1 q1 ys l q)"
  by (induction xs arbitrary: prev p) auto

lemma seg_frame [simp]: "a \<notin> fst ` set xs \<Longrightarrow> seg (h(a := v)) prev p xs l q \<longleftrightarrow> seg h prev p xs l q"
  by (induction xs arbitrary: prev p) auto

lemma seg_last: "seg h prev p (xs @ [x]) l q \<Longrightarrow> l = Some (fst x)"
  by (auto simp: seg_append)

lemma seg_set_next:
  assumes "seg h prev p (xs @ [x]) l q" "distinct (map fst (xs @ [x]))"
  shows "\<exists>h'. set_next (fst x) q' h = Some h' \<and> seg h' prev p (xs @ [x]) l q' \<and>
    (\<forall>a. a \<noteq> fst x \<longrightarrow> h' a = h a) \<and> dom h' = dom h"
  using assms by (auto simp: seg_append set_next_def)

lemma seg_set_prev:
  assumes "seg h prev p (x # xs) l q" "distinct (map fst (x # xs))"
  shows "\<exists>h'. set_prev (fst x) prev' h = Some h' \<and> seg h' prev' p (x # xs) l q \<and>
    (\<forall>a. a \<noteq> fst x \<longrightarrow> h' a = h a) \<and> dom h' = dom h"
  using assms by (auto simp: set_prev_def)

lemma seg_cong: "\<forall>a \<in> fst ` set xs. h' a = h a \<Longrightarrow> seg h' prev p xs l q \<longleftrightarrow> seg h prev p xs l q"
  by (induction xs arbitrary: prev p) auto

definition holds :: "book \<Rightarrow> (nat \<times> abonent) list \<Rightarrow> bool" where
  "holds b xs \<longleftrightarrow> (\<exists>l. seg (bk_heap b) None (bk_head b) xs l None) \<and> distinct (map fst xs) \<and>
     dom (bk_heap b) = fst ` set xs \<and> (\<forall>x \<in> set xs. length (ab_name (snd x)) = 10)"

lemma size_from_seg: "seg h prev p xs l None \<Longrightarrow> size_from h p k = Some (k + length xs)"
  by (induction xs arbitrary: prev p k) (auto simp: size_from.simps)

lemma print_from_seg: "seg h prev p xs l None \<Longrightarrow> print_from h p = Some (map (\<lambda>x. Print_abonent (snd x)) xs)"
  by (induction xs arbitrary: prev p) (auto simp: print_from.simps)

lemma matches_from_seg:
  "seg h prev p xs l None \<Longrightarrow> \<forall>x \<in> set xs. length (ab_name (snd x)) = 10 \<Longrightarrow> length name = 10 \<Longrightarrow>
   matches_from h p name = Some (filter (\<lambda>d. ab_name d = name) (map snd xs))"
  by (induction xs arbitrary: prev p) (auto simp: matches_from.simps strcmp10_eq)

lemma clear_from_seg:
  "seg h prev p xs l None \<Longrightarrow> distinct (map fst xs) \<Longrightarrow>
   \<exists>h'. clear_from h p = Some h' \<and> dom h' = dom h - fst ` set xs"
proof (induction xs arbitrary: h prev p)
  case Nil
  then show ?case by (simp add: clear_from.simps)
next
  case (Cons x xs)
  then obtain nx where n: "h (fst x) = Some \<lparr>n_data = snd x, n_next = nx, n_prev = prev\<rparr>"
    and s: "seg h (Some (fst x)) nx xs l None" and p: "p = Some (fst x)" by auto
  have "seg (h(fst x := None)) (Some (fst x)) nx xs l None"
    using s Cons.prems(2) by (simp add: image_iff) 
  from Cons.IH [OF this] Cons.prems(2) obtain h' where
    "clear_from (h(fst x := None)) nx = Some h'" "dom h' = dom (h(fst x := None)) - fst ` set xs"
    by (metis distinct.simps(2) list.simps(9))
  then show ?case unfolding p by (subst clear_from.simps) (auto simp: n)
qed

lemma search_from_seg:
  "seg h prev p xs l None \<Longrightarrow> \<forall>x \<in> set xs. length (ab_name (snd x)) = 10 \<Longrightarrow> length name = 10 \<Longrightarrow>
   search_from h p name = Some (map_option fst (find (\<lambda>x. ab_name (snd x) = name) xs))"
  by (induction xs arbitrary: prev p) (auto simp: search_from.simps strcmp10_eq)

lemma last_from_seg: "seg h prev (Some a) (xs @ [x]) l None \<Longrightarrow> last_from h a = Some (fst x)"
proof (induction xs arbitrary: prev a)
  case Nil
  then show ?case by (auto simp: last_from.simps)
next
  case (Cons y ys)
  then obtain nx where "h a = Some \<lparr>n_data = snd y, n_next = nx, n_prev = prev\<rparr>"
    "seg h (Some a) nx (ys @ [x]) l None" by auto
  then show ?case using Cons.IH by (cases nx; cases ys) (auto simp: last_from.simps [of h a] simp del: seg.simps(1))
qed

lemma abonent_add_holds:
  assumes "holds b xs" "fresh_alloc alloc" "length (ab_name d) = 10"
  shows "\<exists>b'. (case alloc (bk_heap b) of
      None \<Rightarrow> abonent_add alloc d b = Some (True, b') \<and> holds b' xs
    | Some a \<Rightarrow> abonent_add alloc d b = Some (False, b') \<and> holds b' (xs @ [(a, d)]))"
proof (cases xs rule: rev_cases)
  case Nil
  with assms show ?thesis
    by (cases "alloc (bk_heap b)") (auto simp: holds_def abonent_add_def create_node_def)
next
  case (snoc ys y)
  obtain l where s: "seg (bk_heap b) None (bk_head b) (ys @ [y]) l None"
    and d: "distinct (map fst (ys @ [y]))" and dom: "dom (bk_heap b) = fst ` set xs"
    using assms(1) snoc by (auto simp: holds_def)
  have head: "bk_head b \<noteq> None" using s by (cases ys) auto
  then obtain a where a: "bk_head b = Some a" by auto
  have last: "last_from (bk_heap b) a = Some (fst y)" using last_from_seg s a by metis
  have l: "l = Some (fst y)" using seg_last [OF s] .
  show ?thesis
  proof (cases "alloc (bk_heap b)")
    case None
    from seg_set_next [OF s d, of None] obtain h1 where h1: "set_next (fst y) None (bk_heap b) = Some h1"
      "seg h1 None (bk_head b) (ys @ [y]) l None" "dom h1 = dom (bk_heap b)" by auto
    with None a last snoc assms(1) show ?thesis
      by (auto simp: abonent_add_def create_node_def holds_def)
  next
    case (Some new)
    let ?h = "(bk_heap b)(new \<mapsto> \<lparr>n_data = d, n_next = None, n_prev = None\<rparr>)"
    have "bk_heap b new = None" using Some assms(2) by (auto simp: fresh_alloc_def)
    then have free: "new \<notin> fst ` set xs" by (simp add: dom [symmetric] domIff)
    then have "seg ?h None (bk_head b) (ys @ [y]) l None" using s snoc by simp
    from seg_set_next [OF this d, of "Some new"] obtain h1 where
      h1: "set_next (fst y) (Some new) ?h = Some h1" "seg h1 None (bk_head b) (ys @ [y]) l (Some new)"
        "\<forall>a. a \<noteq> fst y \<longrightarrow> h1 a = ?h a" "dom h1 = dom ?h" by auto
    have new: "h1 new = Some \<lparr>n_data = d, n_next = None, n_prev = None\<rparr>" using h1(3) free snoc by auto
    let ?h2 = "h1(new \<mapsto> \<lparr>n_data = d, n_next = None, n_prev = Some (fst y)\<rparr>)"
    have run: "abonent_add alloc d b = Some (False, b\<lparr>bk_heap := ?h2\<rparr>)"
      by (simp add: abonent_add_def create_node_def a last Some h1(1) set_prev_def new)
    have "seg ?h2 None (bk_head b) (ys @ [y]) l (Some new)" using h1(2) free snoc by simp
    then have "seg ?h2 None (bk_head b) (xs @ [(new, d)]) (Some new) None"
      using l snoc by (auto simp: seg_append)
    with run Some free h1(4) dom d assms(1,3) snoc show ?thesis by (auto simp: holds_def)
  qed
qed

lemma abonent_remove_holds:
  assumes "holds b xs" "length name = 10"
  shows "\<exists>b'. case find (\<lambda>x. ab_name (snd x) = name) xs of
      None \<Rightarrow> abonent_remove name b = Some (True, b, [Remove_error (until_nul name)])
    | Some x \<Rightarrow> abonent_remove name b = Some (False, b', []) \<and> holds b' (remove1 x xs)"
proof (cases "find (\<lambda>x. ab_name (snd x) = name) xs")
  case None
  with assms show ?thesis
    by (auto simp: holds_def abonent_remove_def search_from_seg)
next
  case (Some x)
  then obtain ys zs where xs: "xs = ys @ x # zs" and "\<forall>y \<in> set ys. y \<noteq> x"
    by (auto simp: find_Some_iff dest!: split_list_first) (metis find_Some_iff in_set_conv_decomp_first nth_mem)
  obtain l where s: "seg (bk_heap b) None (bk_head b) (ys @ x # zs) l None"
    and d: "distinct (map fst xs)" and dom: "dom (bk_heap b) = fst ` set xs"
    using assms(1) xs by (auto simp: holds_def)
  from s obtain l1 nx where s1: "seg (bk_heap b) None (bk_head b) ys l1 (Some (fst x))"
    and n: "bk_heap b (fst x) = Some \<lparr>n_data = snd x, n_next = nx, n_prev = l1\<rparr>"
    and s2: "seg (bk_heap b) (Some (fst x)) nx zs l None" by (auto simp: seg_append)
  have search: "search_from (bk_heap b) (bk_head b) name = Some (Some (fst x))"
    using assms Some s xs by (auto simp: holds_def search_from_seg)
  let ?head = "if bk_head b = Some (fst x) then nx else bk_head b"
  obtain h1 where h1: "(case l1 of None \<Rightarrow> Some (bk_heap b) | Some q \<Rightarrow> set_next q nx (bk_heap b)) = Some h1"
    "seg h1 None ?head ys l1 nx" "\<forall>a. a \<notin> fst ` set ys \<longrightarrow> h1 a = bk_heap b a" "dom h1 = dom (bk_heap b)"
  proof (cases ys rule: rev_cases)
    case Nil
    with s1 show ?thesis using that [of "bk_heap b"] by simp
  next
    case (snoc vs v)
    have l1: "l1 = Some (fst v)" using s1 snoc seg_last by blast
    have "bk_head b \<noteq> Some (fst x)" using s1 snoc d xs by (cases vs) auto
    moreover have "distinct (map fst (vs @ [v]))" using d xs snoc by simp
    ultimately show ?thesis
      using seg_set_next [of "bk_heap b" None "bk_head b" vs v l1 "Some (fst x)" nx] s1 snoc l1 that by auto
  qed
  have s2': "seg h1 (Some (fst x)) nx zs l None"
  proof (subst seg_cong [of _ h1 "bk_heap b"])
    have "fst ` set ys \<inter> fst ` set zs = {}" using d xs by auto
    with h1(3) show "\<forall>a \<in> fst ` set zs. h1 a = bk_heap b a" by blast
  qed (rule s2)
  obtain h2 l' where h2: "(case nx of None \<Rightarrow> Some h1 | Some q \<Rightarrow> set_prev q l1 h1) = Some h2"
    "seg h2 l1 nx zs l' None" "\<forall>a. a \<notin> fst ` set zs \<longrightarrow> h2 a = h1 a" "dom h2 = dom h1"
  proof (cases zs)
    case Nil
    with s2' show ?thesis using that [of h1] by simp
  next
    case (Cons z rest)
    have nx: "nx = Some (fst z)" using s2' Cons by simp
    have "distinct (map fst (z # rest))" using d xs Cons by simp
    then show ?thesis
      using seg_set_prev [of h1 "Some (fst x)" nx z rest l None l1] s2' Cons nx that by auto
  qed
  let ?b = "\<lparr>bk_heap = h2(fst x := None), bk_head = ?head\<rparr>"
  have run: "abonent_remove name b = Some (False, ?b, [])"
    by (simp add: abonent_remove_def search n h1(1) h2(1) Let_def cong: option.case_cong)
  have notin: "fst x \<notin> fst ` set (ys @ zs)" using d xs by auto
  have "seg h2 None ?head ys l1 nx"
  proof (subst seg_cong [of _ h2 h1])
    have "fst ` set ys \<inter> fst ` set zs = {}" using d xs by auto
    with h2(3) show "\<forall>a \<in> fst ` set ys. h2 a = h1 a" by blast
  qed (rule h1(2))
  then have "seg (h2(fst x := None)) None ?head (ys @ zs) l' None"
    using h2(2) notin by (auto simp: seg_append image_Un)
  moreover have "remove1 x xs = ys @ zs" using xs \<open>\<forall>y \<in> set ys. y \<noteq> x\<close> by (auto simp: remove1_append)
  moreover have "dom (h2(fst x := None)) = fst ` set (ys @ zs)" using h1(4) h2(4) dom notin xs by auto
  ultimately have "holds ?b (remove1 x xs)" using assms(1) d xs by (auto simp: holds_def)
  with run Some show ?thesis by auto
qed

subsection \<open>The book as a list of entries\<close>

fun remove_first :: "('a \<Rightarrow> bool) \<Rightarrow> 'a list \<Rightarrow> 'a list" where
  "remove_first P [] = []"
| "remove_first P (x # xs) = (if P x then xs else x # remove_first P xs)"

definition spec_switch :: "bool \<Rightarrow> menu_command \<Rightarrow> abonent list \<Rightarrow> abonent list \<times> book_event list" where
  "spec_switch ok c ds =
     (case c of
        Cmd_add d \<Rightarrow> if ok then (ds @ [d], [Added (until_nul (ab_name d))]) else (ds, [])
      | Cmd_remove name \<Rightarrow>
          if \<exists>d \<in> set ds. ab_name d = name
          then (remove_first (\<lambda>d. ab_name d = name) ds, [Removed (until_nul name)])
          else (ds, [Remove_error (until_nul name)])
      | Cmd_find name \<Rightarrow>
          (ds, case filter (\<lambda>d. ab_name d = name) ds of
                 [] \<Rightarrow> [Print_not_found (until_nul name)] | found \<Rightarrow> map Print_abonent found)
      | Cmd_print \<Rightarrow> (ds, map Print_abonent ds)
      | Cmd_exit \<Rightarrow> ([], [])
      | Cmd_bad \<Rightarrow> (ds, [Error_id]))"

text \<open>\<open>oks\<close> says in which rounds, counted from the end, memory can be had.\<close>

fun spec_handbook ::
    "nat \<Rightarrow> (nat \<Rightarrow> bool) \<Rightarrow> string \<Rightarrow> abonent list \<Rightarrow> book_event list option" where
  "spec_handbook 0 oks input ds = None"
| "spec_handbook (Suc fuel) oks input ds =
     (case read_menu input of
        (c, rest) \<Rightarrow> (case spec_switch (oks fuel) c ds of
          (ds1, ev) \<Rightarrow>
            if c = Cmd_exit then Some (Tabs (length ds) # ev)
            else map_option (\<lambda>ev2. Tabs (length ds) # ev @ ev2) (spec_handbook fuel oks rest ds1)))"

lemma spec_handbook_rounds:
  "(\<And>i. i < fuel \<Longrightarrow> oks i = oks' i) \<Longrightarrow> spec_handbook fuel oks input ds = spec_handbook fuel oks' input ds"
proof (induction fuel arbitrary: input ds)
  case (Suc fuel)
  have "oks fuel = oks' fuel" using Suc.prems by simp
  moreover have "spec_handbook fuel oks r d = spec_handbook fuel oks' r d" for r d
    using Suc.prems by (intro Suc.IH) simp
  ultimately show ?case by (simp split: prod.split)
qed simp

lemma remove_first_snd:
  "find (\<lambda>x. ab_name (snd x) = name) xs = Some x \<Longrightarrow>
   map snd (remove1 x xs) = remove_first (\<lambda>d. ab_name d = name) (map snd xs)"
proof (induction xs)
  case (Cons y xs)
  have "ab_name (snd x) = name" using iffD1 [OF find_Some_iff Cons.prems] by auto
  with Cons show ?case by (auto split: if_splits)
qed simp

lemma find_snd_None:
  "find (\<lambda>x. ab_name (snd x) = name) xs = None \<longleftrightarrow> (\<forall>d \<in> snd ` set xs. ab_name d \<noteq> name)"
  by (force simp: find_None_iff)

fun words_ok :: "menu_command \<Rightarrow> bool" where
  "words_ok (Cmd_add d) \<longleftrightarrow> length (ab_name d) = 10"
| "words_ok (Cmd_remove name) \<longleftrightarrow> length name = 10"
| "words_ok (Cmd_find name) \<longleftrightarrow> length name = 10"
| "words_ok _ \<longleftrightarrow> True"

lemma read_word_length: "read_word input = (w, rest) \<Longrightarrow> length w = 10"
  using scan_word_length [of zero_buffer input]
  by (auto simp: read_word_def zero_buffer_def split: prod.splits)

lemma read_menu_words: "read_menu input = (c, rest) \<Longrightarrow> words_ok c"
  by (auto simp: read_menu_def split: prod.splits option.splits if_splits dest: read_word_length)

lemma menu_switch_refines:
  assumes "holds b xs" "fresh_alloc alloc" "words_ok c"
  shows "\<exists>b' xs'. menu_switch alloc c b =
      Some (b', snd (spec_switch (alloc (bk_heap b) \<noteq> None) c (map snd xs))) \<and> holds b' xs' \<and>
    map snd xs' = fst (spec_switch (alloc (bk_heap b) \<noteq> None) c (map snd xs))"
proof (cases c)
  case (Cmd_add d)
  with abonent_add_holds [OF assms(1,2), of d] assms(3) show ?thesis
    by (cases "alloc (bk_heap b)") (force simp: menu_switch_def spec_switch_def)+
next
  case (Cmd_remove name)
  with assms(3) have len: "length name = 10" by simp
  show ?thesis
  proof (cases "find (\<lambda>x. ab_name (snd x) = name) xs")
    case None
    with abonent_remove_holds [OF assms(1) len] Cmd_remove assms(1) find_snd_None [of name xs] show ?thesis
      by (auto simp: menu_switch_def spec_switch_def)
  next
    case (Some x)
    with abonent_remove_holds [OF assms(1) len] obtain b' where
      "abonent_remove name b = Some (False, b', [])" "holds b' (remove1 x xs)" by auto
    with Some Cmd_remove find_snd_None [of name xs] remove_first_snd [OF Some] show ?thesis
      by (auto simp: menu_switch_def spec_switch_def)
  qed
next
  case (Cmd_find name)
  obtain l where "seg (bk_heap b) None (bk_head b) xs l None" "\<forall>x \<in> set xs. length (ab_name (snd x)) = 10"
    using assms(1) by (auto simp: holds_def)
  from matches_from_seg [OF this, of name] Cmd_find assms(1,3) show ?thesis
    by (auto simp: menu_switch_def spec_switch_def abonent_find_def split: list.splits)
next
  case Cmd_print
  obtain l where "seg (bk_heap b) None (bk_head b) xs l None" using assms(1) by (auto simp: holds_def)
  from print_from_seg [OF this] Cmd_print assms(1) show ?thesis
    by (auto simp: menu_switch_def spec_switch_def abonents_print_def intro!: exI [of _ xs])
next
  case Cmd_exit
  obtain l where s: "seg (bk_heap b) None (bk_head b) xs l None" "distinct (map fst xs)"
    "dom (bk_heap b) = fst ` set xs" using assms(1) by (auto simp: holds_def)
  from clear_from_seg [OF s(1,2)] obtain h where h: "clear_from (bk_heap b) (bk_head b) = Some h" "dom h = {}"
    by (auto simp: s(3))
  have "\<exists>b'. abonents_clear b = Some b' \<and> holds b' []"
  proof (cases "bk_head b")
    case None
    then have "xs = []" using s(1) by (cases xs) auto
    with None assms(1) show ?thesis by (auto simp: abonents_clear_def)
  next
    case (Some a)
    with h show ?thesis by (auto simp: abonents_clear_def holds_def)
  qed
  with Cmd_exit show ?thesis by (auto simp: menu_switch_def spec_switch_def)
next
  case Cmd_bad
  with assms(1) show ?thesis by (auto simp: menu_switch_def spec_switch_def)
qed

lemma handbook_refines:
  assumes "fresh_alloc alloc" "holds b xs"
  shows "\<exists>oks. ((\<forall>h. alloc h \<noteq> None) \<longrightarrow> (\<forall>i. oks i)) \<and>
    (case abonent_handbook fuel alloc input b of
      None \<Rightarrow> spec_handbook fuel oks input (map snd xs) = None
    | Some (b', ev) \<Rightarrow> spec_handbook fuel oks input (map snd xs) = Some ev \<and> b' = empty_book)"
  using assms(2)
proof (induction fuel arbitrary: input b xs)
  case (Suc fuel)
  obtain c rest where r: "read_menu input = (c, rest)" by fastforce
  let ?ok = "alloc (bk_heap b) \<noteq> None"
  obtain ds1 ev where sw: "spec_switch ?ok c (map snd xs) = (ds1, ev)" by fastforce
  from menu_switch_refines [OF Suc.prems assms(1) read_menu_words [OF r]] sw obtain b1 xs1 where
    m: "menu_switch alloc c b = Some (b1, ev)" "holds b1 xs1" "map snd xs1 = ds1" by auto
  have size: "get_abonents_size b = Some (length xs)"
    using Suc.prems size_from_seg by (force simp: get_abonents_size_def holds_def)
  show ?case
  proof (cases "c = Cmd_exit")
    case True
    then have "ds1 = []" using sw by (simp add: spec_switch_def)
    then have "b1 = empty_book" using m(2,3) by (auto simp: holds_def empty_book_def)
    with True r sw m size show ?thesis by (intro exI [of _ "\<lambda>_. ?ok"]) auto
  next
    case False
    from Suc.IH [OF m(2), of rest] obtain oks where all: "(\<forall>h. alloc h \<noteq> None) \<longrightarrow> (\<forall>i. oks i)" and oks:
      "case abonent_handbook fuel alloc rest b1 of
         None \<Rightarrow> spec_handbook fuel oks rest ds1 = None
       | Some (b', ev) \<Rightarrow> spec_handbook fuel oks rest ds1 = Some ev \<and> b' = empty_book"
      using m(3) by auto
    obtain oks2 where oks2: "oks2 fuel = ?ok" "\<And>i. i < fuel \<Longrightarrow> oks2 i = oks i"
      "(\<forall>h. alloc h \<noteq> None) \<longrightarrow> (\<forall>i. oks2 i)"
      using that [of "oks(fuel := ?ok)"] all by simp
    have "spec_handbook fuel oks2 rest ds1 = spec_handbook fuel oks rest ds1"
      by (rule spec_handbook_rounds) (rule oks2(2))
    with oks oks2(1,3) False r sw m(1) size show ?thesis
      by (intro exI [of _ oks2], intro conjI, simp) (cases "abonent_handbook fuel alloc rest b1"; auto)
  qed
qed (simp add: exI [of _ "\<lambda>_. True"])

lemma empty_book_holds: "holds empty_book []"
  by (simp add: holds_def empty_book_def)

text \<open>
  Property C21.  The phone book on the doubly linked list behaves like a plain list of entries, for
  every input and every allocator that returns free memory or fails (and adding only fails when the
  allocator can): entries are appended, the first with the typed name is removed, all with it are found, all are printed in order, and the
  menu shows their number.  No run touches memory that is not allocated, and when the program
  leaves, every node has been freed.
\<close>

theorem book_list_refines:
  assumes "fresh_alloc alloc"
  shows "\<exists>oks. ((\<forall>h. alloc h \<noteq> None) \<longrightarrow> (\<forall>i. oks i)) \<and>
    (case abonent_handbook fuel alloc input empty_book of
      None \<Rightarrow> spec_handbook fuel oks input [] = None
    | Some (b, ev) \<Rightarrow> spec_handbook fuel oks input [] = Some ev \<and> b = empty_book)"
  using handbook_refines [OF assms empty_book_holds, of fuel input] by (simp only: list.map)

definition first_free :: "memory \<Rightarrow> nat option" where
  "first_free h = find (\<lambda>a. h a = None) [1..<4]"

lemma first_free_fresh: "fresh_alloc first_free"
  by (auto simp: fresh_alloc_def first_free_def find_Some_iff)

text \<open>The loops as case distinctions, to evaluate them.\<close>

lemma loops_code [code]:
  "size_from h p k = (case p of None \<Rightarrow> Some k | Some a \<Rightarrow>
     (case h a of None \<Rightarrow> None | Some n \<Rightarrow> size_from h (n_next n) (k + 1)))"
  "clear_from h p = (case p of None \<Rightarrow> Some h | Some a \<Rightarrow>
     (case h a of None \<Rightarrow> None | Some n \<Rightarrow> clear_from (h(a := None)) (n_next n)))"
  "last_from h c = (case h c of None \<Rightarrow> None | Some n \<Rightarrow>
     (case n_next n of None \<Rightarrow> Some c | Some b \<Rightarrow> last_from h b))"
  "search_from h p name = (case p of None \<Rightarrow> Some None | Some a \<Rightarrow>
     (case h a of None \<Rightarrow> None | Some n \<Rightarrow>
        if strcmp10 (ab_name (n_data n)) name = 0 then Some (Some a) else search_from h (n_next n) name))"
  "matches_from h p name = (case p of None \<Rightarrow> Some [] | Some a \<Rightarrow>
     (case h a of None \<Rightarrow> None | Some n \<Rightarrow>
        (case matches_from h (n_next n) name of None \<Rightarrow> None | Some rest \<Rightarrow>
           Some (if strcmp10 (ab_name (n_data n)) name = 0 then n_data n # rest else rest))))"
  "print_from h p = (case p of None \<Rightarrow> Some [] | Some a \<Rightarrow>
     (case h a of None \<Rightarrow> None | Some n \<Rightarrow>
        (case print_from h (n_next n) of None \<Rightarrow> None | Some rest \<Rightarrow> Some (Print_abonent (n_data n) # rest))))"
  "abonent_handbook (Suc fuel) alloc input b = (case get_abonents_size b of None \<Rightarrow> None | Some n \<Rightarrow>
     (case read_menu input of (c, rest) \<Rightarrow>
       (case menu_switch alloc c b of None \<Rightarrow> None | Some (b1, ev) \<Rightarrow>
         if c = Cmd_exit then Some (b1, Tabs n # ev)
         else (case abonent_handbook fuel alloc rest b1 of None \<Rightarrow> None
           | Some (b2, ev2) \<Rightarrow> Some (b2, Tabs n # ev @ ev2)))))"
  "abonent_handbook 0 alloc input b = None"
  by (subst size_from.simps clear_from.simps last_from.simps search_from.simps matches_from.simps
        print_from.simps abonent_handbook.simps, simp split: option.split bind_split prod.split)+

definition demo_book_input :: string where
  "demo_book_input = concat (map (\<lambda>line. line @ [CHR 0x0A])
     [''1 ann'', ''x'', ''1'', ''1 bob'', ''y'', ''2'', ''3 ann'', ''2 ann'', ''4'', ''5''])"

definition demo_book_events :: "book_event list" where
  "demo_book_events = [Tabs 0, Added ''ann'', Tabs 1, Added ''bob'', Tabs 2,
     Print_abonent \<lparr>ab_name = padded ''ann'', second_name = padded ''x'', tel = padded ''1''\<rparr>,
     Tabs 2, Removed ''ann'', Tabs 1,
     Print_abonent \<lparr>ab_name = padded ''bob'', second_name = padded ''y'', tel = padded ''2''\<rparr>, Tabs 1]"

lemma demo_book_run:
  "map_option snd (abonent_handbook 9 first_free demo_book_input empty_book) = Some demo_book_events"
  by code_simp

lemma book_list_refines_witness:
  "\<exists>oks. spec_handbook 9 oks demo_book_input [] = Some demo_book_events"
proof -
  obtain b where "abonent_handbook 9 first_free demo_book_input empty_book = Some (b, demo_book_events)"
    using demo_book_run by auto
  with book_list_refines [OF first_free_fresh, of 9 demo_book_input] show ?thesis by auto
qed

subsection \<open>When the program ends\<close>

text \<open>Whether a 5 is read; at the end of the input only errors are.\<close>

function reads_exit :: "string \<Rightarrow> bool" where
  "reads_exit input =
     (case read_menu input of
        (c, rest) \<Rightarrow>
          if c = Cmd_exit then True
          else if length rest < length input then reads_exit rest else False)"
  by pat_completeness auto
termination by (relation "measure length") auto

declare reads_exit.simps [simp del]

lemma read_menu_end: "read_menu [] = (Cmd_bad, [])"
  by (simp add: read_menu_def scan_unsigned_def)

lemma read_word_rest: "read_word input = (w, rest) \<Longrightarrow> length rest \<le> length input"
proof -
  have "length (snd (scan_word zero_buffer input)) \<le> length input"
    using length_dropWhile_le [of is_space input] by (auto simp: scan_word_def Let_def)
  then show "read_word input = (w, rest) \<Longrightarrow> length rest \<le> length input"
    using length_clear_input [of "snd (scan_word zero_buffer input)"]
    by (auto simp: read_word_def split: prod.splits)
qed

lemma scan_unsigned_rest:
  "scan_unsigned input = (Some v, rest) \<Longrightarrow> length rest < length input"
  "scan_unsigned input = (None, rest) \<Longrightarrow> input \<noteq> [] \<Longrightarrow> length (clear_input rest) < length input"
proof -
  let ?s = "dropWhile is_space input"
  have le: "length ?s \<le> length input" by (rule length_dropWhile_le)
  have clear: "s \<noteq> [] \<Longrightarrow> length (clear_input s) < length s" for s
    using length_clear_input by (cases s) (auto simp: less_Suc_eq_le)
  show "scan_unsigned input = (None, rest) \<Longrightarrow> input \<noteq> [] \<Longrightarrow> length (clear_input rest) < length input"
    using le clear [of ?s] by (cases "?s = []") (auto simp: scan_unsigned_def Let_def split: if_splits)
  show "scan_unsigned input = (Some v, rest) \<Longrightarrow> length rest < length input"
  proof -
    assume run: "scan_unsigned input = (Some v, rest)"
    let ?r = "if ?s \<noteq> [] \<and> (hd ?s = CHR ''-'' \<or> hd ?s = CHR ''+'') then tl ?s else ?s"
    from run have "takeWhile is_digit ?r \<noteq> []" "rest = drop (length (takeWhile is_digit ?r)) ?r"
      by (auto simp: scan_unsigned_def Let_def split: if_splits)
    moreover have "length ?r \<le> length input" using le by auto
    moreover have "length (takeWhile is_digit ?r) \<le> length ?r" by (rule length_takeWhile_le)
    ultimately show ?thesis by (cases "takeWhile is_digit ?r") auto
  qed
qed

lemma read_menu_rest:
  assumes "read_menu input = (c, rest)" "input \<noteq> []"
  shows "length rest < length input"
proof (cases "scan_unsigned input")
  case (Pair v r)
  with assms scan_unsigned_rest [of input] show ?thesis
    by (cases v) (auto simp: read_menu_def split: prod.splits if_splits
        dest!: read_word_rest intro: le_less_trans order_trans)
qed

lemma spec_handbook_exit:
  "length input < fuel \<Longrightarrow> spec_handbook fuel oks input ds \<noteq> None \<longleftrightarrow> reads_exit input"
  "spec_handbook fuel oks input ds \<noteq> None \<Longrightarrow> reads_exit input"
proof -
  show no: "spec_handbook fuel oks input ds \<noteq> None \<Longrightarrow> reads_exit input" for fuel oks input ds
  proof (induction fuel arbitrary: input ds)
    case (Suc fuel)
    obtain c rest where r: "read_menu input = (c, rest)" by fastforce
    show ?case
    proof (cases "input = []")
      case True
      have "spec_handbook k oks [] es = None" for k es
        by (induction k arbitrary: es) (simp_all add: read_menu_end spec_switch_def)
      with True Suc.prems show ?thesis by (metis (no_types))
    next
      case False
      with Suc r read_menu_rest [OF r False] show ?thesis
        by (auto simp: reads_exit.simps [of input] split: prod.splits if_splits)
    qed
  qed simp
  have "reads_exit input \<Longrightarrow> length input < fuel \<Longrightarrow> spec_handbook fuel oks input ds \<noteq> None" for oks
  proof (induction input arbitrary: fuel ds rule: reads_exit.induct)
    case (1 input)
    obtain c rest where r: "read_menu input = (c, rest)" by fastforce
    obtain k where k: "fuel = Suc k" using 1(3) by (cases fuel) auto
    show ?case
    proof (cases "c = Cmd_exit")
      case False
      with 1(2) r have "length rest < length input" "reads_exit rest"
        by (auto simp: reads_exit.simps [of input] split: if_splits)
      with 1(1) [OF r [symmetric]] 1(3) k False r show ?thesis by (auto split: prod.splits)
    qed (auto simp: k r split: prod.splits)
  qed
  with no show "length input < fuel \<Longrightarrow> spec_handbook fuel oks input ds \<noteq> None \<longleftrightarrow> reads_exit input"
    by blast
qed

text \<open>
  Property C22.  The phone book ends exactly when it reads a 5.  Then as many rounds as there are
  characters, and one, are enough; otherwise no number of rounds is: at the end of the input
  \<^verbatim>\<open>scanf\<close> keeps failing and the menu is printed for ever.
\<close>

theorem book_list_ends:
  assumes "fresh_alloc alloc"
  shows "(abonent_handbook (length input + 1) alloc input empty_book \<noteq> None \<longleftrightarrow> reads_exit input) \<and>
    (\<forall>fuel. abonent_handbook fuel alloc input empty_book \<noteq> None \<longrightarrow> reads_exit input)"
proof -
  have run: "\<exists>oks. abonent_handbook k alloc input empty_book \<noteq> None \<longleftrightarrow>
      spec_handbook k oks input [] \<noteq> None" for k
    using handbook_refines [OF assms empty_book_holds, of k input] unfolding list.map
    by (cases "abonent_handbook k alloc input empty_book") auto
  have "abonent_handbook (length input + 1) alloc input empty_book \<noteq> None \<longleftrightarrow> reads_exit input"
    using run [of "length input + 1"] spec_handbook_exit(1) [of input "length input + 1"] by auto
  moreover have "abonent_handbook k alloc input empty_book \<noteq> None \<Longrightarrow> reads_exit input" for k
    using run [of k] spec_handbook_exit(2) [of k] by blast
  ultimately show ?thesis by blast
qed

lemma book_list_ends_witness: "abonent_handbook 99 first_free ''4 1'' empty_book = None"
proof -
  have "\<not> reads_exit ''4 1''" by code_simp
  with book_list_ends [OF first_free_fresh, of "''4 1''"] show ?thesis by blast
qed

end
