(* ===== verification/Book_Array.thy ===== *)
theory Book_Array
  imports Abonent
begin

text \<open>
  The phone book as an array of 100 entries, \<^verbatim>\<open>labs/lab-4/src/abonent.c\<close> and \<^verbatim>\<open>menu.c\<close>.

  The buffers the menu reads into are not initialised: what lies in them before a round is the
  argument \<open>junk\<close> of that round, and a word that is read replaces only its own bytes.
\<close>

definition ABONENTS_SIZE :: nat where "ABONENTS_SIZE = 100"

definition zero_abonent :: abonent where
  "zero_abonent = \<lparr>ab_name = zero_buffer, second_name = zero_buffer, tel = zero_buffer\<rparr>"

record phone_book =
  g_abonents :: "abonent list"
  g_size :: nat

definition phone_start :: phone_book where
  "phone_start = \<lparr>g_abonents = replicate ABONENTS_SIZE zero_abonent, g_size = 0\<rparr>"

datatype phone_event =
    Ph_abonent nat abonent | Ph_full nat | Ph_empty | Ph_range nat | Ph_not_found string
  | Ph_added string nat | Ph_removed "32 word" | Ph_tabs nat | Ph_error_id

definition phone_print :: "nat \<Rightarrow> phone_book \<Rightarrow> phone_event" where
  "phone_print i b = Ph_abonent i (g_abonents b ! i)"

definition phone_add :: "abonent \<Rightarrow> phone_book \<Rightarrow> bool \<times> phone_book \<times> phone_event list" where
  "phone_add data b =
     (if g_size b \<ge> ABONENTS_SIZE then (True, b, [Ph_full (g_size b)])
      else (False, \<lparr>g_abonents = (g_abonents b)[g_size b := data], g_size = g_size b + 1\<rparr>, []))"

definition phone_remove :: "32 word \<Rightarrow> phone_book \<Rightarrow> bool \<times> phone_book \<times> phone_event list" where
  "phone_remove i b =
     (if unat i \<ge> g_size b \<or> g_size b = 0 then
        (True, b, if g_size b = 0 then [Ph_empty] else [Ph_range (g_size b - 1)])
      else
        let a = (if unat i \<noteq> g_size b - 1
                 then (g_abonents b)[unat i := g_abonents b ! (g_size b - 1)] else g_abonents b)
        in (False, \<lparr>g_abonents = a[g_size b - 1 := zero_abonent], g_size = g_size b - 1\<rparr>, []))"

text \<open>The loop of \<^verbatim>\<open>abonent_find\<close> from \<open>i\<close> on, and of \<^verbatim>\<open>abonent_printALL\<close>.\<close>

function phone_find_from :: "nat \<Rightarrow> char list \<Rightarrow> phone_book \<Rightarrow> phone_event list" where
  "phone_find_from i name b =
     (if i < g_size b then
        (if strcmp10 (ab_name (g_abonents b ! i)) name = 0 then [phone_print i b] else []) @
        phone_find_from (i + 1) name b
      else [])"
  by pat_completeness auto
termination by (relation "measure (\<lambda>(i, _, b). g_size b - i)") auto

definition phone_find :: "char list \<Rightarrow> phone_book \<Rightarrow> phone_event list" where
  "phone_find name b =
     (case phone_find_from 0 name b of [] \<Rightarrow> [Ph_not_found (until_nul name)] | found \<Rightarrow> found)"

function phone_print_from :: "nat \<Rightarrow> phone_book \<Rightarrow> phone_event list" where
  "phone_print_from i b =
     (if i < g_size b then phone_print i b # phone_print_from (i + 1) b else [])"
  by pat_completeness auto
termination by (relation "measure (\<lambda>(i, b). g_size b - i)") auto

declare phone_find_from.simps [simp del] phone_print_from.simps [simp del]

definition phone_print_all :: "phone_book \<Rightarrow> phone_event list" where
  "phone_print_all b = phone_print_from 0 b"

subsection \<open>The menu\<close>

record junk =
  junk_name :: "char list"
  junk_second :: "char list"
  junk_tel :: "char list"
  junk_search :: "char list"
  junk_id :: "32 word"

definition junk_ok :: "junk \<Rightarrow> bool" where
  "junk_ok j \<longleftrightarrow> length (junk_name j) = 10 \<and> length (junk_search j) = 10"

datatype phone_command =
    Ph_add abonent | Ph_remove "32 word" | Ph_find "char list" | Ph_print | Ph_exit | Ph_bad

definition word_into :: "char list \<Rightarrow> string \<Rightarrow> char list \<times> string" where
  "word_into buf input = (case scan_word buf input of (w, rest) \<Rightarrow> (w, clear_input rest))"

definition read_phone_menu :: "junk \<Rightarrow> string \<Rightarrow> phone_command \<times> string" where
  "read_phone_menu j input =
     (case scan_unsigned input of
        (None, rest) \<Rightarrow> (Ph_bad, clear_input rest)
      | (Some menu_id, rest) \<Rightarrow>
          if menu_id = 1 then
            (case word_into (junk_name j) rest of (name, i1) \<Rightarrow>
             case word_into (junk_second j) i1 of (second, i2) \<Rightarrow>
             case word_into (junk_tel j) i2 of (t, i3) \<Rightarrow>
               (Ph_add \<lparr>ab_name = name, second_name = second, tel = t\<rparr>, i3))
          else if menu_id = 2 then
            (case scan_unsigned rest of
               (None, i1) \<Rightarrow> (Ph_remove (junk_id j), clear_input i1)
             | (Some i, i1) \<Rightarrow> (Ph_remove i, clear_input i1))
          else if menu_id = 3 then
            (case word_into (junk_search j) rest of (name, i1) \<Rightarrow> (Ph_find name, i1))
          else if menu_id = 4 then (Ph_print, rest)
          else if menu_id = 5 then (Ph_exit, rest)
          else (Ph_bad, rest))"

definition phone_switch :: "phone_command \<Rightarrow> phone_book \<Rightarrow> phone_book \<times> phone_event list" where
  "phone_switch c b =
     (case c of
        Ph_add d \<Rightarrow>
          (case phone_add d b of
             (failed, b1, ev) \<Rightarrow>
               (b1, ev @ (if failed then [] else [Ph_added (until_nul (ab_name d)) (g_size b1 - 1)])))
      | Ph_remove i \<Rightarrow>
          (case phone_remove i b of
             (failed, b1, ev) \<Rightarrow> (b1, ev @ (if failed then [] else [Ph_removed i])))
      | Ph_find name \<Rightarrow> (b, phone_find name b)
      | Ph_print \<Rightarrow> (b, phone_print_all b)
      | Ph_exit \<Rightarrow> (b, [])
      | Ph_bad \<Rightarrow> (b, [Ph_error_id]))"

text \<open>The program, for at most as many rounds as there is junk for; \<open>None\<close> when it has not ended.\<close>

fun phone_handbook :: "junk list \<Rightarrow> string \<Rightarrow> phone_book \<Rightarrow> (phone_book \<times> phone_event list) option" where
  "phone_handbook [] input b = None"
| "phone_handbook (j # js) input b =
     (case read_phone_menu j input of
        (c, rest) \<Rightarrow> (case phone_switch c b of
          (b1, ev) \<Rightarrow>
            if c = Ph_exit then Some (b1, Ph_tabs (g_size b) # ev)
            else map_option (\<lambda>(b2, ev2). (b2, Ph_tabs (g_size b) # ev @ ev2))
                   (phone_handbook js rest b1)))"

subsection \<open>The book as a list of at most 100 entries\<close>

definition entries :: "phone_book \<Rightarrow> abonent list" where
  "entries b = take (g_size b) (g_abonents b)"

definition phone_ok :: "phone_book \<Rightarrow> bool" where
  "phone_ok b \<longleftrightarrow> length (g_abonents b) = ABONENTS_SIZE \<and> g_size b \<le> ABONENTS_SIZE \<and>
     drop (g_size b) (g_abonents b) = replicate (ABONENTS_SIZE - g_size b) zero_abonent \<and>
     (\<forall>d \<in> set (entries b). length (ab_name d) = 10)"

definition phone_spec :: "phone_command \<Rightarrow> abonent list \<Rightarrow> abonent list \<times> phone_event list" where
  "phone_spec c ds =
     (case c of
        Ph_add d \<Rightarrow>
          if length ds < 100 then (ds @ [d], [Ph_added (until_nul (ab_name d)) (length ds)])
          else (ds, [Ph_full 100])
      | Ph_remove i \<Rightarrow>
          if ds = [] then (ds, [Ph_empty])
          else if unat i \<ge> length ds then (ds, [Ph_range (length ds - 1)])
          else (butlast (ds[unat i := last ds]), [Ph_removed i])
      | Ph_find name \<Rightarrow>
          (ds, case filter (\<lambda>(i, d). ab_name d = name) (enumerate 0 ds) of
                 [] \<Rightarrow> [Ph_not_found (until_nul name)] | found \<Rightarrow> map (\<lambda>(i, d). Ph_abonent i d) found)
      | Ph_print \<Rightarrow> (ds, map (\<lambda>(i, d). Ph_abonent i d) (enumerate 0 ds))
      | Ph_exit \<Rightarrow> (ds, [])
      | Ph_bad \<Rightarrow> (ds, [Ph_error_id]))"

fun phone_spec_run :: "junk list \<Rightarrow> string \<Rightarrow> abonent list \<Rightarrow> (abonent list \<times> phone_event list) option" where
  "phone_spec_run [] input ds = None"
| "phone_spec_run (j # js) input ds =
     (case read_phone_menu j input of
        (c, rest) \<Rightarrow> (case phone_spec c ds of
          (ds1, ev) \<Rightarrow>
            if c = Ph_exit then Some (ds1, Ph_tabs (length ds) # ev)
            else map_option (\<lambda>(ds2, ev2). (ds2, Ph_tabs (length ds) # ev @ ev2))
                   (phone_spec_run js rest ds1)))"

lemma phone_find_from_enumerate:
  "phone_ok b \<Longrightarrow> i \<le> g_size b \<Longrightarrow> length name = 10 \<Longrightarrow>
   phone_find_from i name b =
     map (\<lambda>(i, d). Ph_abonent i d) (filter (\<lambda>(i, d). ab_name d = name) (enumerate i (drop i (entries b))))"
proof (induction i name b rule: phone_find_from.induct)
  case (1 i name b)
  show ?case
  proof (cases "i < g_size b")
    case True
    then have step: "drop i (entries b) = g_abonents b ! i # drop (i + 1) (entries b)"
      using 1(2) by (simp add: entries_def phone_ok_def Cons_nth_drop_Suc [symmetric])
    then have "g_abonents b ! i \<in> set (entries b)" by (metis in_set_dropD list.set_intros(1))
    then have "length (ab_name (g_abonents b ! i)) = 10" using 1(2) by (simp add: phone_ok_def)
    with 1 True step show ?thesis
      by (simp add: phone_find_from.simps [of i] strcmp10_eq phone_print_def)
  next
    case False
    with 1(3) show ?thesis by (subst phone_find_from.simps) (simp add: entries_def)
  qed
qed

lemma phone_print_from_enumerate:
  "length (g_abonents b) = ABONENTS_SIZE \<Longrightarrow> g_size b \<le> ABONENTS_SIZE \<Longrightarrow> i \<le> g_size b \<Longrightarrow>
   phone_print_from i b = map (\<lambda>(i, d). Ph_abonent i d) (enumerate i (drop i (entries b)))"
proof (induction i b rule: phone_print_from.induct)
  case (1 i b)
  show ?case
  proof (cases "i < g_size b")
    case True
    then have "drop i (entries b) = g_abonents b ! i # drop (i + 1) (entries b)"
      using 1 by (simp add: entries_def Cons_nth_drop_Suc [symmetric])
    with 1 True show ?thesis by (simp add: phone_print_from.simps [of i] phone_print_def)
  next
    case False
    with 1(4) show ?thesis by (subst phone_print_from.simps) (simp add: entries_def)
  qed
qed

lemma phone_add_entries:
  assumes "phone_ok b" "length (ab_name d) = 10" "g_size b < ABONENTS_SIZE"
  shows "phone_ok \<lparr>g_abonents = (g_abonents b)[g_size b := d], g_size = g_size b + 1\<rparr> \<and>
    entries \<lparr>g_abonents = (g_abonents b)[g_size b := d], g_size = g_size b + 1\<rparr> = entries b @ [d]"
proof -
  have len: "length (g_abonents b) = ABONENTS_SIZE" using assms(1) by (simp add: phone_ok_def)
  have e: "entries \<lparr>g_abonents = (g_abonents b)[g_size b := d], g_size = g_size b + 1\<rparr> = entries b @ [d]"
    using assms(3) len by (simp add: entries_def take_Suc_conv_app_nth)
  have "drop (Suc (g_size b)) (g_abonents b) = drop 1 (drop (g_size b) (g_abonents b))" by simp
  also have "\<dots> = replicate (ABONENTS_SIZE - Suc (g_size b)) zero_abonent"
    using assms(1) by (simp add: phone_ok_def)
  finally show ?thesis using assms len e by (auto simp: phone_ok_def)
qed

lemma phone_remove_entries:
  assumes "phone_ok b" "i < g_size b"
  shows "let a = (if i \<noteq> g_size b - 1 then (g_abonents b)[i := g_abonents b ! (g_size b - 1)] else g_abonents b);
      b' = \<lparr>g_abonents = a[g_size b - 1 := zero_abonent], g_size = g_size b - 1\<rparr>
    in phone_ok b' \<and> entries b' = butlast ((entries b)[i := last (entries b)])"
proof -
  obtain n where n: "g_size b = Suc n" using assms(2) by (cases "g_size b") auto
  have len: "length (g_abonents b) = ABONENTS_SIZE" "Suc n \<le> ABONENTS_SIZE"
    using assms(1) n by (auto simp: phone_ok_def)
  let ?a = "if i \<noteq> n then (g_abonents b)[i := g_abonents b ! n] else g_abonents b"
  let ?b = "\<lparr>g_abonents = ?a[n := zero_abonent], g_size = n\<rparr>"
  have last: "last (entries b) = g_abonents b ! n"
    using len n by (simp add: entries_def take_Suc_conv_app_nth)
  have e: "entries ?b = butlast ((entries b)[i := last (entries b)])"
    unfolding last using assms(2) len n
    by (auto simp: entries_def take_Suc_conv_app_nth butlast_list_update list_update_append take_update_swap
        not_less less_Suc_eq list_update_beyond)
  have "drop n (?a[n := zero_abonent]) = zero_abonent # drop (Suc n) (g_abonents b)"
    using assms(2) len n by (auto simp: Cons_nth_drop_Suc [symmetric] drop_update_swap)
  also have "\<dots> = replicate (ABONENTS_SIZE - n) zero_abonent"
  proof -
    have "ABONENTS_SIZE - n = Suc (ABONENTS_SIZE - Suc n)" using len by simp
    with assms(1) n show ?thesis by (simp add: phone_ok_def)
  qed
  finally have "drop n (?a[n := zero_abonent]) = replicate (ABONENTS_SIZE - n) zero_abonent" .
  moreover have "set (entries ?b) \<subseteq> set (entries b)"
  proof -
    have "set (entries ?b) \<subseteq> insert (last (entries b)) (set (entries b))"
      unfolding e by (meson in_set_butlastD set_update_subset_insert subset_iff)
    moreover have "entries b \<noteq> []" using n len by (auto simp: entries_def)
    ultimately show ?thesis using last_in_set by fastforce
  qed
  ultimately have "phone_ok ?b" using assms(1) len by (auto simp: phone_ok_def)
  with e n show ?thesis by (cases "i = n") (simp_all add: Let_def)
qed

fun ph_words_ok :: "phone_command \<Rightarrow> bool" where
  "ph_words_ok (Ph_add d) \<longleftrightarrow> length (ab_name d) = 10"
| "ph_words_ok (Ph_find name) \<longleftrightarrow> length name = 10"
| "ph_words_ok _ \<longleftrightarrow> True"

lemma word_into_length: "length buf = 10 \<Longrightarrow> word_into buf input = (w, rest) \<Longrightarrow> length w = 10"
  using scan_word_length [of buf input] by (auto simp: word_into_def split: prod.splits)

lemma read_phone_words: "junk_ok j \<Longrightarrow> read_phone_menu j input = (c, rest) \<Longrightarrow> ph_words_ok c"
  by (auto simp: read_phone_menu_def junk_ok_def split: prod.splits option.splits if_splits
      dest: word_into_length)

lemma phone_switch_refines:
  assumes "phone_ok b" "ph_words_ok c" "phone_switch c b = (b', ev)"
  shows "phone_ok b' \<and> phone_spec c (entries b) = (entries b', ev)"
proof -
  have len: "length (entries b) = g_size b" "entries b = [] \<longleftrightarrow> g_size b = 0"
    using assms(1) by (auto simp: phone_ok_def entries_def)
  show ?thesis
  proof (cases c)
    case (Ph_add d)
    show ?thesis
    proof (cases "g_size b < ABONENTS_SIZE")
      case True
      with phone_add_entries [OF assms(1) _ True, of d] Ph_add assms(2,3) len show ?thesis
        by (auto simp: phone_switch_def phone_add_def phone_spec_def ABONENTS_SIZE_def)
    next
      case False
      moreover have "g_size b = ABONENTS_SIZE" using False assms(1) by (simp add: phone_ok_def)
      ultimately show ?thesis using Ph_add assms(1,3) len
        by (auto simp: phone_switch_def phone_add_def phone_spec_def ABONENTS_SIZE_def)
    qed
  next
    case (Ph_remove i)
    show ?thesis
    proof (cases "unat i < g_size b")
      case True
      with phone_remove_entries [OF assms(1) True] Ph_remove assms(3) len show ?thesis
        by (auto simp: phone_switch_def phone_remove_def phone_spec_def Let_def split: if_splits)
    next
      case False
      with Ph_remove assms(1,3) len show ?thesis
        by (auto simp: phone_switch_def phone_remove_def phone_spec_def split: if_splits)
    qed
  next
    case (Ph_find name)
    with phone_find_from_enumerate [OF assms(1), of 0 name] assms len show ?thesis
      by (auto simp: phone_switch_def phone_find_def phone_spec_def split: list.splits)
  next
    case Ph_print
    with phone_print_from_enumerate [of b 0] assms show ?thesis
      by (auto simp: phone_switch_def phone_print_all_def phone_spec_def phone_ok_def)
  qed (use assms in \<open>auto simp: phone_switch_def phone_spec_def\<close>)
qed

lemma phone_run_refines:
  "list_all junk_ok js \<Longrightarrow> phone_ok b \<Longrightarrow>
   map_option (\<lambda>(b', ev). (entries b', ev)) (phone_handbook js input b) = phone_spec_run js input (entries b)"
proof (induction js arbitrary: input b)
  case (Cons j js)
  obtain c rest where r: "read_phone_menu j input = (c, rest)" by fastforce
  obtain b1 ev where s: "phone_switch c b = (b1, ev)" by fastforce
  have ok: "junk_ok j" "list_all junk_ok js" using Cons.prems(1) by simp_all
  from phone_switch_refines [OF Cons.prems(2) read_phone_words [OF ok(1) r] s]
  have b1: "phone_ok b1" and spec: "phone_spec c (entries b) = (entries b1, ev)" by auto
  have len: "length (entries b) = g_size b" using Cons.prems(2) by (simp add: phone_ok_def entries_def)
  show ?case using Cons.IH [OF ok(2) b1, of rest, symmetric] r s spec len
    by (cases "phone_handbook js rest b1") auto
qed simp

lemma phone_start_ok: "phone_ok phone_start" "entries phone_start = []"
  by (simp_all add: phone_ok_def phone_start_def entries_def)

text \<open>
  Property C23.  The phone book on the array behaves like a list of at most 100 entries for every
  input and whatever lies in the uninitialised buffers: an entry is appended while there is room,
  the entry with a valid number is replaced by the last one, searches and the listing show the
  entries with their numbers, and every other number is refused with the right message.
\<close>

theorem book_array_refines:
  assumes "list_all junk_ok js"
  shows "map_option (\<lambda>(b, ev). (entries b, ev)) (phone_handbook js input phone_start) =
    phone_spec_run js input []"
  using phone_run_refines [OF assms phone_start_ok(1)] by (simp add: phone_start_ok(2))

definition demo_junk :: "junk list" where
  "demo_junk = replicate 9 \<lparr>junk_name = replicate 10 (CHR ''?''), junk_second = replicate 10 (CHR 0x00),
     junk_tel = replicate 10 (CHR 0x00), junk_search = replicate 10 (CHR 0x00), junk_id = 7\<rparr>"

definition demo_phone_input :: string where
  "demo_phone_input = concat (map (\<lambda>line. line @ [CHR 0x0A])
     [''1 ann'', ''x'', ''1'', ''3 ann'', ''2 5'', ''2 0'', ''5''])"

lemma book_array_refines_witness:
  "map_option (\<lambda>(b, ev). (entries b, ev)) (phone_handbook demo_junk demo_phone_input phone_start) =
     Some ([], [Ph_tabs 0, Ph_added ''ann'' 0, Ph_tabs 1, Ph_not_found ''ann'', Ph_tabs 1, Ph_range 0,
                Ph_tabs 1, Ph_removed 0, Ph_tabs 0])"
proof -
  have "list_all junk_ok demo_junk" by code_simp
  from book_array_refines [OF this, of demo_phone_input] show ?thesis
    by (simp only:) code_simp
qed

text \<open>
  What a search by name finds.  A name and the word searched for, both read as the
  same word, are equal to the program exactly when the bytes behind the word in the two
  uninitialised buffers are equal too: all ten bytes are compared, so an entry is in general not
  found under the name it was added with.
\<close>

theorem book_array_search:
  assumes "length j1 = 10" "length j2 = 10" "word_of input1 = word_of input2" "word_of input1 \<noteq> []"
  shows "strcmp10 (fst (word_into j1 input1)) (fst (word_into j2 input2)) = 0 \<longleftrightarrow>
    drop (length (word_of input1) + 1) j1 = drop (length (word_of input1) + 1) j2"
proof -
  have w: "fst (word_into j input) = word_of input @ [CHR 0x00] @ drop (length (word_of input) + 1) j"
    if "word_of input \<noteq> []" for j input
    using that unfolding word_into_def scan_word_def Let_def word_of_def [symmetric]
    by simp
  have len: "length (fst (word_into j input)) = 10" if "length j = 10" for j input
    using word_into_length [OF that] by (cases "word_into j input") auto
  show ?thesis
    unfolding strcmp10_eq [OF len [OF assms(1)] len [OF assms(2)]] using assms(3,4) by (simp add: w)
qed

lemma book_array_search_witness:
  "strcmp10 (fst (word_into (replicate 10 (CHR ''?'')) '' ann'')) (fst (word_into zero_buffer ''ann'')) \<noteq> 0"
proof -
  have "word_of '' ann'' = ''ann''" "word_of ''ann'' = ''ann''" by code_simp+
  moreover have "drop 4 (replicate 10 (CHR ''?'')) \<noteq> drop 4 zero_buffer" by code_simp
  ultimately show ?thesis
    using book_array_search [of "replicate 10 (CHR ''?'')" zero_buffer "'' ann''" "''ann''"]
    by (simp add: zero_buffer_def)
qed

end
