(* ===== verification/Bazaar.thy ===== *)
theory Bazaar
  imports Prelude "HOL-Library.Word"
begin

text \<open>
  The bazaar, \<^verbatim>\<open>labs/lab-11/src/main.c\<close>: three customers buy from five stalls that a loader fills,
  each stall under its own mutex.  A visit of a customer and a refill are one critical section
  each, so they are the atomic actions; the check of the stop flag is another one.  The log is the
  list of what is printed inside those sections.  \<^verbatim>\<open>rand_r\<close> is the argument \<open>rand\<close>, from a seed to a
  value and the next seed.
\<close>

unbundle bit_operations_syntax

definition STALL_COUNT :: nat where "STALL_COUNT = 5"
definition CUSTOMER_COUNT :: nat where "CUSTOMER_COUNT = 3"
definition STALL_MIN_STOCK :: int where "STALL_MIN_STOCK = 900"
definition STALL_MAX_STOCK :: int where "STALL_MAX_STOCK = 1100"
definition NEED_MIN :: int where "NEED_MIN = 9900"
definition NEED_MAX :: int where "NEED_MAX = 10100"
definition LOADER_ADD :: int where "LOADER_ADD = 200"

type_synonym seed = "32 word"
type_synonym rand = "seed \<Rightarrow> nat \<times> seed"

record stall =
  st_id :: int
  st_stock :: int

record customer =
  cu_id :: int
  cu_need :: int
  cu_seed :: seed

datatype loader_phase = Checking | Filling | Finished

datatype log_entry =
    Entered int int int | Bought int int int | Saw_empty int int | Left int | Refilled int int

record bazaar =
  stalls :: "stall list"
  customers :: "customer list"
  loader :: loader_phase
  loader_seed :: seed
  stop_loader :: bool
  log :: "log_entry list"

definition random_range :: "rand \<Rightarrow> seed \<Rightarrow> int \<Rightarrow> int \<Rightarrow> int \<times> seed" where
  "random_range rand s lo hi = (case rand s of (v, s') \<Rightarrow> (lo + int v mod (hi - lo + 1), s'))"

subsection \<open>The threads\<close>

text \<open>One turn of \<^verbatim>\<open>customer_routine\<close>: the customer, the stalls and the log afterwards.\<close>

definition customer_turn :: "rand \<Rightarrow> customer \<Rightarrow> stall list \<Rightarrow> customer \<times> stall list \<times> log_entry list" where
  "customer_turn rand c ss =
     (case random_range rand (cu_seed c) 0 (int STALL_COUNT - 1) of
        (r, seed) \<Rightarrow>
          let i = nat r; st = ss ! i; c1 = c\<lparr>cu_seed := seed\<rparr>;
              entered = Entered (cu_id c) (st_id st) (st_stock st)
          in if st_stock st > 0 then
               let taken = (if st_stock st > cu_need c then cu_need c else st_stock st);
                   c2 = c1\<lparr>cu_need := cu_need c - taken\<rparr>
               in (c2, ss[i := st\<lparr>st_stock := st_stock st - taken\<rparr>],
                   [entered, Bought (cu_id c) taken (cu_need c2)] @
                   (if cu_need c2 \<le> 0 then [Left (cu_id c)] else []))
             else (c1, ss, [entered, Saw_empty (cu_id c) (st_id st)] @
                   (if cu_need c \<le> 0 then [Left (cu_id c)] else [])))"

definition loader_fill :: "rand \<Rightarrow> seed \<Rightarrow> stall list \<Rightarrow> seed \<times> stall list \<times> log_entry list" where
  "loader_fill rand s ss =
     (case random_range rand s 0 (int STALL_COUNT - 1) of
        (r, s') \<Rightarrow>
          let i = nat r; st = ss ! i; st' = st\<lparr>st_stock := st_stock st + LOADER_ADD\<rparr>
          in (s', ss[i := st'], [Refilled (st_id st) (st_stock st')]))"

datatype bazaar_action = Turn nat | Check | Fill | Stop

text \<open>\<^verbatim>\<open>main\<close> sets the flag after it has joined all customers.\<close>

definition bazaar_exec :: "rand \<Rightarrow> bazaar_action \<Rightarrow> bazaar \<Rightarrow> bazaar option" where
  "bazaar_exec rand a b =
     (case a of
        Turn i \<Rightarrow>
          if i < length (customers b) \<and> cu_need (customers b ! i) > 0 then
            (case customer_turn rand (customers b ! i) (stalls b) of
               (c, ss, ev) \<Rightarrow>
                 Some (b\<lparr>customers := (customers b)[i := c], stalls := ss, log := log b @ ev\<rparr>))
          else None
      | Check \<Rightarrow>
          if loader b = Checking then Some (b\<lparr>loader := if stop_loader b then Finished else Filling\<rparr>)
          else None
      | Fill \<Rightarrow>
          if loader b = Filling then
            (case loader_fill rand (loader_seed b) (stalls b) of
               (s, ss, ev) \<Rightarrow>
                 Some (b\<lparr>loader := Checking, loader_seed := s, stalls := ss, log := log b @ ev\<rparr>))
          else None
      | Stop \<Rightarrow>
          if \<not> stop_loader b \<and> (\<forall>c \<in> set (customers b). cu_need c \<le> 0)
          then Some (b\<lparr>stop_loader := True\<rparr>) else None)"

subsection \<open>The start\<close>

fun make_stalls :: "rand \<Rightarrow> nat \<Rightarrow> nat \<Rightarrow> seed \<Rightarrow> stall list \<times> seed" where
  "make_stalls rand 0 i s = ([], s)"
| "make_stalls rand (Suc n) i s =
     (case random_range rand s STALL_MIN_STOCK STALL_MAX_STOCK of
        (stock, s1) \<Rightarrow> (case make_stalls rand n (i + 1) s1 of
          (ss, s2) \<Rightarrow> (\<lparr>st_id = int i + 1, st_stock = stock\<rparr> # ss, s2)))"

fun make_customers :: "rand \<Rightarrow> nat \<Rightarrow> nat \<Rightarrow> seed \<Rightarrow> customer list" where
  "make_customers rand 0 i s = []"
| "make_customers rand (Suc n) i s =
     (case random_range rand s NEED_MIN NEED_MAX of
        (need, s1) \<Rightarrow>
          \<lparr>cu_id = int i + 1, cu_need = need, cu_seed = s1 XOR of_nat (i + 1) * 12345\<rparr> #
          make_customers rand n (i + 1) s1)"

text \<open>\<^verbatim>\<open>main\<close> up to the joins; \<open>t\<close> and \<open>t'\<close> are what \<^verbatim>\<open>time\<close> says in the main and the loader thread.\<close>

definition bazaar_start :: "rand \<Rightarrow> seed \<Rightarrow> seed \<Rightarrow> bazaar" where
  "bazaar_start rand t t' =
     (case make_stalls rand STALL_COUNT 0 t of
        (ss, s) \<Rightarrow>
          \<lparr>stalls = ss, customers = make_customers rand CUSTOMER_COUNT 0 s, loader = Checking,
           loader_seed = t', stop_loader = False, log = []\<rparr>)"

inductive bazaar_reach :: "rand \<Rightarrow> bazaar \<Rightarrow> bazaar \<Rightarrow> bool" for rand where
  start: "bazaar_reach rand b b"
| action: "bazaar_reach rand b0 b \<Longrightarrow> bazaar_exec rand a b = Some b' \<Longrightarrow> bazaar_reach rand b0 b'"

subsection \<open>Goods and needs\<close>

definition total_stock :: "bazaar \<Rightarrow> int" where
  "total_stock b = sum_list (map st_stock (stalls b))"

fun bought_by :: "int \<Rightarrow> log_entry \<Rightarrow> int" where
  "bought_by k (Bought c taken _) = (if c = k then taken else 0)"
| "bought_by k _ = 0"

fun bought :: "log_entry \<Rightarrow> int" where
  "bought (Bought _ taken _) = taken" | "bought _ = 0"

fun delivered :: "log_entry \<Rightarrow> int" where
  "delivered (Refilled _ _) = LOADER_ADD" | "delivered _ = 0"

definition total :: "(log_entry \<Rightarrow> int) \<Rightarrow> bazaar \<Rightarrow> int" where
  "total f b = sum_list (map f (log b))"

definition bazaar_inv :: "bazaar \<Rightarrow> bazaar \<Rightarrow> bool" where
  "bazaar_inv b0 b \<longleftrightarrow>
     length (stalls b) = STALL_COUNT \<and> (\<forall>st \<in> set (stalls b). 0 \<le> st_stock st) \<and>
     map cu_id (customers b) = map cu_id (customers b0) \<and> (\<forall>c \<in> set (customers b). 0 \<le> cu_need c) \<and>
     total_stock b + total bought b = total_stock b0 + total delivered b \<and>
     (\<forall>i < length (customers b). cu_need (customers b ! i) + total (bought_by (cu_id (customers b0 ! i))) b =
        cu_need (customers b0 ! i)) \<and>
     (stop_loader b \<longrightarrow> (\<forall>c \<in> set (customers b). cu_need c = 0)) \<and> (loader b = Finished \<longrightarrow> stop_loader b)"

lemma random_range_bounds:
  "random_range rand s lo hi = (r, s') \<Longrightarrow> lo \<le> hi \<Longrightarrow> lo \<le> r \<and> r \<le> hi"
  using pos_mod_bound [of "hi - lo + 1"] pos_mod_sign [of "hi - lo + 1"]
  by (auto simp: random_range_def split: prod.splits) (smt (verit))

lemma sum_list_update_int:
  "i < length xs \<Longrightarrow> sum_list (map f (xs[i := x])) = sum_list (map f xs) - f (xs ! i) + (f x :: int)"
proof (induction xs arbitrary: i)
  case (Cons a xs)
  then show ?case by (cases i) auto
qed simp

lemma customer_turn_balance:
  assumes "length ss = STALL_COUNT" "\<forall>st \<in> set ss. 0 \<le> st_stock st" "0 \<le> cu_need c"
    "customer_turn rand c ss = (c', ss', ev)"
  shows "length ss' = STALL_COUNT \<and> (\<forall>st \<in> set ss'. 0 \<le> st_stock st) \<and> cu_id c' = cu_id c \<and>
    0 \<le> cu_need c' \<and>
    sum_list (map st_stock ss') + sum_list (map bought ev) = sum_list (map st_stock ss) \<and>
    (\<forall>k. sum_list (map (bought_by k) ev) = (if k = cu_id c then cu_need c - cu_need c' else 0)) \<and>
    sum_list (map delivered ev) = 0"
proof -
  obtain r seed where r: "random_range rand (cu_seed c) 0 (int STALL_COUNT - 1) = (r, seed)" by fastforce
  have "0 \<le> r" "r < 5" using random_range_bounds [OF r] by (simp_all add: STALL_COUNT_def)
  then have i: "nat r < length ss" using assms(1) by (simp add: STALL_COUNT_def)
  have st: "0 \<le> st_stock (ss ! nat r)" using assms(2) i by simp
  show ?thesis
  proof (cases "0 < st_stock (ss ! nat r)")
    case True
    define taken where "taken = (if st_stock (ss ! nat r) > cu_need c then cu_need c else st_stock (ss ! nat r))"
    have t: "0 \<le> taken" "taken \<le> st_stock (ss ! nat r)" "taken \<le> cu_need c"
      using st assms(3) by (auto simp: taken_def)
    let ?st = "(ss ! nat r)\<lparr>st_stock := st_stock (ss ! nat r) - taken\<rparr>"
    have ss': "ss' = ss[nat r := ?st]" and c': "c' = c\<lparr>cu_seed := seed, cu_need := cu_need c - taken\<rparr>"
      and ev: "ev = Entered (cu_id c) (st_id (ss ! nat r)) (st_stock (ss ! nat r)) #
        Bought (cu_id c) taken (cu_need c - taken) # (if cu_need c - taken \<le> 0 then [Left (cu_id c)] else [])"
      using assms(4) True by (auto simp: customer_turn_def r Let_def taken_def)
    have "\<forall>st \<in> set ss'. 0 \<le> st_stock st"
      using assms(2) t(2) unfolding ss' by (auto dest: set_update_subset_insert [THEN subsetD])
    with t assms(1) i show ?thesis
      by (simp add: ss' c' ev sum_list_update_int)
  next
    case False
    with assms show ?thesis by (auto simp: customer_turn_def r Let_def)
  qed
qed

lemma loader_fill_balance:
  assumes "length ss = STALL_COUNT" "\<forall>st \<in> set ss. 0 \<le> st_stock st" "loader_fill rand s ss = (s', ss', ev)"
  shows "length ss' = STALL_COUNT \<and> (\<forall>st \<in> set ss'. 0 \<le> st_stock st) \<and>
    sum_list (map st_stock ss') = sum_list (map st_stock ss) + sum_list (map delivered ev) \<and>
    sum_list (map bought ev) = 0 \<and> (\<forall>k. sum_list (map (bought_by k) ev) = 0)"
proof -
  obtain r s1 where r: "random_range rand s 0 (int STALL_COUNT - 1) = (r, s1)" by fastforce
  have "0 \<le> r" "r < 5" using random_range_bounds [OF r] by (simp_all add: STALL_COUNT_def)
  then have i: "nat r < length ss" using assms(1) by (simp add: STALL_COUNT_def)
  let ?st = "(ss ! nat r)\<lparr>st_stock := st_stock (ss ! nat r) + LOADER_ADD\<rparr>"
  have ss': "ss' = ss[nat r := ?st]"
    and ev: "ev = [Refilled (st_id (ss ! nat r)) (st_stock (ss ! nat r) + LOADER_ADD)]"
    using assms(3) by (auto simp: loader_fill_def r Let_def)
  have "0 \<le> st_stock (ss ! nat r)" using assms(2) i by simp
  then have "\<forall>st \<in> set ss'. 0 \<le> st_stock st"
    using assms(2) unfolding ss'
    by (auto simp: LOADER_ADD_def dest: set_update_subset_insert [THEN subsetD])
  with assms(1) i show ?thesis by (simp add: ss' ev sum_list_update_int)
qed

lemma total_append: "total f (b\<lparr>log := log b @ ev\<rparr>) = total f b + sum_list (map f ev)"
  by (simp add: total_def)

lemma bazaar_exec_inv:
  assumes "bazaar_inv b0 b" "distinct (map cu_id (customers b0))" "bazaar_exec rand a b = Some b'"
  shows "bazaar_inv b0 b'"
proof -
  have len: "length (stalls b) = STALL_COUNT" and pos: "\<forall>st \<in> set (stalls b). 0 \<le> st_stock st"
    and ids: "map cu_id (customers b) = map cu_id (customers b0)"
    and need: "\<forall>c \<in> set (customers b). 0 \<le> cu_need c"
    and bal: "total_stock b + total bought b = total_stock b0 + total delivered b"
    and each: "\<And>i. i < length (customers b) \<Longrightarrow> cu_need (customers b ! i) +
      total (bought_by (cu_id (customers b0 ! i))) b = cu_need (customers b0 ! i)"
    and stop: "stop_loader b \<Longrightarrow> \<forall>c \<in> set (customers b). cu_need c = 0"
    using assms(1) by (auto simp: bazaar_inv_def)
  have lenc: "length (customers b) = length (customers b0)" using ids by (metis length_map)
  show ?thesis
  proof (cases a)
    case (Turn i)
    let ?c = "customers b ! i"
    obtain c ss ev where t: "customer_turn rand ?c (stalls b) = (c, ss, ev)" by (metis prod_cases3)
    have i: "i < length (customers b)" "0 < cu_need ?c"
      and b': "b' = b\<lparr>customers := (customers b)[i := c], stalls := ss, log := log b @ ev\<rparr>"
      using assms(3) t by (auto simp: bazaar_exec_def Turn split: if_splits)
    have "0 \<le> cu_need ?c" using i(2) by simp
    note turn = customer_turn_balance [OF len pos this t]
    have running: "\<not> stop_loader b" using stop i by (metis less_irrefl nth_mem)
    have id: "cu_id ?c = cu_id (customers b0 ! i)" using ids i(1) lenc by (metis nth_map)
    have other: "cu_id (customers b0 ! j) \<noteq> cu_id ?c" if "j < length (customers b)" "j \<noteq> i" for j
      using assms(2) that i(1) lenc unfolding id by (simp add: distinct_conv_nth)
    have "map cu_id ((customers b)[i := c]) = map cu_id (customers b)"
      using turn i(1) by (simp add: map_update list_update_same_conv)
    moreover have "\<forall>c' \<in> set ((customers b)[i := c]). 0 \<le> cu_need c'"
      using need turn by (auto dest: set_update_subset_insert [THEN subsetD])
    moreover have "cu_need ((customers b)[i := c] ! j) + total (bought_by (cu_id (customers b0 ! j))) b' =
        cu_need (customers b0 ! j)" if "j < length (customers b)" for j
      using each [OF that] each [OF i(1)] turn other [OF that] i(1) id
      by (cases "j = i") (auto simp: b' total_def)
    ultimately show ?thesis
      using turn ids bal running assms(1) by (auto simp: bazaar_inv_def b' total_def total_stock_def)
  next
    case Check
    with assms(1,3) show ?thesis
      by (auto simp: bazaar_exec_def bazaar_inv_def total_def total_stock_def split: if_splits)
  next
    case Fill
    obtain s ss ev where f: "loader_fill rand (loader_seed b) (stalls b) = (s, ss, ev)" by (metis prod_cases3)
    have b': "b' = b\<lparr>loader := Checking, loader_seed := s, stalls := ss, log := log b @ ev\<rparr>"
      using assms(3) f by (auto simp: bazaar_exec_def Fill split: if_splits)
    with loader_fill_balance [OF len pos f] assms(1) show ?thesis
      by (auto simp: bazaar_inv_def total_def total_stock_def)
  next
    case Stop
    with assms(1,3) need show ?thesis
      by (fastforce simp: bazaar_exec_def bazaar_inv_def total_def total_stock_def split: if_splits)
  qed
qed

lemma bazaar_reach_inv:
  "bazaar_reach rand b0 b \<Longrightarrow> bazaar_inv b0 b0 \<Longrightarrow> distinct (map cu_id (customers b0)) \<Longrightarrow> bazaar_inv b0 b"
  by (induction rule: bazaar_reach.induct) (auto intro: bazaar_exec_inv)

subsection \<open>Properties\<close>

lemma make_stalls_ok:
  "make_stalls rand n i s = (ss, s') \<Longrightarrow> length ss = n \<and>
     (\<forall>st \<in> set ss. STALL_MIN_STOCK \<le> st_stock st \<and> st_stock st \<le> STALL_MAX_STOCK)"
proof (induction n arbitrary: i s ss)
  case (Suc n)
  obtain stock s1 where r: "random_range rand s STALL_MIN_STOCK STALL_MAX_STOCK = (stock, s1)" by fastforce
  from random_range_bounds [OF r] Suc r show ?case
    by (fastforce simp: STALL_MIN_STOCK_def STALL_MAX_STOCK_def split: prod.splits)
qed simp

lemma make_customers_ok:
  "map cu_id (make_customers rand n i s) = map (\<lambda>k. int k + 1) [i..<i + n] \<and>
   (\<forall>c \<in> set (make_customers rand n i s). NEED_MIN \<le> cu_need c \<and> cu_need c \<le> NEED_MAX)"
proof (induction n arbitrary: i s)
  case (Suc n)
  obtain need s1 where r: "random_range rand s NEED_MIN NEED_MAX = (need, s1)" by fastforce
  have "[i..<i + Suc n] = i # [Suc i..<Suc i + n]" by (simp add: upt_conv_Cons)
  with random_range_bounds [OF r] Suc [of "i + 1" s1] r show ?case
    by (auto simp: NEED_MIN_def NEED_MAX_def)
qed simp

lemma bazaar_start_ok:
  "bazaar_inv (bazaar_start rand t t') (bazaar_start rand t t')"
  "distinct (map cu_id (customers (bazaar_start rand t t')))"
  "\<forall>st \<in> set (stalls (bazaar_start rand t t')). 900 \<le> st_stock st \<and> st_stock st \<le> 1100"
  "\<forall>c \<in> set (customers (bazaar_start rand t t')). 9900 \<le> cu_need c \<and> cu_need c \<le> 10100"
  "length (customers (bazaar_start rand t t')) = 3"
proof -
  obtain ss s where m: "make_stalls rand STALL_COUNT 0 t = (ss, s)" by fastforce
  note st = make_stalls_ok [OF m] and cu = make_customers_ok [of rand CUSTOMER_COUNT 0 s]
  have ids: "map cu_id (make_customers rand CUSTOMER_COUNT 0 s) = [1, 2, 3]"
    using conjunct1 [OF cu] by (simp add: CUSTOMER_COUNT_def upt_rec)
  show "distinct (map cu_id (customers (bazaar_start rand t t')))"
    by (simp add: bazaar_start_def m ids)
  show "length (customers (bazaar_start rand t t')) = 3"
    using arg_cong [OF ids, of length] by (simp add: bazaar_start_def m)
  show "\<forall>st \<in> set (stalls (bazaar_start rand t t')). 900 \<le> st_stock st \<and> st_stock st \<le> 1100"
    using st by (simp add: bazaar_start_def m STALL_MIN_STOCK_def STALL_MAX_STOCK_def)
  show needs: "\<forall>c \<in> set (customers (bazaar_start rand t t')). 9900 \<le> cu_need c \<and> cu_need c \<le> 10100"
    using cu by (simp add: bazaar_start_def m NEED_MIN_def NEED_MAX_def)
  show "bazaar_inv (bazaar_start rand t t') (bazaar_start rand t t')"
    using st needs
    by (force simp: bazaar_inv_def bazaar_start_def m STALL_MIN_STOCK_def total_def)
qed

text \<open>
  Property C24.  In every reachable state of the three customers and the loader, for any random
  numbers: no stall has a negative stock, the goods in the stalls and the goods bought are those of
  the start (900 to 1100 per stall) and those delivered, each customer has bought exactly what is
  missing from the need of 9900 to 10100 it came with, and the stop flag is only up, and the loader
  only gone, when every customer is satisfied.
\<close>

theorem bazaar_conserves:
  assumes "bazaar_reach rand (bazaar_start rand t t') b"
  shows "(\<forall>st \<in> set (stalls (bazaar_start rand t t')). 900 \<le> st_stock st \<and> st_stock st \<le> 1100) \<and>
    (\<forall>c \<in> set (customers (bazaar_start rand t t')). 9900 \<le> cu_need c \<and> cu_need c \<le> 10100) \<and>
    (\<forall>st \<in> set (stalls b). 0 \<le> st_stock st) \<and>
    total_stock b + total bought b = total_stock (bazaar_start rand t t') + total delivered b \<and>
    (\<forall>i < 3. 0 \<le> cu_need (customers b ! i) \<and>
       cu_need (customers b ! i) + total (bought_by (cu_id (customers (bazaar_start rand t t') ! i))) b =
         cu_need (customers (bazaar_start rand t t') ! i)) \<and>
    (stop_loader b \<or> loader b = Finished \<longrightarrow> (\<forall>c \<in> set (customers b). cu_need c = 0))"
proof -
  note s = bazaar_start_ok [of rand t t']
  have inv: "bazaar_inv (bazaar_start rand t t') b" by (rule bazaar_reach_inv [OF assms s(1,2)])
  then have "length (customers b) = 3" using s(5) by (metis bazaar_inv_def length_map)
  with inv s(3,4) show ?thesis by (auto simp: bazaar_inv_def)
qed

lemma bazaar_run_reach:
  "bazaar_reach rand b0 b \<Longrightarrow> foldl (\<lambda>r a. Option.bind r (bazaar_exec rand a)) (Some b) as = Some b' \<Longrightarrow>
   bazaar_reach rand b0 b'"
proof (induction as arbitrary: b)
  case (Cons a as)
  have none: "foldl (\<lambda>r a. Option.bind r (bazaar_exec rand a)) None as = None" for as
    by (induction as) simp_all
  show ?case
  proof (cases "bazaar_exec rand a b")
    case None
    with Cons.prems(2) none show ?thesis by simp
  next
    case (Some b1)
    from Cons.IH [OF bazaar_reach.action [OF Cons.prems(1) Some]] Cons.prems(2) Some show ?thesis by simp
  qed
qed simp

definition demo_rand :: rand where
  "demo_rand s = (3, s)"

definition demo_bazaar :: "bazaar option" where
  "demo_bazaar = foldl (\<lambda>r a. Option.bind r (bazaar_exec demo_rand a)) (Some (bazaar_start demo_rand 0 0))
     [Turn 1, Check, Turn 0, Fill, Turn 2]"

lemma bazaar_conserves_witness:
  "total_stock (the demo_bazaar) = 3612 \<and> total bought (the demo_bazaar) = 1103 \<and>
   total_stock (the demo_bazaar) + total bought (the demo_bazaar) =
     total_stock (bazaar_start demo_rand 0 0) + total delivered (the demo_bazaar)"
proof -
  have "\<not> Option.is_none demo_bazaar" by code_simp
  then obtain b where b: "demo_bazaar = Some b" by (auto simp: Option.is_none_def)
  from bazaar_conserves [OF bazaar_run_reach [OF bazaar_reach.start b [unfolded demo_bazaar_def]]]
  have "total_stock (the demo_bazaar) + total bought (the demo_bazaar) =
     total_stock (bazaar_start demo_rand 0 0) + total delivered (the demo_bazaar)" by (simp add: b)
  moreover have "total_stock (the demo_bazaar) = 3612" "total bought (the demo_bazaar) = 1103" by code_simp+
  ultimately show ?thesis by simp
qed

end
