(* ===== verification/File_Manager.thy ===== *)
theory File_Manager
  imports C_Text Chat_Ui "HOL-Library.Multiset" "HOL-Library.List_Lexorder"
begin

text \<open>
  The two-panel file manager, \<^verbatim>\<open>labs/lab-9/src/my_mc_fs.c\<close>, \<^verbatim>\<open>my_mc_input.c\<close> and
  \<^verbatim>\<open>my_mc_main.c\<close>.  The file system is what \<^verbatim>\<open>readdir\<close> and \<^verbatim>\<open>stat\<close> answer (\<open>fs\<close>); the
  C library's \<^verbatim>\<open>qsort\<close> is the argument \<open>qs\<close>.  Only the entries in use of the array of files are
  kept, so \<^verbatim>\<open>count\<close> is their number.  The screen is drawn by the separate file \<^verbatim>\<open>my_mc_ui.c\<close>;
  here it matters through the number of its rows, which is read before every key.
\<close>

definition MAX_FILES :: nat where "MAX_FILES = 2048"
definition MAX_PATH :: nat where "MAX_PATH = 4096"
definition MC_MAX_NAME :: nat where "MC_MAX_NAME = 256"
definition BOTTOM_LINES :: int where "BOTTOM_LINES = 3"
definition TOP_LINES :: int where "TOP_LINES = 1"
definition PANEL_NON_LIST_ROWS :: int where "PANEL_NON_LIST_ROWS = 5"

record file_stat =
  stat_size :: int
  stat_mtime :: int
  stat_is_dir :: bool

record file_entry =
  fe_name :: string
  fe_path :: string
  fe_size :: int
  fe_mtime :: int
  fe_is_dir :: bool

record panel =
  pn_path :: string
  pn_files :: "file_entry list"
  pn_cursor :: int
  pn_top :: int

record fs =
  fs_dir :: "string \<Rightarrow> string list option"
  fs_stat :: "string \<Rightarrow> file_stat option"
  fs_old_stat :: file_stat

type_synonym qsort = "file_entry list \<Rightarrow> file_entry list"

subsection \<open>The file list\<close>

definition lower :: "char \<Rightarrow> nat" where
  "lower c = (let v = of_char c in if 65 \<le> v \<and> v \<le> 90 then v + 32 else v)"

fun strcasecmp :: "string \<Rightarrow> string \<Rightarrow> int" where
  "strcasecmp [] [] = 0"
| "strcasecmp [] (d # t) = - int (lower d)"
| "strcasecmp (c # s) [] = int (lower c)"
| "strcasecmp (c # s) (d # t) =
     (if lower c \<noteq> lower d then int (lower c) - int (lower d) else strcasecmp s t)"

definition cmp_entries :: "file_entry \<Rightarrow> file_entry \<Rightarrow> int" where
  "cmp_entries a b =
     (if fe_name a = ''..'' then -1
      else if fe_name b = ''..'' then 1
      else if fe_is_dir a \<noteq> fe_is_dir b then of_bool (fe_is_dir b) - of_bool (fe_is_dir a)
      else strcasecmp (fe_name a) (fe_name b))"

definition join_path_safe :: "string \<Rightarrow> string \<Rightarrow> nat \<Rightarrow> string option" where
  "join_path_safe base name out_size =
     (if length base + 1 + length name + 1 > out_size then None else Some (base @ ''/'' @ name))"

text \<open>The entry ``..'': its \<^verbatim>\<open>stat\<close> is not checked, a failing one leaves the old value.\<close>

definition parent_entry :: "fs \<Rightarrow> string \<Rightarrow> file_entry list" where
  "parent_entry F path =
     (if path = ''/'' then []
      else (case join_path_safe path ''..'' MAX_PATH of
              None \<Rightarrow> []
            | Some full \<Rightarrow>
                let st = (case fs_stat F full of None \<Rightarrow> fs_old_stat F | Some st \<Rightarrow> st)
                in [\<lparr>fe_name = ''..'', fe_path = full, fe_size = stat_size st, fe_mtime = stat_mtime st,
                     fe_is_dir = True\<rparr>]))"

fun read_entries :: "fs \<Rightarrow> string \<Rightarrow> string list \<Rightarrow> nat \<Rightarrow> file_entry list" where
  "read_entries F path [] found = []"
| "read_entries F path (d # ds) found =
     (if found < MAX_FILES then
        if d = ''.'' \<or> d = ''..'' then read_entries F path ds found
        else (case join_path_safe path d MAX_PATH of
                None \<Rightarrow> read_entries F path ds found
              | Some full \<Rightarrow>
                  (case fs_stat F full of
                     None \<Rightarrow> read_entries F path ds found
                   | Some st \<Rightarrow>
                       \<lparr>fe_name = fit MC_MAX_NAME d, fe_path = fit MAX_PATH full, fe_size = stat_size st,
                        fe_mtime = stat_mtime st, fe_is_dir = stat_is_dir st\<rparr> #
                       read_entries F path ds (found + 1)))
      else [])"

definition load_dir :: "fs \<Rightarrow> qsort \<Rightarrow> panel \<Rightarrow> panel" where
  "load_dir F qs p =
     (case fs_dir F (pn_path p) of
        None \<Rightarrow> p\<lparr>pn_files := [], pn_cursor := 0, pn_top := 0\<rparr>
      | Some ds \<Rightarrow>
          let up = parent_entry F (pn_path p)
          in p\<lparr>pn_files := qs (up @ read_entries F (pn_path p) ds (length up)), pn_cursor := 0, pn_top := 0\<rparr>)"

definition file_rows_of :: "int \<Rightarrow> int" where
  "file_rows_of rows =
     (let n = rows - TOP_LINES - BOTTOM_LINES - PANEL_NON_LIST_ROWS in if n < 1 then 1 else n)"

definition scroll_into_view :: "int \<Rightarrow> panel \<Rightarrow> panel" where
  "scroll_into_view rows p =
     (let t1 = (if pn_cursor p < pn_top p then pn_cursor p else pn_top p);
          t2 = (if pn_cursor p \<ge> t1 + file_rows_of rows then pn_cursor p - file_rows_of rows + 1 else t1)
      in p\<lparr>pn_top := if t2 < 0 then 0 else t2\<rparr>)"

text \<open>\<^verbatim>\<open>focus_entry_by_name\<close>; the loop runs over the index.\<close>

definition focus_entry_by_name :: "int \<Rightarrow> string \<Rightarrow> panel \<Rightarrow> panel" where
  "focus_entry_by_name rows name p =
     (if name = [] then p
      else (case scan (\<lambda>fe. fe_name fe = name) 0 (length (pn_files p)) (pn_files p) of
              None \<Rightarrow> p
            | Some i \<Rightarrow> scroll_into_view rows (p\<lparr>pn_cursor := int i\<rparr>)))"

definition enter_dir :: "fs \<Rightarrow> qsort \<Rightarrow> string \<Rightarrow> panel \<Rightarrow> panel" where
  "enter_dir F qs path p = load_dir F qs (p\<lparr>pn_path := fit MAX_PATH path\<rparr>)"

definition format_display_path :: "string option \<Rightarrow> string \<Rightarrow> nat \<Rightarrow> string" where
  "format_display_path home path out_size =
     (case home of
        None \<Rightarrow> fit out_size path
      | Some h \<Rightarrow>
          if h \<noteq> [] \<and> starts_with path h then
            (case drop (length h) path of
               [] \<Rightarrow> fit out_size ''~''
             | c # r \<Rightarrow> if c = CHR ''/'' then fit out_size (''~'' @ c # r) else fit out_size path)
          else fit out_size path)"

subsection \<open>The keys\<close>

text \<open>\<^verbatim>\<open>extract_last_component\<close>: \<open>end\<close> moves left over slashes, but not to the first character;
  \<open>start\<close> moves left to the next slash.\<close>

fun trim_slashes :: "nat \<Rightarrow> string \<Rightarrow> nat" where
  "trim_slashes 0 path = 0"
| "trim_slashes (Suc n) path =
     (if Suc n > 1 \<and> path ! n = CHR ''/'' then trim_slashes n path else Suc n)"

fun component_start :: "nat \<Rightarrow> string \<Rightarrow> nat" where
  "component_start 0 path = 0"
| "component_start (Suc n) path = (if path ! n \<noteq> CHR ''/'' then component_start n path else Suc n)"

definition extract_last_component :: "string \<Rightarrow> nat \<Rightarrow> string" where
  "extract_last_component path out_size =
     (if path = [] \<or> path = ''/'' then []
      else let e = trim_slashes (length path) path; s = component_start e path
           in fit out_size (take (e - s) (drop s path)))"

definition go_parent_keep_selection :: "fs \<Rightarrow> qsort \<Rightarrow> int \<Rightarrow> panel \<Rightarrow> panel" where
  "go_parent_keep_selection F qs rows p =
     (let child_name = extract_last_component (pn_path p) MC_MAX_NAME;
          parent = (case join_path_safe (pn_path p) ''..'' MAX_PATH of None \<Rightarrow> ''/'' | Some s \<Rightarrow> s)
      in focus_entry_by_name rows child_name (enter_dir F qs parent p))"

definition enter_directory_at_cursor :: "fs \<Rightarrow> qsort \<Rightarrow> int \<Rightarrow> panel \<Rightarrow> panel" where
  "enter_directory_at_cursor F qs rows p =
     (if pn_files p = [] then p
      else let fe = pn_files p ! nat (pn_cursor p)
           in if \<not> fe_is_dir fe then p
              else if fe_name fe = ''..'' then go_parent_keep_selection F qs rows p
              else enter_dir F qs (fe_path fe) p)"

record mc_keys = curses_keys +
  key_up :: int
  key_down :: int
  key_resize :: int

record mc =
  mc_panels :: "panel list"
  mc_active :: nat
  cmdline :: string

definition set_panel :: "panel \<Rightarrow> mc \<Rightarrow> mc" where
  "set_panel p m = m\<lparr>mc_panels := (mc_panels m)[mc_active m := p]\<rparr>"

text \<open>One key of \<^verbatim>\<open>main_loop\<close>; \<open>None\<close> leaves the loop.\<close>

definition mc_key :: "mc_keys \<Rightarrow> fs \<Rightarrow> qsort \<Rightarrow> int \<Rightarrow> int \<Rightarrow> mc \<Rightarrow> mc option" where
  "mc_key K F qs rows ch m =
     (let ap = mc_panels m ! mc_active m in
      if ch = key_resize K then Some m
      else if ch = key_up K then
        Some (set_panel (scroll_into_view rows
          (if pn_cursor ap > 0 then ap\<lparr>pn_cursor := pn_cursor ap - 1\<rparr> else ap)) m)
      else if ch = key_down K then
        Some (set_panel (scroll_into_view rows
          (if pn_cursor ap < int (length (pn_files ap)) - 1 then ap\<lparr>pn_cursor := pn_cursor ap + 1\<rparr> else ap)) m)
      else if ch = 10 \<or> ch = key_enter K \<or> ch = 13 then
        Some (set_panel (enter_directory_at_cursor F qs rows ap) m)
      else if ch = 9 then Some (m\<lparr>mc_active := 1 - mc_active m\<rparr>)
      else if ch = key_backspace K \<or> ch = 127 then
        (if cmdline m \<noteq> [] then Some (m\<lparr>cmdline := butlast (cmdline m)\<rparr>)
         else Some (set_panel (go_parent_keep_selection F qs rows ap) m))
      else if ch = key_f10 K \<or> ch = 113 \<or> ch = 81 then None
      else if ch \<ge> 32 \<and> ch < 127 \<and> length (cmdline m) < MAX_PATH - 1
      then Some (m\<lparr>cmdline := cmdline m @ [char_of (nat ch)]\<rparr>)
      else Some m)"

text \<open>\<^verbatim>\<open>main_loop\<close> over the rows of the screen and the keys; the state when the keys run out or the
  loop is left.\<close>

fun main_loop :: "mc_keys \<Rightarrow> fs \<Rightarrow> qsort \<Rightarrow> (int \<times> int) list \<Rightarrow> mc \<Rightarrow> mc" where
  "main_loop K F qs [] m = m"
| "main_loop K F qs ((rows, ch) # ks) m =
     (case mc_key K F qs rows ch m of None \<Rightarrow> m | Some m1 \<Rightarrow> main_loop K F qs ks m1)"

definition mc_start :: "fs \<Rightarrow> qsort \<Rightarrow> string option \<Rightarrow> string option \<Rightarrow> mc" where
  "mc_start F qs arg cwd =
     (let start_path = (case arg of Some a \<Rightarrow> a | None \<Rightarrow> (case cwd of Some c \<Rightarrow> c | None \<Rightarrow> ''/''));
          p = load_dir F qs \<lparr>pn_path = fit MAX_PATH start_path, pn_files = [], pn_cursor = 0, pn_top = 0\<rparr>
      in \<lparr>mc_panels = [p, p], mc_active = 0, cmdline = []\<rparr>)"

subsection \<open>Moving about\<close>

text \<open>The buffers and the cursor; and that the cursor is in the rows drawn on a screen of \<open>rows\<close>.\<close>

definition panel_safe :: "panel \<Rightarrow> bool" where
  "panel_safe p \<longleftrightarrow> length (pn_path p) < MAX_PATH \<and> length (pn_files p) \<le> MAX_FILES \<and>
     0 \<le> pn_cursor p \<and> (pn_cursor p < int (length (pn_files p)) \<or> pn_cursor p = 0) \<and>
     0 \<le> pn_top p \<and> pn_top p \<le> pn_cursor p"

definition panel_ok :: "int \<Rightarrow> panel \<Rightarrow> bool" where
  "panel_ok rows p \<longleftrightarrow> panel_safe p \<and> pn_cursor p < pn_top p + file_rows_of rows"

definition permutes :: "qsort \<Rightarrow> bool" where
  "permutes qs \<longleftrightarrow> (\<forall>xs. mset (qs xs) = mset xs)"

lemma file_rows_pos: "1 \<le> file_rows_of rows"
  by (simp add: file_rows_of_def Let_def)

lemma length_read_entries: "found \<le> MAX_FILES \<Longrightarrow> found + length (read_entries F path ds found) \<le> MAX_FILES"
proof (induction ds arbitrary: found)
  case (Cons d ds)
  show ?case
    using Cons.IH [of found] Cons.IH [of "found + 1"] Cons.prems by (simp split: option.split)
qed simp

lemma length_parent_entry: "length (parent_entry F path) \<le> 1"
  by (auto simp: parent_entry_def Let_def split: option.split)

lemma load_dir_ok:
  assumes "permutes qs" "length (pn_path p) < MAX_PATH"
  shows "panel_ok rows (load_dir F qs p)"
proof (cases "fs_dir F (pn_path p)")
  case None
  with assms file_rows_pos [of rows] show ?thesis by (auto simp: load_dir_def panel_ok_def panel_safe_def)
next
  case (Some ds)
  let ?up = "parent_entry F (pn_path p)"
  have "length ?up \<le> MAX_FILES" using length_parent_entry [of F "pn_path p"] by (simp add: MAX_FILES_def)
  then have "length (?up @ read_entries F (pn_path p) ds (length ?up)) \<le> MAX_FILES"
    using length_read_entries by simp
  moreover have "length (qs xs) = length xs" for xs
    using assms(1) by (metis permutes_def size_mset)
  ultimately show ?thesis using Some assms(2) file_rows_pos [of rows]
    by (auto simp: load_dir_def panel_ok_def panel_safe_def Let_def)
qed

lemma scroll_ok:
  assumes "length (pn_path p) < MAX_PATH" "length (pn_files p) \<le> MAX_FILES" "0 \<le> pn_cursor p"
    "pn_cursor p < int (length (pn_files p)) \<or> pn_cursor p = 0"
  shows "panel_ok rows (scroll_into_view rows p)"
  using assms file_rows_pos [of rows] by (auto simp: panel_ok_def panel_safe_def scroll_into_view_def Let_def)

lemma enter_dir_ok: "permutes qs \<Longrightarrow> panel_ok rows (enter_dir F qs path p)"
  unfolding enter_dir_def by (rule load_dir_ok) (simp_all add: fit_def MAX_PATH_def)

lemma focus_ok:
  assumes "panel_ok rows p"
  shows "panel_ok rows (focus_entry_by_name rows name p)"
proof (cases "name = [] \<or> scan (\<lambda>fe. fe_name fe = name) 0 (length (pn_files p)) (pn_files p) = None")
  case True
  with assms show ?thesis by (auto simp: focus_entry_by_name_def)
next
  case False
  then obtain i where i: "scan (\<lambda>fe. fe_name fe = name) 0 (length (pn_files p)) (pn_files p) = Some i" by auto
  have "panel_ok rows (scroll_into_view rows (p\<lparr>pn_cursor := int i\<rparr>))"
    by (rule scroll_ok) (use scan_SomeD [OF i] assms in \<open>simp_all add: panel_ok_def panel_safe_def\<close>)
  with i False show ?thesis by (simp add: focus_entry_by_name_def)
qed

lemma go_parent_ok: "permutes qs \<Longrightarrow> panel_ok rows (go_parent_keep_selection F qs rows p)"
  unfolding go_parent_keep_selection_def Let_def by (intro focus_ok enter_dir_ok)

definition mc_all :: "(panel \<Rightarrow> bool) \<Rightarrow> mc \<Rightarrow> bool" where
  "mc_all P m \<longleftrightarrow> length (mc_panels m) = 2 \<and> mc_active m < 2 \<and> length (cmdline m) < MAX_PATH \<and>
     (\<forall>p \<in> set (mc_panels m). P p)"

abbreviation mc_ok :: "int \<Rightarrow> mc \<Rightarrow> bool" where "mc_ok rows \<equiv> mc_all (panel_ok rows)"

lemmas mc_ok_def = mc_all_def

lemma set_panel_all: "mc_all P m \<Longrightarrow> P p \<Longrightarrow> mc_all P (set_panel p m)"
  by (auto simp: mc_all_def set_panel_def dest: set_update_subset_insert [THEN subsetD])

lemma panel_ok_safe: "panel_ok rows p \<Longrightarrow> panel_safe p" by (simp add: panel_ok_def)

lemma panel_ok_mono: "panel_ok rows p \<Longrightarrow> rows \<le> rows' \<Longrightarrow> panel_ok rows' p"
  by (auto simp: panel_ok_def file_rows_of_def Let_def split: if_splits)

lemma mc_all_mono: "mc_all P m \<Longrightarrow> (\<And>p. P p \<Longrightarrow> Q p) \<Longrightarrow> mc_all Q m"
  by (auto simp: mc_all_def)

text \<open>A key changes at most the active panel, and then the cursor is visible there.\<close>

lemma mc_key_all:
  assumes "permutes qs" "mc_all P m" "mc_key K F qs rows ch m = Some m'"
    "\<And>p. P p \<Longrightarrow> panel_safe p" "\<And>p. panel_ok rows p \<Longrightarrow> P p"
  shows "mc_all P m'"
proof -
  let ?ap = "mc_panels m ! mc_active m"
  have P: "P ?ap" and ap: "panel_safe ?ap" using assms(2,4) by (simp_all add: mc_all_def)
  define up where "up = scroll_into_view rows
      (if pn_cursor ?ap > 0 then ?ap\<lparr>pn_cursor := pn_cursor ?ap - 1\<rparr> else ?ap)"
  define down where "down = scroll_into_view rows
      (if pn_cursor ?ap < int (length (pn_files ?ap)) - 1 then ?ap\<lparr>pn_cursor := pn_cursor ?ap + 1\<rparr> else ?ap)"
  define inside where "inside = enter_directory_at_cursor F qs rows ?ap"
  define outside where "outside = go_parent_keep_selection F qs rows ?ap"
  have moves: "P up" "P down" "P inside" "P outside"
  proof -
    show "P up" "P down"
      using ap unfolding up_def down_def panel_safe_def [of ?ap] by (auto intro!: assms(5) scroll_ok)
    show "P inside"
      using P assms(1) unfolding inside_def
      by (auto simp: enter_directory_at_cursor_def Let_def intro: assms(5) go_parent_ok enter_dir_ok)
    show "P outside" unfolding outside_def by (intro assms(5) go_parent_ok assms(1))
  qed
  note key = assms(3) [unfolded mc_key_def Let_def, folded up_def down_def inside_def outside_def]
  have typed: "mc_all P (m\<lparr>mc_active := 1 - mc_active m\<rparr>)" "mc_all P (m\<lparr>cmdline := butlast (cmdline m)\<rparr>)"
    "length (cmdline m) < MAX_PATH - 1 \<Longrightarrow> mc_all P (m\<lparr>cmdline := cmdline m @ [c]\<rparr>)" for c
    using assms(2) by (auto simp: mc_all_def)
  from moves [THEN set_panel_all [OF assms(2)]] typed assms(2) key show ?thesis
    by (simp split: if_splits) blast+
qed

lemma mc_key_ok: "permutes qs \<Longrightarrow> mc_ok rows m \<Longrightarrow> mc_key K F qs rows ch m = Some m' \<Longrightarrow> mc_ok rows m'"
  by (erule (2) mc_key_all) (auto intro: panel_ok_safe)

lemma mc_key_safe:
  "permutes qs \<Longrightarrow> mc_all panel_safe m \<Longrightarrow> mc_key K F qs rows ch m = Some m' \<Longrightarrow> mc_all panel_safe m'"
  by (erule (2) mc_key_all) (auto intro: panel_ok_safe)

lemma main_loop_safe: "permutes qs \<Longrightarrow> mc_all panel_safe m \<Longrightarrow> mc_all panel_safe (main_loop K F qs ks m)"
  by (induction K F qs ks m rule: main_loop.induct) (auto split: option.split intro: mc_key_safe)

text \<open>On a screen that never shrinks the cursor stays visible.\<close>

lemma main_loop_ok:
  "permutes qs \<Longrightarrow> mc_ok r m \<Longrightarrow> sorted (r # map fst ks @ [rows]) \<Longrightarrow> mc_ok rows (main_loop K F qs ks m)"
proof (induction K F qs ks m arbitrary: r rule: main_loop.induct)
  case (1 K F qs m)
  then show ?case by (auto intro: mc_all_mono panel_ok_mono)
next
  case (2 K F qs rs ch ks m)
  from "2.prems"(2,3) have ok: "mc_ok rs m" by (auto intro: mc_all_mono panel_ok_mono)
  show ?case
  proof (cases "mc_key K F qs rs ch m")
    case None
    with ok "2.prems"(3) show ?thesis by (auto intro: mc_all_mono panel_ok_mono)
  next
    case (Some m1)
    with "2.IH" [OF Some "2.prems"(1) mc_key_ok [OF "2.prems"(1) ok Some]] "2.prems"(3) show ?thesis by simp
  qed
qed

lemma mc_start_ok:
  assumes "permutes qs"
  shows "mc_ok rows (mc_start F qs arg cwd)"
proof -
  have "panel_ok rows (load_dir F qs \<lparr>pn_path = fit MAX_PATH s, pn_files = [], pn_cursor = 0, pn_top = 0\<rparr>)" for s
    by (rule load_dir_ok [OF assms]) (simp add: fit_def MAX_PATH_def)
  then show ?thesis by (simp add: mc_start_def Let_def mc_all_def MAX_PATH_def)
qed

lemma mc_run_ok:
  assumes "permutes qs" "sorted (map fst ks @ [rows])"
  shows "mc_ok rows (main_loop K F qs ks (mc_start F qs arg cwd))"
proof -
  have "sorted ((case ks of [] \<Rightarrow> rows | k # _ \<Rightarrow> fst k) # map fst ks @ [rows])"
    using assms(2) by (cases ks) auto
  from main_loop_ok [OF assms(1) mc_start_ok [OF assms(1)] this] show ?thesis .
qed

text \<open>
  Property C25.  Whatever is typed, whatever directories answer and however the screen changes its
  size: in both panels the cursor is on an entry (or at 0 in an empty list) and not above the first
  row drawn, no more than 2048 entries are kept, and path and command line stay inside their buffers.
  As long as the screen never shrinks the cursor is inside the rows that are drawn.
\<close>

theorem mc_cursor_visible:
  assumes "permutes qs"
  shows "mc_all panel_safe (main_loop K F qs ks (mc_start F qs arg cwd)) \<and>
    (sorted (map fst ks @ [rows]) \<longrightarrow> mc_ok rows (main_loop K F qs ks (mc_start F qs arg cwd)))"
proof -
  have "mc_all panel_safe (mc_start F qs arg cwd)"
    using mc_start_ok [OF assms, of rows F arg cwd] panel_ok_safe by (rule mc_all_mono)
  then show ?thesis using main_loop_safe [OF assms] mc_run_ok [OF assms] by blast
qed

definition demo_fs :: fs where
  "demo_fs = \<lparr>fs_dir = (\<lambda>p. Some (if p = ''/a'' then [''.'', ''x'', ''B''] else [''a'', ''c''])),
     fs_stat = (\<lambda>p. Some \<lparr>stat_size = 1, stat_mtime = 2, stat_is_dir = (p \<noteq> ''/a/x'')\<rparr>),
     fs_old_stat = \<lparr>stat_size = 0, stat_mtime = 0, stat_is_dir = False\<rparr>\<rparr>"

definition demo_keys :: mc_keys where
  "demo_keys = \<lparr>key_err = -1, key_enter = 343, key_f10 = 274, key_backspace = 263, key_up = 259,
     key_down = 258, key_resize = 410\<rparr>"

lemma mc_cursor_visible_witness:
  "mc_ok 12 (main_loop demo_keys demo_fs (\<lambda>xs. xs) [(11, 258), (11, 258), (12, 410), (12, 258), (12, 9), (12, 259)]
     (mc_start demo_fs (\<lambda>xs. xs) (Some ''/a'') None))"
  by (rule mc_cursor_visible [THEN conjunct2, rule_format]) (simp_all add: permutes_def)

text \<open>On one that shrinks it does not: the rows are not scrolled at \<^verbatim>\<open>KEY_RESIZE\<close>.\<close>

lemma mc_shrunk_hides_cursor:
  "let m = main_loop demo_keys demo_fs (\<lambda>xs. xs) [(20, 258), (10, 410)] (mc_start demo_fs (\<lambda>xs. xs) (Some ''/a'') None);
       p = mc_panels m ! 0
   in pn_cursor p = 1 \<and> pn_top p + file_rows_of 10 = 1"
  by (simp add: mc_start_def demo_fs_def load_dir_def parent_entry_def join_path_safe_def fit_def mc_key_def
      demo_keys_def set_panel_def scroll_into_view_def file_rows_of_def
      TOP_LINES_def BOTTOM_LINES_def PANEL_NON_LIST_ROWS_def
      MAX_PATH_def MAX_FILES_def MC_MAX_NAME_def Let_def)

subsection \<open>What a listing shows\<close>

lemma fit_dots: "fit MC_MAX_NAME d = ''..'' \<longleftrightarrow> d = ''..''"
proof
  assume dots: "fit MC_MAX_NAME d = ''..''"
  then have "length (take 255 d) = 2" by (simp add: fit_def MC_MAX_NAME_def)
  then have "take 255 d = d" by simp
  with dots show "d = ''..''" by (simp add: fit_def MC_MAX_NAME_def)
qed (simp add: fit_def MC_MAX_NAME_def)

definition listed :: "fs \<Rightarrow> string \<Rightarrow> string \<Rightarrow> file_entry \<Rightarrow> bool" where
  "listed F path d e \<longleftrightarrow> d \<noteq> ''.'' \<and> d \<noteq> ''..'' \<and>
     (case join_path_safe path d MAX_PATH of None \<Rightarrow> False
      | Some full \<Rightarrow> (case fs_stat F full of None \<Rightarrow> False
         | Some st \<Rightarrow> e = \<lparr>fe_name = fit MC_MAX_NAME d, fe_path = full, fe_size = stat_size st,
                         fe_mtime = stat_mtime st, fe_is_dir = stat_is_dir st\<rparr>))"

lemma fit_joined: "join_path_safe path d MAX_PATH = Some full \<Longrightarrow> fit MAX_PATH full = full"
  by (auto simp: join_path_safe_def fit_def split: if_splits)

text \<open>With room for all of them, every file that can be examined is listed, and nothing else.\<close>

lemma read_entries_listed:
  "found + length ds \<le> MAX_FILES \<Longrightarrow>
   e \<in> set (read_entries F path ds found) \<longleftrightarrow> (\<exists>d \<in> set ds. listed F path d e)"
proof (induction ds arbitrary: found)
  case (Cons d ds)
  have IH: "e \<in> set (read_entries F path ds found) \<longleftrightarrow> (\<exists>d \<in> set ds. listed F path d e)"
    "e \<in> set (read_entries F path ds (found + 1)) \<longleftrightarrow> (\<exists>d \<in> set ds. listed F path d e)"
    using Cons.prems by (auto intro!: Cons.IH)
  have room: "found < MAX_FILES" using Cons.prems by simp
  show ?case
  proof (cases "d = ''.'' \<or> d = ''..''")
    case True
    with IH(1) room show ?thesis by (auto simp: listed_def)
  next
    case False
    with IH room show ?thesis
      by (cases "join_path_safe path d MAX_PATH")
        (auto simp: listed_def [of F path d] fit_joined split: option.split)
  qed
qed simp

lemma listed_name: "listed F path d e \<Longrightarrow> fe_name e \<noteq> ''..''"
  by (auto simp: listed_def fit_dots split: option.splits)

definition parent_fits :: "string \<Rightarrow> bool" where
  "parent_fits path \<longleftrightarrow> path \<noteq> ''/'' \<and> length path + 4 \<le> MAX_PATH"

lemma parent_entry_cases:
  "parent_entry F path = [] \<and> \<not> parent_fits path \<or>
   (\<exists>e. parent_entry F path = [e] \<and> parent_fits path \<and> fe_name e = ''..'' \<and> fe_is_dir e)"
  by (auto simp: parent_entry_def parent_fits_def join_path_safe_def Let_def)

subsection \<open>The order of a listing\<close>

text \<open>
  The place of an entry: ``..'' first, then directories, then other files, each kind by its name
  in small letters.  Comparing entries with \<^verbatim>\<open>cmp_entries\<close> is comparing their ranks, unless both are
  ``..''.
\<close>

datatype rank = Up_rank | Dir_rank "nat list" | File_rank "nat list"

instantiation rank :: linorder
begin

fun less_eq_rank :: "rank \<Rightarrow> rank \<Rightarrow> bool" where
  "less_eq_rank Up_rank r = True"
| "less_eq_rank (Dir_rank s) Up_rank = False"
| "less_eq_rank (Dir_rank s) (Dir_rank u) = (s \<le> u)"
| "less_eq_rank (Dir_rank s) (File_rank u) = True"
| "less_eq_rank (File_rank s) (File_rank u) = (s \<le> u)"
| "less_eq_rank (File_rank s) r = False"

definition less_rank :: "rank \<Rightarrow> rank \<Rightarrow> bool" where
  "less_rank a b \<longleftrightarrow> a \<le> b \<and> \<not> b \<le> a"

instance
proof
  fix a b c :: rank
  show "a < b \<longleftrightarrow> a \<le> b \<and> \<not> b \<le> a" by (rule less_rank_def)
  show "a \<le> a" by (cases a) simp_all
  show "a \<le> b \<Longrightarrow> b \<le> c \<Longrightarrow> a \<le> c" by (cases a; cases b; cases c) auto
  show "a \<le> b \<Longrightarrow> b \<le> a \<Longrightarrow> a = b" by (cases a; cases b) auto
  show "a \<le> b \<or> b \<le> a" by (cases a; cases b) auto
qed

end

definition rank_of :: "file_entry \<Rightarrow> rank" where
  "rank_of e =
     (if fe_name e = ''..'' then Up_rank
      else if fe_is_dir e then Dir_rank (map lower (fe_name e)) else File_rank (map lower (fe_name e)))"

lemma rank_less:
  "Up_rank < Dir_rank s" "Up_rank < File_rank s" "Dir_rank s < File_rank u"
  "\<not> r < Up_rank" "\<not> File_rank s < Dir_rank u"
  "Dir_rank s < Dir_rank u \<longleftrightarrow> s < u" "File_rank s < File_rank u \<longleftrightarrow> s < u"
  by (auto simp: less_rank_def)

lemma strcasecmp_le: "map lower s \<le> map lower u \<Longrightarrow> strcasecmp s u \<le> 0"
  by (induction s u rule: strcasecmp.induct) auto

lemma lower_pos: "c \<noteq> CHR 0x00 \<Longrightarrow> 0 < lower c"
proof -
  assume "c \<noteq> CHR 0x00"
  then have "(of_char c :: nat) \<noteq> of_char (CHR 0x00)" by (simp only: of_char_eq_iff) simp
  then show ?thesis by (simp add: lower_def Let_def)
qed

lemma strcasecmp_swap: "strcasecmp u s = - strcasecmp s u"
  by (induction s u rule: strcasecmp.induct) auto

lemma strcasecmp_less:
  "c_string s \<Longrightarrow> c_string u \<Longrightarrow> strcasecmp s u < 0 \<longleftrightarrow> map lower s < map lower u"
proof (induction s u rule: strcasecmp.induct)
  case (2 d u)
  then show ?case using lower_pos [of d] by (auto simp: c_string_def)
qed (auto simp: c_string_def)

lemma cmp_entries_le: "rank_of a \<le> rank_of b \<Longrightarrow> cmp_entries a b \<le> 0"
  by (auto simp: rank_of_def cmp_entries_def strcasecmp_le split: if_splits)

lemma cmp_entries_rank:
  assumes "c_string (fe_name a)" "c_string (fe_name b)" "fe_name a \<noteq> ''..'' \<or> fe_name b \<noteq> ''..''"
  shows "cmp_entries a b < 0 \<longleftrightarrow> rank_of a < rank_of b" "cmp_entries a b > 0 \<longleftrightarrow> rank_of b < rank_of a"
proof -
  have less: "strcasecmp (fe_name a) (fe_name b) < 0 \<longleftrightarrow> map lower (fe_name a) < map lower (fe_name b)"
    using assms(1,2) by (rule strcasecmp_less)
  have more: "0 < strcasecmp (fe_name a) (fe_name b) \<longleftrightarrow> map lower (fe_name b) < map lower (fe_name a)"
    using strcasecmp_less [OF assms(2,1)] strcasecmp_swap [of "fe_name b" "fe_name a"] by simp
  show "cmp_entries a b < 0 \<longleftrightarrow> rank_of a < rank_of b" "cmp_entries a b > 0 \<longleftrightarrow> rank_of b < rank_of a"
    using assms(3) less more
    by (cases "fe_name a = ''..''"; cases "fe_name b = ''..''"; cases "fe_is_dir a"; cases "fe_is_dir b";
        simp add: cmp_entries_def rank_of_def rank_less)+
qed

text \<open>
  What \<^verbatim>\<open>qsort\<close> asks of a comparison: on the elements at different places of the list it is one of the
  three answers of a total order.  What it then promises: the same elements, sorted.
\<close>

definition consistent :: "('a \<Rightarrow> 'a \<Rightarrow> int) \<Rightarrow> 'a list \<Rightarrow> bool" where
  "consistent cmp xs \<longleftrightarrow>
     (\<forall>i < length xs. \<forall>j < length xs. i \<noteq> j \<longrightarrow> (cmp (xs ! i) (xs ! j) < 0 \<longleftrightarrow> cmp (xs ! j) (xs ! i) > 0)) \<and>
     (\<forall>i < length xs. \<forall>j < length xs. \<forall>k < length xs. distinct [i, j, k] \<longrightarrow>
        cmp (xs ! i) (xs ! j) \<le> 0 \<longrightarrow> cmp (xs ! j) (xs ! k) \<le> 0 \<longrightarrow> cmp (xs ! i) (xs ! k) \<le> 0)"

definition qsort_sorts :: "qsort \<Rightarrow> bool" where
  "qsort_sorts qs \<longleftrightarrow>
     (\<forall>xs. consistent cmp_entries xs \<longrightarrow>
        mset (qs xs) = mset xs \<and> sorted_wrt (\<lambda>a b. cmp_entries a b \<le> 0) (qs xs))"

lemma sort_key_sorts: "qsort_sorts (sort_key rank_of)"
proof -
  have "sorted_wrt (\<lambda>a b. cmp_entries a b \<le> 0) (sort_key rank_of xs)" for xs
  proof -
    have "sorted_wrt (\<lambda>a b. rank_of a \<le> rank_of b) (sort_key rank_of xs)"
      using sorted_sort_key [of rank_of xs] by (simp add: sorted_wrt_map)
    then show ?thesis by (rule sorted_wrt_mono_rel [rotated]) (simp add: cmp_entries_le)
  qed
  then show ?thesis by (simp add: qsort_sorts_def)
qed

lemma consistent_rank:
  assumes "\<forall>e \<in> set xs. c_string (fe_name e)"
    and "\<forall>i < length xs. \<forall>j < length xs. i \<noteq> j \<longrightarrow> fe_name (xs ! i) \<noteq> ''..'' \<or> fe_name (xs ! j) \<noteq> ''..''"
  shows "consistent cmp_entries xs"
proof -
  have c: "(cmp_entries (xs ! i) (xs ! j) < 0 \<longleftrightarrow> rank_of (xs ! i) < rank_of (xs ! j)) \<and>
      (cmp_entries (xs ! i) (xs ! j) > 0 \<longleftrightarrow> rank_of (xs ! j) < rank_of (xs ! i))"
    if "i < length xs" "j < length xs" "i \<noteq> j" for i j
  proof -
    have "c_string (fe_name (xs ! i))" "c_string (fe_name (xs ! j))" using assms(1) that by simp_all
    moreover have "fe_name (xs ! i) \<noteq> ''..'' \<or> fe_name (xs ! j) \<noteq> ''..''" using assms(2) that by blast
    ultimately show ?thesis using cmp_entries_rank by blast
  qed
  have le: "cmp_entries (xs ! i) (xs ! j) \<le> 0 \<longleftrightarrow> rank_of (xs ! i) \<le> rank_of (xs ! j)"
    if "i < length xs" "j < length xs" "i \<noteq> j" for i j
    using conjunct2 [OF c [OF that]] by (simp add: not_less [symmetric])
  show ?thesis
    unfolding consistent_def
  proof (intro conjI allI impI)
    fix i j assume "i < length xs" "j < length xs" "i \<noteq> j"
    then show "cmp_entries (xs ! i) (xs ! j) < 0 \<longleftrightarrow> cmp_entries (xs ! j) (xs ! i) > 0"
      using c [of i j] c [of j i] by simp
  next
    fix i j k assume "i < length xs" "j < length xs" "k < length xs" "distinct [i, j, k]"
      "cmp_entries (xs ! i) (xs ! j) \<le> 0" "cmp_entries (xs ! j) (xs ! k) \<le> 0"
    then show "cmp_entries (xs ! i) (xs ! k) \<le> 0"
      using le [of i j] le [of j k] le [of i k] by auto
  qed
qed

text \<open>The code's comparison is consistent on every listing, which holds ``..'' once.\<close>

lemma listing_consistent:
  assumes "\<forall>d \<in> set ds. c_string d" "length ds < MAX_FILES"
  shows "consistent cmp_entries (parent_entry F path @ read_entries F path ds (length (parent_entry F path)))"
    (is "consistent _ (?up @ ?rest)")
proof (rule consistent_rank)
  have rest: "\<exists>d \<in> set ds. listed F path d e" if "e \<in> set ?rest" for e
    using that assms(2) length_parent_entry [of F path] by (subst (asm) read_entries_listed) auto
  have str: "c_string (fe_name e)" if "e \<in> set ?rest" for e
    using rest [OF that] assms(1) by (auto simp: listed_def c_string_fit split: option.splits)
  moreover have "c_string ''..''" by (simp add: c_string_def)
  ultimately show "\<forall>e \<in> set (?up @ ?rest). c_string (fe_name e)"
    using parent_entry_cases [of F path] by auto
  have "fe_name ((?up @ ?rest) ! i) \<noteq> ''..''" if "i < length (?up @ ?rest)" "0 < i" for i
  proof -
    have "(?up @ ?rest) ! i \<in> set ?rest"
      using that parent_entry_cases [of F path] by (auto simp: nth_append)
    then show ?thesis using rest listed_name by blast
  qed
  then show "\<forall>i < length (?up @ ?rest). \<forall>j < length (?up @ ?rest). i \<noteq> j \<longrightarrow>
      fe_name ((?up @ ?rest) ! i) \<noteq> ''..'' \<or> fe_name ((?up @ ?rest) ! j) \<noteq> ''..''"
    by (metis neq0_conv)
qed

text \<open>
  Property C26.  What a panel lists after \<^verbatim>\<open>load_dir\<close>, for a directory of fewer than 2048 entries and
  a \<^verbatim>\<open>qsort\<close> that sorts when the comparison it is given is that of an order: besides ``..'', which is there and first except in the root,
  exactly the files of the directory that can be examined; directories come before other files,
  and each kind is in alphabetical order without regard to case.
\<close>

theorem mc_listing:
  assumes "fs_dir F (pn_path p) = Some ds" "length ds < MAX_FILES" "\<forall>d \<in> set ds. c_string d" "qsort_sorts qs"
  shows "let files = pn_files (load_dir F qs p); n = length files in
    (\<forall>e. e \<in> set files \<and> fe_name e \<noteq> ''..'' \<longleftrightarrow> (\<exists>d \<in> set ds. listed F (pn_path p) d e)) \<and>
    (parent_fits (pn_path p) \<longrightarrow> n > 0 \<and> fe_name (files ! 0) = ''..'') \<and>
    (\<forall>i j. i < j \<and> j < n \<and> fe_name (files ! i) \<noteq> ''..'' \<longrightarrow>
       (fe_is_dir (files ! i) \<or> \<not> fe_is_dir (files ! j)) \<and>
       (fe_is_dir (files ! i) = fe_is_dir (files ! j) \<longrightarrow> strcasecmp (fe_name (files ! i)) (fe_name (files ! j)) \<le> 0))"
proof -
  let ?path = "pn_path p"
  let ?up = "parent_entry F ?path"
  let ?xs = "?up @ read_entries F ?path ds (length ?up)"
  define files where "files = pn_files (load_dir F qs p)"
  have files: "files = qs ?xs" using assms(1) by (simp add: files_def load_dir_def Let_def)
  have perm: "mset files = mset ?xs" and sorted: "sorted_wrt (\<lambda>a b. cmp_entries a b \<le> 0) files"
    using assms(4) listing_consistent [OF assms(3,2)] by (simp_all add: qsort_sorts_def files)
  have set: "set files = set ?xs" using perm by (rule mset_eq_setD)
  have read: "e \<in> set (read_entries F ?path ds (length ?up)) \<longleftrightarrow> (\<exists>d \<in> set ds. listed F ?path d e)" for e
    using assms(2) length_parent_entry [of F ?path] by (intro read_entries_listed) simp
  have order: "cmp_entries (files ! i) (files ! j) \<le> 0" if "i < j" "j < length files" for i j
    using sorted that by (simp add: sorted_wrt_iff_nth_less)
  have names: "e \<in> set files \<and> fe_name e \<noteq> ''..'' \<longleftrightarrow> (\<exists>d \<in> set ds. listed F ?path d e)" for e
    using parent_entry_cases [of F ?path] read listed_name by (auto simp: set)
  have dots_first: "fe_name (files ! i) = ''..''" if "i < j" "j < length files" "fe_name (files ! j) = ''..''" for i j
    using order [OF that(1,2)] that(3) by (auto simp: cmp_entries_def split: if_splits)
  have first: "length files > 0 \<and> fe_name (files ! 0) = ''..''" if fits: "parent_fits ?path"
  proof -
    obtain e where e: "?up = [e]" "fe_name e = ''..''"
      using parent_entry_cases [of F ?path] fits by blast
    then have "e \<in> set files" by (simp add: set)
    with e(2) obtain j where "j < length files" "fe_name (files ! j) = ''..''" by (auto simp: in_set_conv_nth)
    with dots_first [of 0 j] show ?thesis by (cases j) auto
  qed
  have rest: "(fe_is_dir (files ! i) \<or> \<not> fe_is_dir (files ! j)) \<and>
      (fe_is_dir (files ! i) = fe_is_dir (files ! j) \<longrightarrow> strcasecmp (fe_name (files ! i)) (fe_name (files ! j)) \<le> 0)"
    if "i < j" "j < length files" "fe_name (files ! i) \<noteq> ''..''" for i j
    using order [OF that(1,2)] dots_first [OF that(1,2)] that(3)
    by (auto simp: cmp_entries_def split: if_splits)
  from names first rest show ?thesis by (simp add: Let_def files_def)
qed

definition demo_panel :: panel where
  "demo_panel = \<lparr>pn_path = ''/a'', pn_files = [], pn_cursor = 0, pn_top = 0\<rparr>"

lemma mc_listing_witness:
  "let files = pn_files (load_dir demo_fs (sort_key rank_of) demo_panel) in
     fe_name (files ! 0) = ''..'' \<and> map fe_name files = [''..'', ''B'', ''x'']"
proof -
  have "parent_fits ''/a''" by (simp add: parent_fits_def MAX_PATH_def)
  moreover have "map fe_name (pn_files (load_dir demo_fs (sort_key rank_of) demo_panel)) = [''..'', ''B'', ''x'']"
    by (simp add: load_dir_def demo_fs_def demo_panel_def parent_entry_def join_path_safe_def MAX_PATH_def
        MAX_FILES_def fit_def MC_MAX_NAME_def rank_of_def)
  moreover have "\<forall>d \<in> set [''.'', ''x'', ''B'']. c_string d" by (simp add: c_string_def)
  ultimately show ?thesis
    using mc_listing [of demo_fs demo_panel "[''.'', ''x'', ''B'']" "sort_key rank_of"] sort_key_sorts
    by (simp add: demo_fs_def demo_panel_def MAX_FILES_def Let_def)
qed

subsection \<open>Going up\<close>

lemma component_start_last:
  "length base + 1 \<le> k \<Longrightarrow> k \<le> length base + 1 + length n \<Longrightarrow> CHR ''/'' \<notin> set n \<Longrightarrow>
   component_start k (base @ ''/'' @ n) = length base + 1"
proof (induction k)
  case (Suc k)
  show ?case
  proof (cases "k = length base")
    case True
    then show ?thesis by simp
  next
    case False
    with Suc.prems have k: "length base + 1 \<le> k" "k - length base - 1 < length n" by auto
    then have "(base @ ''/'' @ n) ! k = n ! (k - length base - 1)"
      by (simp add: nth_append nth_Cons')
    moreover have "n ! (k - length base - 1) \<noteq> CHR ''/''" using k(2) Suc.prems(3) by (metis nth_mem)
    ultimately show ?thesis using Suc.IH k Suc.prems by simp
  qed
qed simp

lemma extract_last:
  assumes "n \<noteq> []" "CHR ''/'' \<notin> set n" "length n < MC_MAX_NAME"
  shows "extract_last_component (base @ ''/'' @ n) MC_MAX_NAME = n"
proof -
  let ?path = "base @ ''/'' @ n"
  have last: "?path ! (length base + length n) \<noteq> CHR ''/''"
    using assms(1,2) by (metis (no_types, lifting) append_is_Nil_conv last_appendR last_conv_nth last_in_set
        length_append list.distinct(1) add_Suc_right diff_Suc_1 length_Cons append_Cons append_Nil last_ConsR)
  have "trim_slashes (length ?path) ?path = length ?path" using last by simp
  moreover have "component_start (length ?path) ?path = length base + 1"
    by (rule component_start_last) (use assms(2) in simp_all)
  moreover have "?path \<noteq> ''/''" using assms(1) by (cases base) auto
  ultimately show ?thesis using assms(3)
    by (simp add: extract_last_component_def Let_def fit_def MC_MAX_NAME_def)
qed

lemma go_parent_to:
  assumes "pn_path p = base @ ''/'' @ n" "n \<noteq> []" "CHR ''/'' \<notin> set n" "length n < MC_MAX_NAME"
    "length (pn_path p) + 4 \<le> MAX_PATH"
  shows "let q = go_parent_keep_selection F qs rows p in pn_path q = pn_path p @ ''/..'' \<and>
    pn_cursor q = (case scan (\<lambda>fe. fe_name fe = n) 0 (length (pn_files q)) (pn_files q) of
                     None \<Rightarrow> 0 | Some i \<Rightarrow> int i)"
proof -
  have child: "extract_last_component (pn_path p) MC_MAX_NAME = n"
    unfolding assms(1) by (rule extract_last [OF assms(2-4)])
  have "join_path_safe (pn_path p) ''..'' MAX_PATH = Some (pn_path p @ ''/..'')"
    using assms(5) by (simp add: join_path_safe_def)
  moreover have "fit MAX_PATH (pn_path p @ ''/..'') = pn_path p @ ''/..''"
    using assms(5) by (simp add: fit_def)
  ultimately have go: "go_parent_keep_selection F qs rows p =
      focus_entry_by_name rows n (load_dir F qs (p\<lparr>pn_path := pn_path p @ ''/..''\<rparr>))"
    by (simp add: go_parent_keep_selection_def child enter_dir_def)
  let ?q = "load_dir F qs (p\<lparr>pn_path := pn_path p @ ''/..''\<rparr>)"
  have "pn_path ?q = pn_path p @ ''/..''" "pn_cursor ?q = 0"
    by (auto simp: load_dir_def Let_def split: option.split)
  with assms(2) show ?thesis unfolding go
    by (auto simp: focus_entry_by_name_def scroll_into_view_def Let_def split: option.split)
qed

text \<open>
  Going up.  From a directory named \<open>n\<close> the panel goes to its parent and selects \<open>n\<close>
  there, the first entry of that name (or the first entry when there is none).  The path is not
  shortened, \<^verbatim>\<open>/..\<close> is appended to it; so the next step up selects the entry ``..'' and not the
  directory that was left.
\<close>

theorem mc_go_parent:
  assumes "pn_path p = base @ ''/'' @ n" "n \<noteq> []" "CHR ''/'' \<notin> set n" "length n < MC_MAX_NAME"
    "length (pn_path p) + 7 \<le> MAX_PATH"
  shows "let p1 = go_parent_keep_selection F qs rows p; p2 = go_parent_keep_selection F qs rows p1;
      place = (\<lambda>q name. case scan (\<lambda>fe. fe_name fe = name) 0 (length (pn_files q)) (pn_files q) of
                 None \<Rightarrow> 0 | Some i \<Rightarrow> int i)
    in pn_path p1 = base @ ''/'' @ n @ ''/..'' \<and> pn_cursor p1 = place p1 n \<and>
       pn_path p2 = base @ ''/'' @ n @ ''/../..'' \<and> pn_cursor p2 = place p2 ''..''"
proof -
  let ?p1 = "go_parent_keep_selection F qs rows p"
  have p1: "pn_path ?p1 = (base @ ''/'' @ n) @ ''/..''"
    "pn_cursor ?p1 = (case scan (\<lambda>fe. fe_name fe = n) 0 (length (pn_files ?p1)) (pn_files ?p1) of
       None \<Rightarrow> 0 | Some i \<Rightarrow> int i)"
    using go_parent_to [OF assms(1-4), of F qs rows] assms(1,5) by (simp_all add: Let_def)
  have "pn_path ?p1 = (base @ ''/'' @ n) @ ''/'' @ ''..''" using p1(1) by simp
  from go_parent_to [OF this, of F qs rows] p1 assms(1,5) show ?thesis
    by (simp add: Let_def MC_MAX_NAME_def)
qed

lemma mc_go_parent_witness:
  "let p = go_parent_keep_selection demo_fs (\<lambda>xs. xs) 20 (demo_panel\<lparr>pn_path := ''/r/c''\<rparr>) in
     pn_path p = ''/r/c/..'' \<and> pn_cursor p = 2 \<and>
     pn_cursor (go_parent_keep_selection demo_fs (\<lambda>xs. xs) 20 p) = 0"
proof -
  let ?p = "go_parent_keep_selection demo_fs (\<lambda>xs. xs) 20 (demo_panel\<lparr>pn_path := ''/r/c''\<rparr>)"
  have "pn_path ?p = ''/r/c/..''"
    using mc_go_parent [of "demo_panel\<lparr>pn_path := ''/r/c''\<rparr>" "''/r''" "''c''" demo_fs "\<lambda>xs. xs" 20]
    by (simp add: MC_MAX_NAME_def MAX_PATH_def Let_def)
  moreover have "pn_cursor ?p = 2" "pn_cursor (go_parent_keep_selection demo_fs (\<lambda>xs. xs) 20 ?p) = 0"
    by (simp_all add: demo_panel_def demo_fs_def go_parent_keep_selection_def extract_last_component_def
        join_path_safe_def fit_def enter_dir_def load_dir_def parent_entry_def focus_entry_by_name_def
        scroll_into_view_def file_rows_of_def scan.simps MAX_PATH_def MAX_FILES_def MC_MAX_NAME_def
        TOP_LINES_def BOTTOM_LINES_def PANEL_NON_LIST_ROWS_def Let_def)
  ultimately show ?thesis by (simp add: Let_def)
qed

end
