(* ===== verification/Mc_Ui.thy ===== *)
theory Mc_Ui
  imports File_Manager
begin

text \<open>
  The screen of the file manager, \<^verbatim>\<open>labs/lab-9/src/my_mc_ui.c\<close>.  As for the chat clients, what the
  code asks of ncurses is a list of calls; what the calls leave in the cells of the screen is
  defined below (\<open>paint\<close>), for texts of printable characters that take one cell each.  The
  environment, the host name and \<^verbatim>\<open>localtime\<close> are the arguments in \<open>mc_env\<close>.
\<close>

datatype colour_pair =
    Cp_panel | Cp_panel_border | Cp_panel_header | Cp_dir | Cp_cursor | Cp_topbar | Cp_cmdline
  | Cp_fkey_num | Cp_fkey_label | Cp_inactive | Cp_inactive_dir | Cp_fkey_idle

datatype colour = Black | White | Blue | Cyan | Red

datatype glyph =
    Letter char | Ulcorner | Urcorner | Llcorner | Lrcorner | Hline | Vline | Ltee | Rtee

datatype mc_call =
    Start_color | Use_default_colors | Init_pair colour_pair colour colour | Mc_erase | Attrset colour_pair bool | Mvaddch int int glyph
  | Mvprint int int string | Mvhline int int glyph int | Printw string | Mc_move int int | Mc_refresh

record tm =
  tm_mon :: nat
  tm_mday :: int
  tm_hour :: int
  tm_min :: int

record mc_env =
  env_home :: "string option"
  env_user :: "string option"
  env_host :: "string option"
  env_localtime :: "int \<Rightarrow> tm"

subsection \<open>Formats\<close>

text \<open>
  A precision cuts, a negative one does not count; a width fills with spaces, on the right with the
  flag \<open>-\<close>, which a negative width implies.
\<close>

definition prec :: "int \<Rightarrow> string \<Rightarrow> string" where
  "prec p s = (if p < 0 then s else take (nat p) s)"

definition ljust :: "int \<Rightarrow> string \<Rightarrow> string" where
  "ljust w s = s @ replicate (nat \<bar>w\<bar> - length s) (CHR '' '')"

definition rjust :: "char \<Rightarrow> nat \<Rightarrow> string \<Rightarrow> string" where
  "rjust c w s = replicate (w - length s) c @ s"

definition fmt_size :: "int \<Rightarrow> nat \<Rightarrow> string" where
  "fmt_size sz buflen = fit buflen (rjust (CHR '' '') 7 (show_int sz))"

definition month_names :: "string list" where
  "month_names = [''Jan'', ''Feb'', ''Mar'', ''Apr'', ''May'', ''Jun'',
     ''Jul'', ''Aug'', ''Sep'', ''Oct'', ''Nov'', ''Dec'']"

definition fmt_time :: "mc_env \<Rightarrow> int \<Rightarrow> nat \<Rightarrow> string" where
  "fmt_time E t buflen =
     (let tm = env_localtime E t
      in fit buflen (month_names ! tm_mon tm @ '' '' @ rjust (CHR '' '') 2 (show_int (tm_mday tm)) @ '' '' @
           rjust (CHR ''0'') 2 (show_int (tm_hour tm)) @ '':'' @ rjust (CHR ''0'') 2 (show_int (tm_min tm))))"

definition init_colors :: "mc_call list" where
  "init_colors =
     [Start_color, Use_default_colors, Init_pair Cp_panel White Blue, Init_pair Cp_panel_border White Blue,
      Init_pair Cp_panel_header Black White, Init_pair Cp_dir White Blue,
      Init_pair Cp_cursor Black Cyan, Init_pair Cp_topbar Black Cyan,
      Init_pair Cp_cmdline White Black, Init_pair Cp_fkey_num White Black,
      Init_pair Cp_fkey_label Black Cyan, Init_pair Cp_inactive White Blue,
      Init_pair Cp_inactive_dir White Blue, Init_pair Cp_fkey_idle White Red]"

subsection \<open>A panel\<close>

text \<open>The measures at the head of \<^verbatim>\<open>draw_panel\<close>; \<open>k\<close> is \<^verbatim>\<open>panel_idx\<close>.\<close>

definition panel_x :: "int \<Rightarrow> nat \<Rightarrow> int" where
  "panel_x cols k = int k * (cols div 2)"

definition panel_w :: "int \<Rightarrow> nat \<Rightarrow> int" where
  "panel_w cols k = (if k = 1 then cols - panel_x cols k else cols div 2)"

definition panel_h :: "int \<Rightarrow> int" where
  "panel_h rows = rows - TOP_LINES - BOTTOM_LINES"

definition inner_w :: "int \<Rightarrow> int" where
  "inner_w cols = cols div 2 - 2"

definition size_w :: int where "size_w = 7"

definition name_w :: "int \<Rightarrow> int" where
  "name_w cols = (let n = inner_w cols - size_w - 12 - 2 in if n < 8 then 8 else n)"

definition date_w :: "int \<Rightarrow> int" where
  "date_w cols =
     (if name_w cols + size_w + 12 + 2 > inner_w cols
      then (let d = inner_w cols - name_w cols - size_w - 2 in if d < 4 then 4 else d)
      else 12)"

definition sep1_x :: "int \<Rightarrow> nat \<Rightarrow> int" where
  "sep1_x cols k = panel_x cols k + 1 + name_w cols"

definition sep2_x :: "int \<Rightarrow> nat \<Rightarrow> int" where
  "sep2_x cols k = sep1_x cols k + 1 + size_w"

definition draw_frame :: "mc_env \<Rightarrow> int \<Rightarrow> int \<Rightarrow> bool \<Rightarrow> nat \<Rightarrow> panel \<Rightarrow> mc_call list" where
  "draw_frame E rows cols act k p =
     (let x = panel_x cols k; w = panel_w cols k; h = panel_h rows; y = TOP_LINES;
          label = fit (MAX_PATH + 4) ('' '' @ format_display_path (env_home E) (pn_path p) MAX_PATH @ '' '');
          max_len = (if cols div 2 - 4 < 1 then 1 else cols div 2 - 4)
      in [Attrset Cp_panel_border False, Mvaddch y x Ulcorner] @
         map (\<lambda>i. Mvaddch y (x + 1 + i) Hline) [0..w - 3] @
         [if act then Attrset Cp_panel_header True else Attrset Cp_panel_border False,
          Mvprint y (x + 2) (prec max_len label),
          Attrset Cp_panel_border False, Mvaddch y (x + w - 1) Urcorner] @
         concat (map (\<lambda>r.
           [Attrset Cp_panel_border False, Mvaddch (y + r) x Vline, Mvaddch (y + r) (x + w - 1) Vline,
            Attrset Cp_panel False] @ map (\<lambda>c. Mvaddch (y + r) (x + c) (Letter (CHR '' ''))) [1..w - 2])
           [1..h - 2]) @
         [Attrset Cp_panel_border False, Mvaddch (y + h - 1) x Llcorner] @
         map (\<lambda>i. Mvaddch (y + h - 1) (x + i) Hline) [1..w - 2] @
         [Mvaddch (y + h - 1) (x + w - 1) Lrcorner])"

definition draw_header :: "int \<Rightarrow> bool \<Rightarrow> nat \<Rightarrow> mc_call list" where
  "draw_header cols act k =
     (let data_x = panel_x cols k + 1; y = TOP_LINES + 1;
          name_x = data_x + (name_w cols - 4) div 2;
          pair = (if act then Cp_panel else Cp_inactive)
      in [Attrset pair True, Mvprint y data_x (ljust (name_w cols) []),
          Mvprint y (if name_x < data_x then data_x else name_x) ''Name'',
          Attrset pair True,
          Mvprint y (sep1_x cols k + 1) (rjust (CHR '' '') (nat size_w) (prec size_w ''Size'')),
          Mvprint y (sep2_x cols k + 1) (ljust (date_w cols) (prec (date_w cols) ''Changed'')),
          Attrset Cp_panel_border False, Mvaddch y (sep1_x cols k) Vline, Mvaddch y (sep2_x cols k) Vline])"

text \<open>The name of an entry as it is shown, and the colour of its row.\<close>

definition disp_name :: "int \<Rightarrow> file_entry \<Rightarrow> string" where
  "disp_name w fe =
     (let s = (if fe_is_dir fe \<and> fe_name fe \<noteq> ''..'' then fit (MC_MAX_NAME + 2) (fe_name fe @ ''/'')
               else fe_name fe)
      in if int (length s) > w then take (nat (w - 1)) s @ ''~'' else s)"

definition row_pen :: "bool \<Rightarrow> bool \<Rightarrow> file_entry \<Rightarrow> colour_pair \<times> bool" where
  "row_pen act is_cur fe =
     (if is_cur \<and> act then Cp_cursor
      else if \<not> act then (if fe_is_dir fe then Cp_inactive_dir else Cp_inactive)
      else (if fe_is_dir fe then Cp_dir else Cp_panel),
      fe_is_dir fe \<and> \<not> (is_cur \<and> act))"

definition draw_row :: "mc_env \<Rightarrow> int \<Rightarrow> bool \<Rightarrow> nat \<Rightarrow> panel \<Rightarrow> int \<Rightarrow> mc_call list" where
  "draw_row E cols act k p i =
     (let file_idx = pn_top p + i; row = TOP_LINES + 2 + i; data_x = panel_x cols k + 1;
          bars = [Attrset Cp_panel_border False, Mvaddch row (sep1_x cols k) Vline,
                  Mvaddch row (sep2_x cols k) Vline]
      in if file_idx \<ge> int (length (pn_files p)) then
           [Attrset Cp_panel False, Mvprint row data_x (ljust (inner_w cols) [])] @ bars
         else
           let fe = pn_files p ! nat file_idx;
               pen = row_pen act (file_idx = pn_cursor p) fe;
               size_str = (if fe_name fe = ''..'' then ''[..]'' else fmt_size (fe_size fe) 16)
           in [Attrset (fst pen) (snd pen),
               Mvprint row data_x (ljust (name_w cols) (prec (name_w cols) (disp_name (name_w cols) fe))),
               Mvprint row (sep1_x cols k + 1) (rjust (CHR '' '') (nat size_w) (prec size_w size_str)),
               Mvprint row (sep2_x cols k + 1)
                 (ljust (date_w cols) (prec (date_w cols) (fmt_time E (fe_mtime fe) 16)))] @ bars)"

definition draw_foot :: "int \<Rightarrow> int \<Rightarrow> bool \<Rightarrow> nat \<Rightarrow> panel \<Rightarrow> mc_call list" where
  "draw_foot rows cols act k p =
     (let x = panel_x cols k; w = panel_w cols k; y = TOP_LINES + panel_h rows;
          stat = (if length (pn_files p) > 0
                  then fit (MC_MAX_NAME + 32) ('' '' @ show_int (pn_cursor p + 1) @ ''/'' @
                         show_nat (length (pn_files p)) @ '' '' @ fe_name (pn_files p ! nat (pn_cursor p)))
                  else '' 0/0'')
      in [Attrset Cp_panel_border False, Mvaddch (y - 3) x Ltee, Mvhline (y - 3) (x + 1) Hline (w - 2),
          Mvaddch (y - 3) (x + w - 1) Rtee,
          Attrset (if act then Cp_panel else Cp_inactive) False,
          Mvprint (y - 2) (x + 1) (ljust (inner_w cols) (prec (inner_w cols) stat))])"

definition draw_panel :: "mc_env \<Rightarrow> int \<Rightarrow> int \<Rightarrow> mc \<Rightarrow> nat \<Rightarrow> mc_call list" where
  "draw_panel E rows cols m k =
     (let p = mc_panels m ! k; act = (k = mc_active m)
      in draw_frame E rows cols act k p @ draw_header cols act k @
         concat (map (draw_row E cols act k p) [0..file_rows_of rows - 1]) @
         draw_foot rows cols act k p)"

subsection \<open>The other parts of the screen\<close>

fun draw_items :: "int \<Rightarrow> string list \<Rightarrow> mc_call list" where
  "draw_items x [] = []"
| "draw_items x (s # ss) =
     Attrset Cp_topbar True # Mvprint 0 x ('' '' @ s @ '' '') # draw_items (x + int (length s) + 2) ss"

definition draw_topbar :: "int \<Rightarrow> mc_call list" where
  "draw_topbar cols =
     [Attrset Cp_topbar True, Mvprint 0 0 (ljust cols [])] @
     draw_items 1 [''Win-L'', ''Catalog'', ''Actions'', ''Setup'', ''Win-R'']"

definition draw_hintline :: "int \<Rightarrow> int \<Rightarrow> mc_call list" where
  "draw_hintline rows cols =
     [Attrset Cp_cmdline False, Mvprint (rows - BOTTOM_LINES) 0 (ljust cols []),
      Mvprint (rows - BOTTOM_LINES) 0 ''F10=exit Tab=panel Enter=folder Back=up'']"

definition build_cmd_prompt :: "mc_env \<Rightarrow> mc \<Rightarrow> nat \<Rightarrow> string" where
  "build_cmd_prompt E m prompt_size =
     fit prompt_size (''['' @ (case env_user E of None \<Rightarrow> ''user'' | Some u \<Rightarrow> u) @ ''@'' @
       (case env_host E of None \<Rightarrow> ''localhost'' | Some h \<Rightarrow> h) @ '' '' @
       pn_path (mc_panels m ! mc_active m) @ '']$ '')"

definition draw_cmdline :: "mc_env \<Rightarrow> int \<Rightarrow> int \<Rightarrow> mc \<Rightarrow> mc_call list" where
  "draw_cmdline E rows cols m =
     (let y = rows - BOTTOM_LINES + 1; prompt = build_cmd_prompt E m (MAX_PATH + 160)
      in [Attrset Cp_cmdline False, Mvprint y 0 (ljust cols []), Attrset Cp_cmdline True,
          Mvprint y 0 prompt, Attrset Cp_cmdline False,
          Printw (prec (cols - int (length prompt) - 1) (cmdline m))])"

definition fkey_labels :: "string list" where
  "fkey_labels = [''About'', ''Pick'', ''Peek'', ''Patch'', ''Clone'',
     ''Reloc'', ''MkDir'', ''Erase'', ''Extra'', ''Exit'']"

definition draw_fkey :: "int \<Rightarrow> int \<Rightarrow> int \<Rightarrow> mc_call list" where
  "draw_fkey y cols i =
     (let x1 = cols * i div 10; x2 = cols * (i + 1) div 10; width = x2 - x1; label_w = width - 3
      in if width \<le> 0 then []
         else [Attrset Cp_fkey_num True, Mvprint y x1 (rjust (CHR '' '') 2 (show_int (i + 1)))] @
              (if label_w > 0
               then [Attrset (if i + 1 = 10 then Cp_fkey_label else Cp_fkey_idle) False,
                     Mvprint y (x1 + 2) (ljust label_w (prec label_w (fkey_labels ! nat i)))]
               else []) @
              (if x2 - 1 \<ge> x1 then [Attrset Cp_fkey_num False, Mvaddch y (x2 - 1) (Letter (CHR '' ''))]
               else []))"

definition draw_fkeys :: "int \<Rightarrow> int \<Rightarrow> mc_call list" where
  "draw_fkeys rows cols =
     [Attrset Cp_fkey_num False, Mvprint (rows - 1) 0 (ljust cols [])] @
     concat (map (draw_fkey (rows - 1) cols) [0..9])"

definition draw_separator :: "int \<Rightarrow> int \<Rightarrow> mc_call list" where
  "draw_separator rows cols =
     Attrset Cp_panel_border False #
     map (\<lambda>r. Mvaddch (TOP_LINES + r) (cols div 2) Vline) [1..panel_h rows - 2]"

definition redraw :: "mc_env \<Rightarrow> int \<Rightarrow> int \<Rightarrow> mc \<Rightarrow> mc_call list" where
  "redraw E rows cols m =
     (let cmd_x = int (length (build_cmd_prompt E m (MAX_PATH + 160))) + int (length (cmdline m))
      in [Mc_erase] @ draw_topbar cols @ draw_panel E rows cols m 0 @ draw_panel E rows cols m 1 @
         draw_separator rows cols @ draw_hintline rows cols @ draw_cmdline E rows cols m @
         draw_fkeys rows cols @
         [Mc_move (rows - BOTTOM_LINES + 1) (if cmd_x < cols then cmd_x else cols - 1), Mc_refresh])"

subsection \<open>What the calls leave on the screen\<close>

text \<open>
  A cell holds a glyph and the attributes it was written with (\<open>None\<close> after \<^verbatim>\<open>erase\<close>).  Output
  starts at a position on the screen (a call that names another one fails and writes nothing), goes
  on in the next row behind the last column, and what passes the last cell is lost.
\<close>

type_synonym cell = "glyph \<times> (colour_pair \<times> bool) option"

record screen =
  sc_cells :: "int \<Rightarrow> int \<Rightarrow> cell"
  sc_pen :: "(colour_pair \<times> bool) option"
  sc_at :: "int \<times> int"

definition write_at ::
    "int \<Rightarrow> int \<Rightarrow> int \<Rightarrow> int \<Rightarrow> glyph list \<Rightarrow> screen \<Rightarrow> screen" where
  "write_at rows cols y x gs sc =
     (if 0 \<le> y \<and> y < rows \<and> 0 \<le> x \<and> x < cols then
        sc\<lparr>sc_cells := (\<lambda>r c. let k = (r - y) * cols + (c - x) in
               if r < rows \<and> 0 \<le> c \<and> c < cols \<and> 0 \<le> k \<and> k < int (length gs) then (gs ! nat k, sc_pen sc)
               else sc_cells sc r c),
           sc_at := (y + (x + int (length gs)) div cols, (x + int (length gs)) mod cols)\<rparr>
      else sc)"

fun paint :: "int \<Rightarrow> int \<Rightarrow> mc_call \<Rightarrow> screen \<Rightarrow> screen" where
  "paint rows cols Start_color sc = sc"
| "paint rows cols Use_default_colors sc = sc"
| "paint rows cols (Init_pair p f b) sc = sc"
| "paint rows cols Mc_erase sc = sc\<lparr>sc_cells := (\<lambda>r c. (Letter (CHR '' ''), None)), sc_at := (0, 0)\<rparr>"
| "paint rows cols (Attrset p b) sc = sc\<lparr>sc_pen := Some (p, b)\<rparr>"
| "paint rows cols (Mvaddch y x g) sc = write_at rows cols y x [g] sc"
| "paint rows cols (Mvprint y x s) sc = write_at rows cols y x (map Letter s) sc"
| "paint rows cols (Printw s) sc = write_at rows cols (fst (sc_at sc)) (snd (sc_at sc)) (map Letter s) sc"
| "paint rows cols (Mvhline y x g n) sc =
     (write_at rows cols y x (replicate (nat (min n (cols - x))) g) sc)\<lparr>sc_at := (y, x)\<rparr>"
| "paint rows cols (Mc_move y x) sc = sc\<lparr>sc_at := (y, x)\<rparr>"
| "paint rows cols Mc_refresh sc = sc"

definition paints :: "int \<Rightarrow> int \<Rightarrow> mc_call list \<Rightarrow> screen \<Rightarrow> screen" where
  "paints rows cols cs sc = fold (paint rows cols) cs sc"

lemma paints_simps [simp]:
  "paints rows cols [] sc = sc"
  "paints rows cols (c # cs) sc = paints rows cols cs (paint rows cols c sc)"
  "paints rows cols (cs @ ds) sc = paints rows cols ds (paints rows cols cs sc)"
  by (simp_all add: paints_def)

lemma write_at_pen [simp]: "sc_pen (write_at rows cols y x gs sc) = sc_pen sc"
  by (simp add: write_at_def)

text \<open>Text that stays in its row.\<close>

lemma write_in_row:
  assumes "0 \<le> y" "y < rows" "0 \<le> x" "x + int (length gs) \<le> cols" "0 \<le> c" "c < cols"
  shows "sc_cells (write_at rows cols y x gs sc) r c =
    (if r = y \<and> x \<le> c \<and> c < x + int (length gs) then (gs ! nat (c - x), sc_pen sc) else sc_cells sc r c)"
proof (cases "r = y")
  case True
  with assms show ?thesis by (auto simp: write_at_def Let_def)
next
  case False
  have "\<not> (0 \<le> (r - y) * cols + (c - x) \<and> (r - y) * cols + (c - x) < int (length gs))"
  proof (cases "r < y")
    case True
    then have "(r - y) * cols \<le> - 1 * cols" using assms(5,6) by (intro mult_right_mono) auto
    with assms show ?thesis by simp
  next
    case False
    then have "cols \<le> (r - y) * cols"
      using \<open>r \<noteq> y\<close> assms(5,6) mult_right_mono [of 1 "r - y" cols] by simp
    with assms show ?thesis by linarith
  qed
  with False show ?thesis by (auto simp: write_at_def Let_def)
qed

text \<open>Text never gets above the row it starts in, nor to the left of its column in that row.\<close>

lemma write_behind:
  assumes "0 \<le> c" "c < cols" "r < y \<or> r = y \<and> c < x"
  shows "sc_cells (write_at rows cols y x gs sc) r c = sc_cells sc r c"
proof -
  have "(r - y) * cols + (c - x) < 0" if x: "0 \<le> x"
  proof (cases "r < y")
    case True
    then have "(r - y) * cols \<le> - 1 * cols" using assms(1,2) by (intro mult_right_mono) auto
    with assms x show ?thesis by simp
  next
    case False
    with assms(3) show ?thesis by simp
  qed
  then show ?thesis by (auto simp: write_at_def Let_def)
qed

text \<open>A call that leaves the columns from \<open>a\<close> to \<open>b\<close> of row \<open>r\<close> alone.\<close>

fun spares :: "int \<Rightarrow> int \<Rightarrow> int \<Rightarrow> int \<Rightarrow> mc_call \<Rightarrow> bool" where
  "spares cols r a b (Mvaddch y x g) \<longleftrightarrow> y \<noteq> r \<or> x < a \<or> b \<le> x"
| "spares cols r a b (Mvprint y x s) \<longleftrightarrow> r < y \<or> r = y \<and> b \<le> x \<or>
     x + int (length s) \<le> cols \<and> (y \<noteq> r \<or> x + int (length s) \<le> a)"
| "spares cols r a b (Mvhline y x g n) \<longleftrightarrow> y \<noteq> r \<or> b \<le> x"
| "spares cols r a b (Printw s) \<longleftrightarrow> False"
| "spares cols r a b Mc_erase \<longleftrightarrow> False"
| "spares cols r a b c \<longleftrightarrow> True"

lemma paint_spares:
  assumes "spares cols r a b call" "0 \<le> a" "a \<le> c" "c < b" "b \<le> cols"
  shows "sc_cells (paint rows cols call sc) r c = sc_cells sc r c"
proof -
  have c: "0 \<le> c" "c < cols" using assms(2-5) by auto
  have off: "\<not> (0 \<le> y \<and> y < rows \<and> 0 \<le> x \<and> x < cols) \<Longrightarrow> write_at rows cols y x gs sc = sc" for y x gs
    by (auto simp: write_at_def)
  show ?thesis
  proof (cases call)
    case (Mvaddch y x g)
    show ?thesis
    proof (cases "0 \<le> y \<and> y < rows \<and> 0 \<le> x \<and> x < cols")
      case True
      with assms c Mvaddch show ?thesis by (auto simp: write_in_row)
    qed (simp add: Mvaddch off)
  next
    case (Mvprint y x s)
    show ?thesis
    proof (cases "0 \<le> y \<and> y < rows \<and> 0 \<le> x \<and> x < cols")
      case on: True
      from assms(1) consider "r < y \<or> r = y \<and> b \<le> x"
        | "x + int (length s) \<le> cols" "y \<noteq> r \<or> x + int (length s) \<le> a" by (auto simp: Mvprint)
      then show ?thesis
      proof cases
        case 1
        with assms(4) have "r < y \<or> r = y \<and> c < x" by auto
        from write_behind [OF c this] show ?thesis by (simp add: Mvprint)
      next
        case 2
        with on c assms(3) show ?thesis by (auto simp: Mvprint write_in_row)
      qed
    qed (simp add: Mvprint off)
  next
    case (Mvhline y x g n)
    show ?thesis
    proof (cases "0 \<le> y \<and> y < rows \<and> 0 \<le> x \<and> x < cols")
      case True
      then have "x + int (length (replicate (nat (min n (cols - x))) g)) \<le> cols" by auto
      from write_in_row [OF _ _ _ this c] True assms(1,4) Mvhline show ?thesis by auto
    qed (simp add: Mvhline off)
  qed (use assms(1) in simp_all)
qed

lemma paints_spares:
  "list_all (spares cols r a b) cs \<Longrightarrow> 0 \<le> a \<Longrightarrow> a \<le> c \<Longrightarrow> c < b \<Longrightarrow> b \<le> cols \<Longrightarrow>
   sc_cells (paints rows cols cs sc) r c = sc_cells sc r c"
  by (induction cs arbitrary: sc) (simp_all add: paint_spares [of cols r a b])

subsection \<open>The measures of the screen\<close>

lemma length_ljust [simp]: "0 \<le> w \<Longrightarrow> int (length (ljust w (prec w s))) = w" "length (ljust w []) = nat \<bar>w\<bar>"
  by (auto simp: ljust_def prec_def)

lemma length_prec: "0 \<le> w \<Longrightarrow> length (prec w s) = min (nat w) (length s)"
  by (auto simp: prec_def)

lemma length_rjust [simp]: "0 \<le> w \<Longrightarrow> length (rjust c (nat w) (prec w s)) = nat w"
  by (auto simp: rjust_def prec_def)

lemma length_size_column [simp]: "length (rjust c 7 (prec 7 s)) = 7"
  by (simp add: rjust_def prec_def)

text \<open>From 46 columns on, the three columns of a list fit into both panels.\<close>

lemma columns_fit:
  assumes "46 \<le> cols"
  shows "8 \<le> name_w cols" "4 \<le> date_w cols" "name_w cols + size_w + date_w cols + 2 \<le> inner_w cols"
    "21 \<le> inner_w cols"
proof -
  have "23 \<le> cols div 2" using assms by linarith
  then show "8 \<le> name_w cols" "4 \<le> date_w cols" "name_w cols + size_w + date_w cols + 2 \<le> inner_w cols"
    "21 \<le> inner_w cols"
    by (auto simp: name_w_def date_w_def inner_w_def size_w_def Let_def)
qed

lemma panel_place:
  assumes "46 \<le> cols" "k < 2"
  shows "0 \<le> panel_x cols k" "inner_w cols + 2 \<le> panel_w cols k" "panel_x cols k + panel_w cols k \<le> cols"
    "k = 1 \<Longrightarrow> panel_x cols k = cols div 2" "k = 0 \<Longrightarrow> panel_x cols k + panel_w cols k = cols div 2"
proof -
  consider "k = 0" | "k = 1" using assms(2) by linarith
  then show "0 \<le> panel_x cols k" "inner_w cols + 2 \<le> panel_w cols k" "panel_x cols k + panel_w cols k \<le> cols"
    "k = 1 \<Longrightarrow> panel_x cols k = cols div 2" "k = 0 \<Longrightarrow> panel_x cols k + panel_w cols k = cols div 2"
    using assms(1) by (cases; simp add: panel_x_def panel_w_def inner_w_def; linarith)+
qed

text \<open>A call that draws in the rows from \<open>y1\<close> and the columns from \<open>x1\<close> to before \<open>y2\<close> and \<open>x2\<close>.\<close>

fun draws_in :: "int \<Rightarrow> int \<Rightarrow> int \<Rightarrow> int \<Rightarrow> mc_call \<Rightarrow> bool" where
  "draws_in y1 y2 x1 x2 (Mvaddch y x g) \<longleftrightarrow> y1 \<le> y \<and> y < y2 \<and> x1 \<le> x \<and> x < x2"
| "draws_in y1 y2 x1 x2 (Mvprint y x s) \<longleftrightarrow> y1 \<le> y \<and> y < y2 \<and> x1 \<le> x \<and> x + int (length s) \<le> x2"
| "draws_in y1 y2 x1 x2 (Mvhline y x g n) \<longleftrightarrow> y1 \<le> y \<and> y < y2 \<and> x1 \<le> x \<and> x + n \<le> x2"
| "draws_in y1 y2 x1 x2 (Attrset p b) \<longleftrightarrow> True"
| "draws_in y1 y2 x1 x2 c \<longleftrightarrow> False"

lemma draw_frame_in:
  assumes "10 \<le> rows" "46 \<le> cols" "k < 2"
  shows "list_all (draws_in 1 (rows - 3) (panel_x cols k) (panel_x cols k + panel_w cols k))
    (draw_frame E rows cols act k p)"
proof -
  have w: "23 \<le> panel_w cols k" "cols div 2 \<le> panel_w cols k" "23 \<le> cols div 2"
    using columns_fit(4) [OF assms(2)] panel_place(2) [OF assms(2,3)] by (auto simp: inner_w_def)
  show ?thesis using w assms(1)
    by (auto simp: draw_frame_def length_prec Let_def list_all_iff panel_h_def TOP_LINES_def BOTTOM_LINES_def)
qed

lemma draw_header_in:
  assumes "10 \<le> rows" "46 \<le> cols" "k < 2"
  shows "list_all (draws_in 1 (rows - 3) (panel_x cols k) (panel_x cols k + panel_w cols k))
    (draw_header cols act k)"
  using assms(1) columns_fit [OF assms(2)] panel_place(2) [OF assms(2,3)]
  by (auto simp: draw_header_def Let_def sep1_x_def sep2_x_def TOP_LINES_def size_w_def)

lemma draw_row_in:
  assumes "46 \<le> cols" "k < 2" "0 \<le> i" "i < rows - 9"
  shows "list_all (draws_in 1 (rows - 3) (panel_x cols k) (panel_x cols k + panel_w cols k))
    (draw_row E cols act k p i)"
  using assms(3,4) columns_fit [OF assms(1)] panel_place(2) [OF assms(1,2)]
  by (auto simp: draw_row_def Let_def sep1_x_def sep2_x_def TOP_LINES_def size_w_def)

lemma draw_foot_in:
  assumes "10 \<le> rows" "46 \<le> cols" "k < 2"
  shows "list_all (draws_in 1 (rows - 3) (panel_x cols k) (panel_x cols k + panel_w cols k))
    (draw_foot rows cols act k p)"
  using assms(1) columns_fit(4) [OF assms(2)] panel_place(2) [OF assms(2,3)]
  by (auto simp: draw_foot_def Let_def panel_h_def TOP_LINES_def BOTTOM_LINES_def)

lemma file_rows_eq: "10 \<le> rows \<Longrightarrow> file_rows_of rows = rows - 9"
  by (simp add: file_rows_of_def Let_def TOP_LINES_def BOTTOM_LINES_def PANEL_NON_LIST_ROWS_def)

lemma draw_panel_in:
  assumes "10 \<le> rows" "46 \<le> cols" "k < 2"
  shows "list_all (draws_in 1 (rows - 3) (panel_x cols k) (panel_x cols k + panel_w cols k))
    (draw_panel E rows cols m k)"
  using draw_frame_in [OF assms] draw_header_in [OF assms] draw_row_in [OF assms(2,3)] draw_foot_in [OF assms]
  by (auto simp: draw_panel_def Let_def file_rows_eq [OF assms(1)] list_all_iff)

subsection \<open>What is seen\<close>

text \<open>The text in the name column of an entry: exactly as wide as the column.\<close>

definition name_field :: "int \<Rightarrow> file_entry \<Rightarrow> string" where
  "name_field cols fe = ljust (name_w cols) (prec (name_w cols) (disp_name (name_w cols) fe))"

lemma draw_row_shows:
  assumes "46 \<le> cols" "k < 2" "0 \<le> i" "i < rows - 9" "pn_top p + i < int (length (pn_files p))"
    "0 \<le> j" "j < name_w cols"
  shows "sc_cells (paints rows cols (draw_row E cols act k p i) sc) (3 + i) (panel_x cols k + 1 + j) =
    (Letter (name_field cols (pn_files p ! nat (pn_top p + i)) ! nat j),
     Some (row_pen act (pn_top p + i = pn_cursor p) (pn_files p ! nat (pn_top p + i))))"
proof -
  note fit = columns_fit [OF assms(1)] panel_place(1-3) [OF assms(1,2)]
  define fe where "fe = pn_files p ! nat (pn_top p + i)"
  let ?pen = "row_pen act (pn_top p + i = pn_cursor p) fe"
  let ?x = "panel_x cols k + 1"
  have len: "int (length (name_field cols fe)) = name_w cols" using fit by (simp add: name_field_def)
  obtain rest where row: "draw_row E cols act k p i =
      [Attrset (fst ?pen) (snd ?pen), Mvprint (3 + i) ?x (name_field cols fe)] @ rest"
    and rest: "list_all (spares cols (3 + i) ?x (?x + name_w cols)) rest"
    using assms(5) that unfolding name_field_def
    by (simp add: draw_row_def fe_def Let_def TOP_LINES_def add.commute sep1_x_def sep2_x_def size_w_def)
  let ?sc = "paints rows cols [Attrset (fst ?pen) (snd ?pen), Mvprint (3 + i) ?x (name_field cols fe)] sc"
  have x: "0 \<le> ?x" "?x + int (length (map Letter (name_field cols fe))) \<le> cols" "0 \<le> ?x + j" "?x + j < cols"
    "?x + name_w cols \<le> cols" using fit assms(6,7) len by (auto simp: size_w_def)
  have "sc_cells ?sc (3 + i) (?x + j) = (Letter (name_field cols fe ! nat j), Some ?pen)"
    using write_in_row [OF _ _ x(1-4), of "3 + i" rows] assms(3,4,6,7) len by simp
  moreover have "sc_cells (paints rows cols rest ?sc) (3 + i) (?x + j) = sc_cells ?sc (3 + i) (?x + j)"
    by (rule paints_spares [OF rest]) (use x assms(6,7) in simp_all)
  ultimately show ?thesis by (simp add: row fe_def)
qed

text \<open>Behind its rows, the rest of a panel and of the screen leaves the column alone.\<close>

lemma spares_draws_in:
  "draws_in y1 y2 x1 x2 c \<Longrightarrow> x2 \<le> cols \<Longrightarrow> r < y1 \<or> b \<le> x1 \<Longrightarrow> spares cols r a b c"
  by (cases c) auto

lemma draw_later_rows:
  "0 \<le> i \<Longrightarrow> i < n \<Longrightarrow>
   list_all (spares cols (3 + i) a b) (concat (map (draw_row E cols act k p) [i + 1..n]))"
  by (auto simp: list_all_iff draw_row_def Let_def TOP_LINES_def)

lemma draw_foot_spares:
  "10 \<le> rows \<Longrightarrow> i < rows - 9 \<Longrightarrow> list_all (spares cols (3 + i) a b) (draw_foot rows cols act k p)"
  by (auto simp: draw_foot_def Let_def panel_h_def TOP_LINES_def BOTTOM_LINES_def)

lemma draw_rest_spares:
  assumes "10 \<le> rows" "i < rows - 9"
  shows "list_all (spares cols (3 + i) a b) (draw_hintline rows cols)"
    "list_all (spares cols (3 + i) a b) (draw_fkeys rows cols)"
  using assms by (auto simp: draw_hintline_def draw_fkeys_def draw_fkey_def list_all_iff Let_def BOTTOM_LINES_def)

lemma draw_separator_spares:
  "a > cols div 2 \<or> b \<le> cols div 2 \<Longrightarrow> list_all (spares cols r a b) (draw_separator rows cols)"
  by (auto simp: draw_separator_def list_all_iff)

lemma draw_cmdline_keeps:
  assumes "0 \<le> c" "c < cols" "10 \<le> rows" "r < rows - 2"
  shows "sc_cells (paints rows cols (draw_cmdline E rows cols m) sc) r c = sc_cells sc r c"
proof -
  let ?y = "rows - 2" and ?s = "build_cmd_prompt E m (MAX_PATH + 160)"
  have above: "r < ?y" using assms(4) .
  define sc1 where "sc1 = write_at rows cols ?y 0 (map Letter ?s)
    ((write_at rows cols ?y 0 (map Letter (ljust cols [])) (sc\<lparr>sc_pen := Some (Cp_cmdline, False)\<rparr>))
       \<lparr>sc_pen := Some (Cp_cmdline, True)\<rparr>)"
  have cells: "sc_cells sc1 r c = sc_cells sc r c"
    using above by (simp add: sc1_def write_behind [OF assms(1,2)])
  have "fst (sc_at sc1) = ?y + int (length ?s) div cols"
    using assms(1-3) by (simp add: sc1_def write_at_def)
  moreover have "0 \<le> int (length ?s) div cols" using assms(1,2) by (simp add: pos_imp_zdiv_nonneg_iff)
  ultimately have "r < fst (sc_at sc1)" using above by simp
  from write_behind [OF assms(1,2), where y = "fst (sc_at sc1)" and x = "snd (sc_at sc1)"] this cells show ?thesis
    by (simp add: draw_cmdline_def Let_def BOTTOM_LINES_def sc1_def [symmetric])
qed

lemma draw_panel_shows:
  assumes "10 \<le> rows" "46 \<le> cols" "k < 2" "0 \<le> i" "i < rows - 9"
    "p = mc_panels m ! k" "pn_top p + i < int (length (pn_files p))" "0 \<le> j" "j < name_w cols"
  shows "sc_cells (paints rows cols (draw_panel E rows cols m k) sc) (3 + i) (panel_x cols k + 1 + j) =
    (Letter (name_field cols (pn_files p ! nat (pn_top p + i)) ! nat j),
     Some (row_pen (k = mc_active m) (pn_top p + i = pn_cursor p) (pn_files p ! nat (pn_top p + i))))"
proof -
  let ?act = "k = mc_active m" and ?x = "panel_x cols k + 1"
  let ?row = "draw_row E cols ?act k p"
  have rows: "[0..file_rows_of rows - 1] = [0..i - 1] @ i # [i + 1..rows - 10]"
    using assms(1,4,5) by (simp add: file_rows_eq upto_split3)
  define rest where "rest = concat (map ?row [i + 1..rows - 10]) @ draw_foot rows cols ?act k p"
  obtain before where draw: "draw_panel E rows cols m k = before @ ?row i @ rest"
    by (simp add: draw_panel_def Let_def rows rest_def assms(6) [symmetric])
  have later: "list_all (spares cols (3 + i) ?x (?x + name_w cols)) rest"
    using draw_later_rows [of i "rows - 10"] draw_foot_spares [OF assms(1,5)] assms(4,5)
    by (cases "i < rows - 10") (simp_all add: rest_def)
  have x: "0 \<le> ?x" "?x \<le> ?x + j" "?x + j < ?x + name_w cols" "?x + name_w cols \<le> cols"
    using panel_place(1-3) [OF assms(2,3)] columns_fit [OF assms(2)] assms(8,9) by (auto simp: size_w_def)
  show ?thesis
    by (simp only: draw paints_simps paints_spares [OF later x] draw_row_shows [OF assms(2-5,7-9)])
qed

lemma redraw_shows:
  assumes "10 \<le> rows" "46 \<le> cols" "k < 2" "0 \<le> i" "i < rows - 9"
    "p = mc_panels m ! k" "pn_top p + i < int (length (pn_files p))" "0 \<le> j" "j < name_w cols"
  shows "sc_cells (paints rows cols (redraw E rows cols m) sc) (3 + i) (panel_x cols k + 1 + j) =
    (Letter (name_field cols (pn_files p ! nat (pn_top p + i)) ! nat j),
     Some (row_pen (k = mc_active m) (pn_top p + i = pn_cursor p) (pn_files p ! nat (pn_top p + i))))"
proof -
  let ?x = "panel_x cols k + 1" and ?b = "panel_x cols k + 1 + name_w cols"
  note places = panel_place [OF assms(2)] columns_fit [OF assms(2)]
  have x: "0 \<le> ?x" "?x \<le> ?x + j" "?x + j < ?b" "?b \<le> cols"
    using places(1-3) [OF assms(3)] places(6-9) assms(8,9) by (auto simp: size_w_def)
  have later: "sc_cells (paints rows cols cs sc) (3 + i) (?x + j) = sc_cells sc (3 + i) (?x + j)"
    if "list_all (spares cols (3 + i) ?x ?b) cs" for cs sc
    by (rule paints_spares [OF that x])
  have sep: "if k = 0 then ?b \<le> cols div 2 else ?x > cols div 2"
    using places(2) [OF assms(3)] places(4,5) [of k] places(6-9) assms(3)
    by (cases "k = 0") (auto simp: size_w_def less_2_cases_iff)
  have right: "list_all (spares cols (3 + i) ?x ?b) (draw_panel E rows cols m 1)" if "k = 0"
  proof -
    have "?b \<le> panel_x cols 1" using sep places(4) [of 1] that by simp
    with draw_panel_in [OF assms(1,2), of 1] places(3) [of 1] show ?thesis
      by (auto simp: list_all_iff intro: spares_draws_in)
  qed
  have panels: "sc_cells (paints rows cols (draw_panel E rows cols m 1) (paints rows cols (draw_panel E rows cols m 0) sc))
      (3 + i) (?x + j) = (Letter (name_field cols (pn_files p ! nat (pn_top p + i)) ! nat j),
     Some (row_pen (k = mc_active m) (pn_top p + i = pn_cursor p) (pn_files p ! nat (pn_top p + i))))" for sc
  proof (cases "k = 0")
    case True
    show ?thesis unfolding later [OF right [OF True]] using draw_panel_shows [OF assms] True by simp
  next
    case False
    then have "k = 1" using assms(3) by simp
    then show ?thesis using draw_panel_shows [OF assms] by simp
  qed
  have cmd: "sc_cells (paints rows cols (draw_cmdline E rows cols m) sc) (3 + i) (?x + j) =
      sc_cells sc (3 + i) (?x + j)" for sc
    by (rule draw_cmdline_keeps) (use x assms(1,5) in auto)
  note rest = later [OF draw_rest_spares(1) [OF assms(1,5)]] later [OF draw_rest_spares(2) [OF assms(1,5)]]
  have bar: "sc_cells (paints rows cols (draw_separator rows cols) sc) (3 + i) (?x + j) =
      sc_cells sc (3 + i) (?x + j)" for sc
    by (rule later [OF draw_separator_spares]) (use sep in \<open>auto split: if_splits\<close>)
  show ?thesis by (simp add: redraw_def Let_def rest cmd panels [simplified] bar)
qed

text \<open>
  What is seen of the lists.  On a screen of at least 10 rows and 46 columns, after
  everything has been drawn, line \<open>i\<close> of the list of a panel shows the entry \<open>i\<close> places below the top
  of its view: its name fills the name column, in the colour of the cursor exactly when it is the
  selected entry of the active panel.  Nothing that is drawn later, in the other panel, by the
  separator, the prompt of any length or the command line, covers it.
\<close>

theorem mc_screen_row:
  assumes "10 \<le> rows" "46 \<le> cols" "k < 2" "0 \<le> i" "i < rows - 9"
    "p = mc_panels m ! k" "pn_top p + i < int (length (pn_files p))" "0 \<le> j" "j < name_w cols"
  shows "let fe = pn_files p ! nat (pn_top p + i) in
    sc_cells (paints rows cols (redraw E rows cols m) sc) (3 + i) (panel_x cols k + 1 + j) =
    (Letter (name_field cols fe ! nat j), Some (row_pen (k = mc_active m) (pn_top p + i = pn_cursor p) fe))"
  unfolding Let_def by (rule redraw_shows [OF assms])

definition demo_env :: mc_env where
  "demo_env = \<lparr>env_home = Some ''/home'', env_user = None, env_host = None,
     env_localtime = (\<lambda>t. \<lparr>tm_mon = 0, tm_mday = 2, tm_hour = 3, tm_min = 4\<rparr>)\<rparr>"

definition demo_entry :: "string \<Rightarrow> bool \<Rightarrow> file_entry" where
  "demo_entry name d = \<lparr>fe_name = name, fe_path = ''/'' @ name, fe_size = 1, fe_mtime = 2, fe_is_dir = d\<rparr>"

definition demo_mc :: mc where
  "demo_mc =
     (let p = \<lparr>pn_path = ''/'', pn_files = [demo_entry ''bin'' True, demo_entry ''notes.txt'' False],
               pn_cursor = 1, pn_top = 0\<rparr>
      in \<lparr>mc_panels = [p, p], mc_active = 1, cmdline = []\<rparr>)"

definition demo_screen :: screen where
  "demo_screen = \<lparr>sc_cells = (\<lambda>r c. (Letter (CHR '' ''), None)), sc_pen = None, sc_at = (0, 0)\<rparr>"

lemma mc_screen_row_witness:
  "sc_cells (paints 12 46 (redraw demo_env 12 46 demo_mc) demo_screen) 4 24 = (Letter (CHR ''n''), Some (Cp_cursor, False))"
proof -
  have "name_field 46 (demo_entry ''notes.txt'' False) = ''notes.t~''" by code_simp
  with mc_screen_row [of 12 46 1 1 _ demo_mc 0 demo_env demo_screen] show ?thesis
    by (simp add: demo_mc_def Let_def name_w_def inner_w_def size_w_def panel_x_def row_pen_def demo_entry_def)
qed

lemma row_pen_cursor: "fst (row_pen act is_cur fe) = Cp_cursor \<longleftrightarrow> act \<and> is_cur"
  by (simp add: row_pen_def)

text \<open>
  Property C27.  The selected entry stays visible on a screen that does not shrink.  Whatever was typed,
  on a screen that has at least 10 rows and 46 columns in the end and never shrinks (after a resize to
  fewer rows the cursor can be hidden): when the active panel lists anything, one of its lines
  shows the selected entry, in the colour of the cursor, and no other line of the two lists has
  that colour.
\<close>

theorem mc_selection_shown:
  assumes "permutes qs" "10 \<le> rows" "46 \<le> cols"
    "m = main_loop K F qs ks (mc_start F qs arg cwd)" "sorted (map fst ks @ [rows])"
    "p = mc_panels m ! mc_active m" "pn_files p \<noteq> []"
  shows "let i = pn_cursor p - pn_top p; fe = pn_files p ! nat (pn_cursor p);
      seen = sc_cells (paints rows cols (redraw E rows cols m) sc)
    in 0 \<le> i \<and> i < rows - 9 \<and>
       (\<forall>j. 0 \<le> j \<and> j < name_w cols \<longrightarrow>
          seen (3 + i) (panel_x cols (mc_active m) + 1 + j) =
            (Letter (name_field cols fe ! nat j), Some (Cp_cursor, False))) \<and>
       (\<forall>k l j. k < 2 \<and> 0 \<le> l \<and> l < rows - 9 \<and>
          pn_top (mc_panels m ! k) + l < int (length (pn_files (mc_panels m ! k))) \<and> 0 \<le> j \<and> j < name_w cols \<longrightarrow>
          (\<exists>b. snd (seen (3 + l) (panel_x cols k + 1 + j)) = Some (Cp_cursor, b)) = (k = mc_active m \<and> l = i))"
proof -
  have ok: "mc_ok rows m" unfolding assms(4) by (rule mc_run_ok [OF assms(1,5)])
  then have act: "mc_active m < 2" and "panel_ok rows p" by (simp_all add: mc_ok_def assms(6))
  with assms(7) have i: "0 \<le> pn_cursor p - pn_top p" "pn_cursor p - pn_top p < rows - 9"
    "pn_cursor p < int (length (pn_files p))"
    by (auto simp: panel_ok_def panel_safe_def file_rows_eq [OF assms(2)])
  have fe: "pn_top p + (pn_cursor p - pn_top p) = pn_cursor p" by simp
  have selected: "sc_cells (paints rows cols (redraw E rows cols m) sc) (3 + (pn_cursor p - pn_top p))
      (panel_x cols (mc_active m) + 1 + j) =
      (Letter (name_field cols (pn_files p ! nat (pn_cursor p)) ! nat j), Some (Cp_cursor, False))"
    if "0 \<le> j" "j < name_w cols" for j
    using redraw_shows [OF assms(2,3) act i(1,2) assms(6) _ that, of E sc] i(3) by (simp add: row_pen_def)
  have others: "(\<exists>b. snd (sc_cells (paints rows cols (redraw E rows cols m) sc) (3 + l) (panel_x cols k + 1 + j)) =
      Some (Cp_cursor, b)) = (k = mc_active m \<and> l = pn_cursor p - pn_top p)"
    if "k < 2" "0 \<le> l" "l < rows - 9" "pn_top (mc_panels m ! k) + l < int (length (pn_files (mc_panels m ! k)))"
      "0 \<le> j" "j < name_w cols" for k l j
    using redraw_shows [OF assms(2,3) that(1-3) refl that(4-6), of E sc]
      row_pen_cursor [of "k = mc_active m" "pn_top (mc_panels m ! k) + l = pn_cursor (mc_panels m ! k)"
        "pn_files (mc_panels m ! k) ! nat (pn_top (mc_panels m ! k) + l)"]
    by (auto simp: assms(6) prod_eq_iff)
  show ?thesis unfolding Let_def using i selected others by blast
qed

lemma mc_selection_shown_witness:
  "sc_cells (paints 10 46 (redraw demo_env 10 46
     (main_loop demo_keys demo_fs (\<lambda>xs. xs) [] (mc_start demo_fs (\<lambda>xs. xs) (Some ''/a'') None))) demo_screen)
     3 1 = (Letter (CHR ''.''), Some (Cp_cursor, False))"
proof -
  let ?m = "main_loop demo_keys demo_fs (\<lambda>xs. xs) [] (mc_start demo_fs (\<lambda>xs. xs) (Some ''/a'') None)"
  have m: "mc_active ?m = 0" "pn_cursor (mc_panels ?m ! 0) = 0" "pn_top (mc_panels ?m ! 0) = 0"
    "map fe_name (pn_files (mc_panels ?m ! 0)) = [''..'', ''x'', ''B'']"
    by (simp_all add: mc_start_def demo_fs_def load_dir_def parent_entry_def join_path_safe_def fit_def
        MAX_PATH_def MAX_FILES_def MC_MAX_NAME_def Let_def)
  then have files: "pn_files (mc_panels ?m ! 0) \<noteq> []" "fe_name (pn_files (mc_panels ?m ! 0) ! 0) = ''..''"
    by (auto simp: map_eq_Cons_conv)
  have shown: "name_field 46 fe ! 0 = CHR ''.''" if "fe_name fe = ''..''" for fe
    using that by (simp add: name_field_def disp_name_def name_w_def inner_w_def size_w_def prec_def ljust_def Let_def)
  have "8 \<le> name_w 46" by (simp add: name_w_def inner_w_def size_w_def)
  with mc_selection_shown [of "\<lambda>xs. xs" 10 46 ?m demo_keys demo_fs "[]" "Some ''/a''" None _ demo_env demo_screen,
      unfolded Let_def, THEN conjunct2, THEN conjunct2, THEN conjunct1, THEN spec, of _ 0] m files
  show ?thesis by (simp add: permutes_def panel_x_def shown)
qed

subsection \<open>Where is drawn\<close>

lemma draw_fkey_in:
  assumes "46 \<le> cols" "i \<in> {0..9}"
  shows "list_all (draws_in y (y + 1) 0 cols) (draw_fkey y cols i)"
proof -
  have labels: "length (rjust (CHR '' '') 2 (show_int (i + 1))) = 2"
  proof -
    have "length (show_nat (nat (i + 1))) \<le> 2" using assms(2) by (intro length_show_nat) auto
    then show ?thesis using assms(2) by (simp add: rjust_def show_int_def)
  qed
  have "4 \<le> cols * (i + 1) div 10 - cols * i div 10"
    and "0 \<le> cols * i div 10" "cols * (i + 1) div 10 \<le> cols"
  proof -
    have "cols * (i + 1) = cols * i + cols" by (simp add: algebra_simps)
    then show "4 \<le> cols * (i + 1) div 10 - cols * i div 10" using assms(1) by linarith
    show "0 \<le> cols * i div 10" using assms by (simp add: pos_imp_zdiv_nonneg_iff)
    have "cols * (i + 1) \<le> cols * 10" using assms by (intro mult_left_mono) auto
    then show "cols * (i + 1) div 10 \<le> cols" by linarith
  qed
  with labels show ?thesis by (auto simp: draw_fkey_def Let_def)
qed

text \<open>
  Where is drawn.  On a screen of at least 10 rows and 46 columns the two panels share
  its columns without overlap, each draws only in its own columns and in the rows between the top
  bar and the last three, and every other part but the prompt stays inside its own row, or in the
  column between the panels.
\<close>

theorem mc_draw_inside:
  assumes "10 \<le> rows" "46 \<le> cols"
  shows "panel_x cols 0 = 0 \<and> panel_x cols 1 = panel_w cols 0 \<and> panel_x cols 1 + panel_w cols 1 = cols \<and>
    (\<forall>k. k < 2 \<longrightarrow> list_all (draws_in 1 (rows - 3) (panel_x cols k) (panel_x cols k + panel_w cols k))
       (draw_panel E rows cols m k)) \<and>
    list_all (draws_in 0 1 0 cols) (draw_topbar cols) \<and>
    list_all (draws_in 1 (rows - 3) (cols div 2) (cols div 2 + 1)) (draw_separator rows cols) \<and>
    list_all (draws_in (rows - 3) (rows - 2) 0 cols) (draw_hintline rows cols) \<and>
    list_all (draws_in (rows - 1) rows 0 cols) (draw_fkeys rows cols)"
proof -
  have "panel_x cols 0 = 0 \<and> panel_x cols 1 = panel_w cols 0 \<and> panel_x cols 1 + panel_w cols 1 = cols"
    by (simp add: panel_x_def panel_w_def)
  moreover have "list_all (draws_in 0 1 0 cols) (draw_topbar cols)"
    using assms(2) by (simp add: draw_topbar_def)
  moreover have "list_all (draws_in 1 (rows - 3) (cols div 2) (cols div 2 + 1)) (draw_separator rows cols)"
    by (auto simp: draw_separator_def list_all_iff panel_h_def TOP_LINES_def BOTTOM_LINES_def)
  moreover have "list_all (draws_in (rows - 3) (rows - 2) 0 cols) (draw_hintline rows cols)"
    using assms by (simp add: draw_hintline_def BOTTOM_LINES_def)
  moreover have "list_all (draws_in (rows - 1) rows 0 cols) (draw_fkeys rows cols)"
    using draw_fkey_in [OF assms(2), of _ "rows - 1"] assms(2)
    by (auto simp: draw_fkeys_def list_all_iff)
  ultimately show ?thesis using draw_panel_in [OF assms] by blast
qed

lemma mc_draw_inside_witness:
  "list_all (draws_in 1 7 23 47) (draw_panel demo_env 10 47 demo_mc 1)"
  using mc_draw_inside [of 10 47 demo_env demo_mc] by (auto simp: panel_x_def panel_w_def dest: spec [of _ 1])

end
