(* ===== verification/Shell.thy ===== *)
theory Shell
  imports C_Text "HOL-Library.Multiset"
begin

text \<open>
  The two small shells, \<^verbatim>\<open>labs/lab-10/src/3.c\<close> and its extension by pipes
  \<^verbatim>\<open>labs/lab-12/src/3.c\<close>.  What a shell does is the list of its calls (\<open>sh_event\<close>); a forked child
  is the list of its own calls up to \<^verbatim>\<open>exit\<close>.  What the calls return in round \<open>n\<close> is the argument
  \<open>R n\<close>; the input has no NUL.
\<close>

definition SH_MAX_LINE :: nat where "SH_MAX_LINE = 1024"
definition MAX_ARGS :: nat where "MAX_ARGS = 64"

text \<open>The status of a child as the macros of \<^verbatim>\<open>wait.h\<close> see it.\<close>

datatype wait_status = Exited nat | Signaled

record sh_results =
  r_pipe :: "(int \<times> int) option"
  r_fork :: int
  r_fork2 :: int
  r_status :: "wait_status option"

datatype child_call = Dup2 int int | Child_close int | Execvp "string list" | Child_perror string | Child_exit int

datatype sh_event =
    Shown string | Perror string | Piped int int | Sh_closed int | Sh_forked int "child_call list"
  | Sh_waited int

subsection \<open>Arguments\<close>

text \<open>One call of \<^verbatim>\<open>strtok\<close>: the token and what is left for the next call.\<close>

definition strtok :: "char list \<Rightarrow> string \<Rightarrow> (string \<times> string) option" where
  "strtok d s =
     (let s' = dropWhile (\<lambda>c. c \<in> set d) s
      in if s' = [] then None
         else Some (takeWhile (\<lambda>c. c \<notin> set d) s', drop 1 (dropWhile (\<lambda>c. c \<notin> set d) s')))"

definition blanks :: "char list" where "blanks = [CHR '' '', CHR 0x09]"

text \<open>The loop of \<^verbatim>\<open>parse_args\<close>; the argument vector ends before its NULL.\<close>

function parse_from :: "nat \<Rightarrow> string \<Rightarrow> string list" where
  "parse_from argc s =
     (case strtok blanks s of
        None \<Rightarrow> []
      | Some (token, rest) \<Rightarrow> if argc < MAX_ARGS - 1 then token # parse_from (argc + 1) rest else [])"
  by pat_completeness auto
termination by (relation "measure (\<lambda>(argc, _). MAX_ARGS - argc)") auto

declare parse_from.simps [simp del]

definition parse_args :: "string \<Rightarrow> string list" where
  "parse_args line = parse_from 0 line"

subsection \<open>Commands\<close>

definition status_line :: "wait_status \<Rightarrow> string" where
  "status_line st =
     (case st of Exited code \<Rightarrow> ''Exit status: '' @ show_nat code @ [CHR 0x0A]
      | Signaled \<Rightarrow> ''Process finished abnormally'' @ [CHR 0x0A])"

text \<open>One command: \<^verbatim>\<open>status\<close> starts as 0 and stays so when \<^verbatim>\<open>waitpid\<close> fails.\<close>

definition run_command :: "sh_results \<Rightarrow> string \<Rightarrow> sh_event list" where
  "run_command r line =
     (let argv = parse_args line
      in if argv = [] then []
         else if r_fork r < 0 then [Perror ''fork'']
         else
           let status = (case r_status r of None \<Rightarrow> Exited 0 | Some st \<Rightarrow> st)
           in [Sh_forked (r_fork r) [Execvp argv, Child_perror ''execvp'', Child_exit 1],
               Sh_waited (r_fork r), Shown (status_line status)])"

definition left_child :: "int \<Rightarrow> int \<Rightarrow> string list \<Rightarrow> child_call list" where
  "left_child fd0 fd1 argv =
     [Dup2 fd1 1, Child_close fd0, Child_close fd1, Execvp argv, Child_perror ''execvp'', Child_exit 1]"

definition right_child :: "int \<Rightarrow> int \<Rightarrow> string list \<Rightarrow> child_call list" where
  "right_child fd0 fd1 argv =
     [Dup2 fd0 0, Child_close fd1, Child_close fd0, Execvp argv, Child_perror ''execvp'', Child_exit 1]"

definition run_pipeline :: "sh_results \<Rightarrow> string \<Rightarrow> string \<Rightarrow> sh_event list" where
  "run_pipeline r left right =
     (let left_argv = parse_args left; right_argv = parse_args right
      in if left_argv = [] \<or> right_argv = [] then []
         else (case r_pipe r of
           None \<Rightarrow> [Perror ''pipe'']
         | Some (fd0, fd1) \<Rightarrow>
             Piped fd0 fd1 #
             (if r_fork r < 0 then [Perror ''fork'', Sh_closed fd0, Sh_closed fd1]
              else
                Sh_forked (r_fork r) (left_child fd0 fd1 left_argv) #
                (if r_fork2 r < 0 then [Perror ''fork'', Sh_closed fd0, Sh_closed fd1, Sh_waited (r_fork r)]
                 else [Sh_forked (r_fork2 r) (right_child fd0 fd1 right_argv), Sh_closed fd0, Sh_closed fd1,
                       Sh_waited (r_fork r), Sh_waited (r_fork2 r)]))))"

text \<open>A line of the second shell: cut at the first \<open>|\<close>.\<close>

definition run_line :: "sh_results \<Rightarrow> string \<Rightarrow> sh_event list" where
  "run_line r line =
     (if CHR ''|'' \<in> set line
      then run_pipeline r (takeWhile (\<lambda>c. c \<noteq> CHR ''|'') line) (tl (dropWhile (\<lambda>c. c \<noteq> CHR ''|'') line))
      else run_command r line)"

subsection \<open>The loops\<close>

lemma fgets_rest: "fgets n s = Some (line, rest) \<Longrightarrow> 1 < n \<Longrightarrow> length rest < length s"
  by (auto simp: fgets_def Let_def split: if_splits)

text \<open>\<^verbatim>\<open>main\<close>, which is the same in both programs but for what is done with a line.\<close>

function sh_loop ::
    "(sh_results \<Rightarrow> string \<Rightarrow> sh_event list) \<Rightarrow> (nat \<Rightarrow> sh_results) \<Rightarrow> nat \<Rightarrow> string \<Rightarrow> sh_event list" where
  "sh_loop exec R n input =
     Shown ''mini-bash> '' #
     (case fgets SH_MAX_LINE input of
        None \<Rightarrow> [Shown [CHR 0x0A]]
      | Some (buffer, rest) \<Rightarrow>
          let line = cut_newline buffer
          in if line = [] then sh_loop exec R (n + 1) rest
             else if line = ''exit'' then []
             else exec (R n) line @ sh_loop exec R (n + 1) rest)"
  by pat_completeness auto
termination
  by (relation "measure (\<lambda>(_, _, _, input). length input)")
    (auto simp: SH_MAX_LINE_def dest: fgets_rest)

declare sh_loop.simps [simp del]

definition mini_bash :: "(nat \<Rightarrow> sh_results) \<Rightarrow> string \<Rightarrow> sh_event list" where
  "mini_bash R input = sh_loop run_command R 0 input"

definition mini_bash_pipes :: "(nat \<Rightarrow> sh_results) \<Rightarrow> string \<Rightarrow> sh_event list" where
  "mini_bash_pipes R input = sh_loop run_line R 0 input"

subsection \<open>The argument vector\<close>









subsection \<open>What a child starts its program with\<close>





subsection \<open>Whole lines\<close>

lemma sh_loop_line:
  assumes "CHR 0x0A \<notin> set line" "length line < 1023" "line \<noteq> []" "line \<noteq> ''exit''"
  shows "sh_loop exec R n (line @ CHR 0x0A # rest) =
    Shown ''mini-bash> '' # exec (R n) line @ sh_loop exec R (n + 1) rest"
  using assms
  by (subst sh_loop.simps) (simp add: fgets_line SH_MAX_LINE_def cut_newline_id Let_def)


definition demo_results :: "nat \<Rightarrow> sh_results" where
  "demo_results n = \<lparr>r_pipe = Some (3, 4), r_fork = 100, r_fork2 = 101, r_status = Some (Exited 0)\<rparr>"


subsection \<open>Children and pipes\<close>

fun forked_pid :: "sh_event \<Rightarrow> int list" where
  "forked_pid (Sh_forked p c) = [p]" | "forked_pid _ = []"

fun waited_pid :: "sh_event \<Rightarrow> int list" where
  "waited_pid (Sh_waited p) = [p]" | "waited_pid _ = []"

fun opened_fds :: "sh_event \<Rightarrow> int list" where
  "opened_fds (Piped r w) = [r, w]" | "opened_fds _ = []"

fun closed_fds :: "sh_event \<Rightarrow> int list" where
  "closed_fds (Sh_closed a) = [a]" | "closed_fds _ = []"

definition cleaned_up :: "sh_event list \<Rightarrow> bool" where
  "cleaned_up ev \<longleftrightarrow>
     mset (concat (map forked_pid ev)) = mset (concat (map waited_pid ev)) \<and>
     mset (concat (map opened_fds ev)) = mset (concat (map closed_fds ev))"

lemma cleaned_up_simps [simp]:
  "cleaned_up []" "cleaned_up (Shown t # ev) = cleaned_up ev"
  "cleaned_up ev \<Longrightarrow> cleaned_up ev' \<Longrightarrow> cleaned_up (ev @ ev')"
  by (simp_all add: cleaned_up_def)

lemma run_cleaned_up: "cleaned_up (run_command r line)" "cleaned_up (run_line r line)"
  by (auto simp: run_line_def run_command_def run_pipeline_def cleaned_up_def Let_def split: option.split)

lemma sh_loop_cleaned_up:
  assumes "\<And>r line. cleaned_up (exec r line)"
  shows "cleaned_up (sh_loop exec R n input)"
proof (induction input arbitrary: n rule: length_induct)
  case (1 input)
  show ?case
  proof (cases "fgets SH_MAX_LINE input")
    case None
    then show ?thesis by (subst sh_loop.simps) simp
  next
    case (Some br)
    obtain buffer rest where br: "br = (buffer, rest)" by fastforce
    with Some have "length rest < length input" by (auto dest: fgets_rest simp: SH_MAX_LINE_def)
    with 1 have "cleaned_up (sh_loop exec R (n + 1) rest)" by blast
    with Some br assms show ?thesis by (subst sh_loop.simps) (simp add: Let_def)
  qed
qed

text \<open>
  Property C29.  Both shells clean up after themselves, for any input and whatever \<^verbatim>\<open>pipe\<close>, \<^verbatim>\<open>fork\<close>
  and \<^verbatim>\<open>waitpid\<close> return: they end, every child they forked is waited for once, and every pipe end
  they opened is closed once, also when the second fork of a pipeline fails.
\<close>

theorem shells_clean_up: "cleaned_up (mini_bash R input) \<and> cleaned_up (mini_bash_pipes R input)"
  unfolding mini_bash_def mini_bash_pipes_def by (intro conjI sh_loop_cleaned_up run_cleaned_up)

subsection \<open>Long lines\<close>

text \<open>
  A line of more than 1023 characters is not one command: its first 1023 characters are
  executed as one command, and what is left of it as the next.
\<close>

theorem shell_splits_long_lines:
  assumes "length a = 1023" "CHR 0x0A \<notin> set (a @ b)" "b \<noteq> []" "length b < 1023" "b \<noteq> ''exit''"
  shows "mini_bash R (a @ b @ CHR 0x0A # rest) =
    Shown ''mini-bash> '' # run_command (R 0) a @ Shown ''mini-bash> '' # run_command (R 1) b @
      sh_loop run_command R 2 rest"
proof -
  have "takeWhile (\<lambda>c. c \<noteq> CHR 0x0A) ((a @ b) @ CHR 0x0A # rest) =
      (a @ b) @ takeWhile (\<lambda>c. c \<noteq> CHR 0x0A) (CHR 0x0A # rest)"
    by (rule takeWhile_append2) (use assms(2) in blast)
  then have "fgets SH_MAX_LINE (a @ b @ CHR 0x0A # rest) = Some (a, b @ CHR 0x0A # rest)"
    using assms(1,3) by (simp add: fgets_def SH_MAX_LINE_def Let_def)
  moreover have "cut_newline a = a" using assms(2) by (auto simp: cut_newline_def)
  moreover have "a \<noteq> []" "a \<noteq> ''exit''" using assms(1) by auto
  ultimately have "mini_bash R (a @ b @ CHR 0x0A # rest) =
      Shown ''mini-bash> '' # run_command (R 0) a @ sh_loop run_command R (0 + 1) (b @ CHR 0x0A # rest)"
    unfolding mini_bash_def by (subst sh_loop.simps) (simp add: Let_def)
  with sh_loop_line [of b run_command R 1 rest] assms(2-5) show ?thesis by (simp add: numeral_2_eq_2)
qed

lemma shell_splits_long_lines_witness:
  "mini_bash demo_results (replicate 1023 (CHR ''a'') @ ''rm x'' @ [CHR 0x0A]) =
    Shown ''mini-bash> '' # run_command (demo_results 0) (replicate 1023 (CHR ''a'')) @
    Shown ''mini-bash> '' # run_command (demo_results 1) ''rm x'' @ sh_loop run_command demo_results 2 []"
proof (rule shell_splits_long_lines)
  show "length (replicate 1023 (CHR ''a'')) = 1023" by (rule length_replicate)
  have "set (replicate 1023 (CHR ''a'')) \<subseteq> {CHR ''a''}" by (simp only: set_replicate_conv_if) auto
  then show "CHR 0x0A \<notin> set (replicate 1023 (CHR ''a'') @ ''rm x'')" by (simp only: set_append) auto
qed simp_all

end
