(* ===== verification/Processes.thy ===== *)
theory Processes
  imports C_Text "HOL-Library.Multiset"
begin

text \<open>
  The programs that fork, \<^verbatim>\<open>labs/lab-10/src/1.c\<close> and \<^verbatim>\<open>2.c\<close>.  A program is the tree of its calls
  (\<open>process\<close>); running processes form the tree of parents and children (\<open>config\<close>), in which any
  process may take the next step.  A process that has ended stays as a node until its parent waits
  for it; children that outlive their parent are no longer followed.  The process ids in the printed
  lines are left out.
\<close>

datatype process =
    Print string process
  | Fork process process process
  | Wait "nat option \<Rightarrow> string list" process
  | Exit nat

datatype config = Node process "config list"

text \<open>
  \<open>Fork c p f\<close> is \<^verbatim>\<open>fork\<close> with what the child does, the parent does, and the parent does when it
  fails; \<open>Wait f p\<close> is \<^verbatim>\<open>wait\<close>, after which the lines \<open>f\<close> makes of the status are printed.  Steps with
  failing forks are those of \<open>pstep True\<close>.
\<close>

inductive pstep :: "bool \<Rightarrow> config \<Rightarrow> string list \<Rightarrow> config \<Rightarrow> bool" for fails where
  print: "pstep fails (Node (Print s p) cs) [s] (Node p cs)"
| fork: "pstep fails (Node (Fork c p f) cs) [] (Node p (Node c [] # cs))"
| fork_fails: "fails \<Longrightarrow> pstep fails (Node (Fork c p f) cs) [''fork''] (Node f cs)"
| reap: "pstep fails (Node (Wait f p) (cs1 @ Node (Exit n) orphans # cs2)) (f (Some n)) (Node p (cs1 @ cs2))"
| no_child: "pstep fails (Node (Wait f p) []) (f None) (Node p [])"
| child: "pstep fails c out c' \<Longrightarrow> pstep fails (Node p (cs1 @ c # cs2)) out (Node p (cs1 @ c' # cs2))"

inductive pruns :: "bool \<Rightarrow> nat \<Rightarrow> config \<Rightarrow> string list \<Rightarrow> config \<Rightarrow> bool" for fails where
  start: "pruns fails 0 c [] c"
| more: "pruns fails n c out c' \<Longrightarrow> pstep fails c' out' c'' \<Longrightarrow> pruns fails (Suc n) c (out @ out') c''"

subsection \<open>The programs\<close>

definition quiet :: "nat option \<Rightarrow> string list" where "quiet st = []"

definition status_lines :: "nat option \<Rightarrow> string list" where
  "status_lines st = [''Child exit status: '' @ show_nat (case st of None \<Rightarrow> 0 | Some n \<Rightarrow> n)]"

definition fork_once :: process where
  "fork_once = Fork (Print ''Child'' (Exit 5)) (Print ''Parent'' (Wait status_lines (Exit 0))) (Exit 1)"

fun wait_for_children :: "nat \<Rightarrow> process \<Rightarrow> process" where
  "wait_for_children 0 p = p"
| "wait_for_children (Suc k) p = Wait quiet (wait_for_children k p)"

definition process1 :: process where
  "process1 = Print ''Process1''
     (Fork (Print ''Process3'' (Exit 0))
       (Fork (Print ''Process4'' (Exit 0)) (wait_for_children 2 (Exit 0)) (Exit 1))
       (Exit 1))"

definition process2 :: process where
  "process2 = Print ''Process2''
     (Fork (Print ''Process5'' (Exit 0)) (wait_for_children 1 (Exit 0)) (Exit 1))"

definition process_tree :: process where
  "process_tree = Print ''Parent''
     (Fork process1 (Fork process2 (wait_for_children 2 (Exit 0)) (Exit 1)) (Exit 1))"

subsection \<open>Programs that wait for all their children\<close>

text \<open>With \<open>k\<close> children so far, and forks that work: there are as many waits as children.\<close>

primrec waits :: "process \<Rightarrow> nat \<Rightarrow> bool" where
  "waits (Print s p) k = waits p k"
| "waits (Fork c p f) k = (waits c 0 \<and> waits p (Suc k))"
| "waits (Wait f p) k = (0 < k \<and> waits p (k - 1))"
| "waits (Exit n) k = (k = 0)"

text \<open>The process itself, and all processes it starts, end with \<open>e\<close>.\<close>

primrec ends_with_code :: "nat \<Rightarrow> process \<Rightarrow> bool" where
  "ends_with_code e (Print s p) = ends_with_code e p"
| "ends_with_code e (Fork c p f) = ends_with_code e p"
| "ends_with_code e (Wait f p) = ends_with_code e p"
| "ends_with_code e (Exit n) = (n = e)"

primrec started_end :: "nat \<Rightarrow> process \<Rightarrow> bool" where
  "started_end e (Print s p) = started_end e p"
| "started_end e (Fork c p f) = (ends_with_code e c \<and> started_end e c \<and> started_end e p)"
| "started_end e (Wait f p) = started_end e p"
| "started_end e (Exit n) = True"

primrec lines_of :: "nat \<Rightarrow> process \<Rightarrow> string multiset" where
  "lines_of e (Print s p) = add_mset s (lines_of e p)"
| "lines_of e (Fork c p f) = lines_of e c + lines_of e p"
| "lines_of e (Wait f p) = mset (f (Some e)) + lines_of e p"
| "lines_of e (Exit n) = {#}"

primrec calls_of :: "process \<Rightarrow> nat" where
  "calls_of (Print s p) = Suc (calls_of p)"
| "calls_of (Fork c p f) = Suc (calls_of c + calls_of p)"
| "calls_of (Wait f p) = Suc (calls_of p)"
| "calls_of (Exit n) = 0"

fun all_lines :: "nat \<Rightarrow> config \<Rightarrow> string multiset" where
  "all_lines e (Node p cs) = lines_of e p + sum_list (map (all_lines e) cs)"

fun all_calls :: "config \<Rightarrow> nat" where
  "all_calls (Node p cs) = calls_of p + sum_list (map all_calls cs)"

fun ends_in :: "nat \<Rightarrow> config \<Rightarrow> bool" where
  "ends_in e (Node p cs) = ends_with_code e p"

text \<open>\<open>e\<close> is the code of all processes but the first.\<close>

fun orderly :: "nat \<Rightarrow> config \<Rightarrow> bool" where
  "orderly e (Node p cs) \<longleftrightarrow> waits p (length cs) \<and> started_end e p \<and>
     (\<forall>c \<in> set cs. orderly e c \<and> ends_in e c)"

lemma pstep_orderly:
  "pstep fails c out c' \<Longrightarrow> fails = False \<Longrightarrow> orderly e c \<Longrightarrow>
   orderly e c' \<and> (ends_in k c \<longrightarrow> ends_in k c') \<and> all_lines e c = mset out + all_lines e c' \<and>
   all_calls c = Suc (all_calls c')"
proof (induction arbitrary: k rule: pstep.induct)
  case (reap f p cs1 n orphans cs2)
  then have "n = e" "orphans = []" by auto
  with reap show ?case by auto
next
  case (child c out c' p cs1 cs2)
  then have "orderly e c'" "ends_in e c'" "all_lines e c = mset out + all_lines e c'"
    "all_calls c = Suc (all_calls c')" by auto
  with child.prems show ?case by auto
qed auto

lemma orderly_progress:
  "orderly e c \<Longrightarrow> (\<exists>out c'. pstep fails c out c') \<or> (\<exists>n. c = Node (Exit n) [])"
proof (induction c)
  case (Node p cs)
  show ?case
  proof (cases p)
    case (Wait f q)
    with Node.prems obtain d ds where cs: "cs = d # ds" by (cases cs) auto
    have "(\<exists>out d'. pstep fails d out d') \<or> (\<exists>n. d = Node (Exit n) [])"
      by (rule Node.IH) (use Node.prems in \<open>simp_all add: cs\<close>)
    then consider out d' where "pstep fails d out d'" | n where "d = Node (Exit n) []" by blast
    then show ?thesis
    proof cases
      case 1
      from child [OF this, of p "[]" ds] show ?thesis by (auto simp: cs)
    next
      case 2
      from reap [of fails f q "[]" n "[]" ds] show ?thesis by (auto simp: cs 2 Wait)
    qed
  qed (use Node.prems in \<open>auto intro: print fork\<close>)
qed

lemma pruns_orderly:
  "pruns fails n c out c' \<Longrightarrow> fails = False \<Longrightarrow> orderly e c \<Longrightarrow> ends_in k c \<Longrightarrow>
   orderly e c' \<and> ends_in k c' \<and> all_lines e c = mset out + all_lines e c' \<and> all_calls c = n + all_calls c'"
proof (induction rule: pruns.induct)
  case (more n c out c' out' c'')
  with pstep_orderly [OF more.hyps(2), of e k] show ?case by (auto simp: add.assoc)
qed auto

lemma show_five: "show_nat 5 = ''5''"
  by code_simp

text \<open>
  Property C30.  The programs that fork, in every order in which their processes may run, as long as
  \<^verbatim>\<open>fork\<close> works: a run has at most as many steps as the program has calls; as long as the first
  process has not ended, some process can go on; and when nothing more can be done, the first process
  has ended with code 0 and no child is left behind, and each process of the tree has printed its
  line exactly once, or, in the first program, the parent has printed the exit code 5 of the child.
\<close>

theorem process_tree_ends:
  assumes "pruns False n (Node prog []) out c"
    and "prog = process_tree \<and> ls = [''Parent'', ''Process1'', ''Process2'', ''Process3'', ''Process4'', ''Process5''] \<or>
         prog = fork_once \<and> ls = [''Parent'', ''Child'', ''Child exit status: 5'']"
  shows "n \<le> calls_of prog \<and>
    ((\<exists>out' c'. pstep False c out' c') \<or> c = Node (Exit 0) [] \<and> mset out = mset ls)"
proof -
  define e where "e = (if prog = process_tree then 0 else 5 :: nat)"
  have "fork_once \<noteq> process_tree" by (simp add: fork_once_def process_tree_def)
  then have start: "orderly e (Node prog [])" "ends_in 0 (Node prog [])" "all_lines e (Node prog []) = mset ls"
    using assms(2)
    by (auto simp: e_def process_tree_def process1_def process2_def fork_once_def numeral_2_eq_2 quiet_def
        status_lines_def show_five)
  from pruns_orderly [OF assms(1) refl start(1,2)] start(3) have
    c: "orderly e c" "ends_in 0 c" "mset ls = mset out + all_lines e c" "n \<le> calls_of prog" by auto
  from orderly_progress [OF c(1), of False] show ?thesis using c by auto
qed

lemma fork_once_run:
  "pruns False 4 (Node fork_once []) [''Parent'', ''Child'', ''Child exit status: 5''] (Node (Exit 0) [])"
proof -
  let ?child = "Node (Print ''Child'' (Exit 5)) []" and ?wait = "Wait status_lines (Exit 0)"
  have "pruns False (Suc (Suc (Suc (Suc 0)))) (Node fork_once [])
      (((([] @ []) @ [''Parent'']) @ [''Child'']) @ status_lines (Some 5)) (Node (Exit 0) ([] @ []))"
  proof (intro pruns.intros)
    show "pstep False (Node fork_once []) [] (Node (Print ''Parent'' ?wait) [?child])"
      unfolding fork_once_def by (rule fork)
    show "pstep False (Node (Print ''Parent'' ?wait) [?child]) [''Parent''] (Node ?wait [?child])" by (rule print)
    show "pstep False (Node ?wait [?child]) [''Child''] (Node ?wait ([] @ Node (Exit 5) [] # []))"
      using child [of False ?child "[''Child'']" "Node (Exit 5) []" ?wait "[]" "[]"] print by simp
    show "pstep False (Node ?wait ([] @ Node (Exit 5) [] # [])) (status_lines (Some 5)) (Node (Exit 0) ([] @ []))"
      by (rule reap)
    show "pruns False 0 (Node fork_once []) [] (Node fork_once [])" by (rule pruns.start)
  qed
  moreover have "Suc (Suc (Suc (Suc 0))) = 4" by simp
  ultimately show ?thesis by (simp only: status_lines_def show_five option.case append.simps)
qed

lemma process_tree_ends_witness:
  "\<exists>n out. pruns False n (Node fork_once []) out (Node (Exit 0) []) \<and> n \<le> calls_of fork_once \<and>
     mset out = mset [''Parent'', ''Child'', ''Child exit status: 5'']"
  using process_tree_ends [OF fork_once_run, of "[''Parent'', ''Child'', ''Child exit status: 5'']"] fork_once_run
  by (intro exI conjI) auto

text \<open>When the second fork of \<open>process_tree\<close> fails, it ends without having waited for its child.\<close>

lemma failing_fork_leaves_child:
  "\<exists>out. pruns True 3 (Node process_tree []) out (Node (Exit 1) [Node process1 []])"
proof -
  let ?rest = "Fork process2 (wait_for_children 2 (Exit 0)) (Exit 1)"
  have "pruns True (Suc (Suc (Suc 0))) (Node process_tree []) ((([] @ [''Parent'']) @ []) @ [''fork''])
      (Node (Exit 1) [Node process1 []])"
  proof (intro pruns.intros)
    show "pstep True (Node process_tree []) [''Parent''] (Node (Fork process1 ?rest (Exit 1)) [])"
      unfolding process_tree_def by (rule print)
    show "pstep True (Node (Fork process1 ?rest (Exit 1)) []) [] (Node ?rest [Node process1 []])" by (rule fork)
    show "pstep True (Node ?rest [Node process1 []]) [''fork''] (Node (Exit 1) [Node process1 []])"
      by (rule fork_fails) simp
    show "pruns True 0 (Node process_tree []) [] (Node process_tree [])" by (rule pruns.start)
  qed
  then show ?thesis by (auto simp: eval_nat_numeral)
qed

end
