(* ===== verification/Kernel_Files.thy ===== *)
theory Kernel_Files
  imports C_Text Interfaces
begin

text \<open>
  The kernel modules of \<^verbatim>\<open>labs/lab-20\<close>: a module that only greets (\<^verbatim>\<open>01_hello.c\<close>), a character
  device (\<^verbatim>\<open>02_chardev.c\<close>), an entry of procfs (\<^verbatim>\<open>03_procfs.c\<close>) and an attribute of sysfs
  (\<^verbatim>\<open>04_sysfs.c\<close>).  What all modules have is the log and the kernel objects they hold
  (\<open>kmod\<close>); the buffers are added to it.

  The kernel's answers are arguments: the results of the registrations, and for
  \<^verbatim>\<open>copy_from_user\<close> how many of \<open>n\<close> bytes it did not copy and what the \<open>n\<close> bytes of the
  destination are afterwards, for \<^verbatim>\<open>copy_to_user\<close> whether it failed.  A function of the kernel
  that a module calls to read for it, \<^verbatim>\<open>simple_read_from_buffer\<close>, is a parameter.  A call that
  the code answers with a negative error number is \<open>Inl\<close> of it.
\<close>

datatype errno = EFAULT | ENOMEM | Other_error int

fun errno_code :: "errno \<Rightarrow> int" where
  "errno_code EFAULT = 14"
| "errno_code ENOMEM = 12"
| "errno_code (Other_error e) = e"

datatype kobject = Chrdev int | Proc_entry | Kobject | Sysfs_file

record kmod =
  klog :: "string list"
  held :: "kobject list"

definition pr_info :: "string \<Rightarrow> 'a kmod_scheme \<Rightarrow> 'a kmod_scheme" where
  "pr_info msg m = m\<lparr>klog := klog m @ [msg]\<rparr>"

definition zero_padded :: "nat \<Rightarrow> string \<Rightarrow> char list" where
  "zero_padded n s = s @ replicate (n - length s) (CHR 0x00)"

type_synonym copied = "nat \<Rightarrow> nat \<times> char list"

text \<open>What \<^verbatim>\<open>copy_from_user\<close> answers when \<open>data\<close> is the memory of the user that can be read: what
  it cannot copy it fills with NULs.  In any case it writes \<open>n\<close> bytes.\<close>

definition copies :: "char list \<Rightarrow> copied" where
  "copies data n = (n - length data, zero_padded n (take n data))"

definition copied_ok :: "copied \<Rightarrow> bool" where
  "copied_ok c \<longleftrightarrow> (\<forall>n. length (snd (c n)) = n)"

subsection \<open>\<^verbatim>\<open>01_hello.c\<close>\<close>

definition hello_init :: "kmod \<Rightarrow> int \<times> kmod" where
  "hello_init m = (0, pr_info ''hello: module loaded (init)'' m)"

definition hello_exit :: "kmod \<Rightarrow> kmod" where
  "hello_exit m = pr_info ''hello: module unloaded (exit)'' m"

subsection \<open>\<^verbatim>\<open>02_chardev.c\<close>\<close>

definition BUFSZ :: nat where "BUFSZ = 256"

record chardev = kmod +
  major :: int
  dev_buffer :: "char list"
  dlen :: nat

definition chardev_image :: chardev where
  "chardev_image = \<lparr>klog = [], held = [], major = 0, dev_buffer = replicate BUFSZ (CHR 0x00), dlen = 0\<rparr>"

definition dev_read :: "bool \<Rightarrow> nat \<Rightarrow> nat \<Rightarrow> chardev \<Rightarrow> (errno + char list) \<times> nat" where
  "dev_read fails len off s =
     (if dlen s \<le> off then (Inr [], off)
      else let n = (if dlen s - off < len then dlen s - off else len)
           in if fails then (Inl EFAULT, off)
              else (Inr (take n (drop off (dev_buffer s))), off + n))"

definition dev_write :: "copied \<Rightarrow> nat \<Rightarrow> nat \<Rightarrow> chardev \<Rightarrow> (errno + nat) \<times> nat \<times> chardev" where
  "dev_write copy len off s =
     (let n = (if BUFSZ < len then BUFSZ else len);
          s1 = s\<lparr>dev_buffer := snd (copy n) @ drop n (dev_buffer s)\<rparr>
      in if fst (copy n) \<noteq> 0 then (Inl EFAULT, off, s1)
         else (Inr n, off, pr_info (''mychardev: wrote '' @ show_nat n @ '' bytes'') (s1\<lparr>dlen := n\<rparr>)))"

definition dev_open :: "chardev \<Rightarrow> int \<times> chardev" where
  "dev_open s = (0, pr_info ''mychardev: open'' s)"

definition dev_release :: "chardev \<Rightarrow> int \<times> chardev" where
  "dev_release s = (0, pr_info ''mychardev: release'' s)"

definition cd_init :: "int \<Rightarrow> chardev \<Rightarrow> int \<times> chardev" where
  "cd_init answer s =
     (let s1 = s\<lparr>major := answer, held := (if answer < 0 then held s else Chrdev answer # held s)\<rparr>
      in if major s1 < 0 then (major s1, pr_info ''mychardev: register failed'' s1)
         else (0, pr_info (''mychardev: loaded, major='' @ show_int (major s1) @ '' (mknod /dev/mychardev c '' @
                show_int (major s1) @ '' 0)'') s1))"

definition cd_exit :: "chardev \<Rightarrow> chardev" where
  "cd_exit s = pr_info ''mychardev: unloaded'' (s\<lparr>held := remove1 (Chrdev (major s)) (held s)\<rparr>)"

subsection \<open>\<^verbatim>\<open>03_procfs.c\<close>\<close>

record procfile = kmod +
  proc_buffer :: "char list"

definition proc_image :: procfile where
  "proc_image = \<lparr>klog = [], held = [], proc_buffer = zero_padded 256 (''hello from procfs'' @ [CHR 0x0A])\<rparr>"

text \<open>\<^verbatim>\<open>simple_read_from_buffer(u, len, off, from, available)\<close>\<close>

type_synonym buffer_reader = "nat \<Rightarrow> nat \<Rightarrow> char list \<Rightarrow> nat \<Rightarrow> (errno + char list) \<times> nat"

definition p_read :: "buffer_reader \<Rightarrow> nat \<Rightarrow> nat \<Rightarrow> procfile \<Rightarrow> (errno + char list) \<times> nat" where
  "p_read srfb len off s = srfb len off (proc_buffer s) (length (until_nul (proc_buffer s)))"

definition p_write :: "copied \<Rightarrow> nat \<Rightarrow> nat \<Rightarrow> procfile \<Rightarrow> (errno + nat) \<times> nat \<times> procfile" where
  "p_write copy len off s =
     (let n = (if 255 < len then 255 else len);
          s1 = s\<lparr>proc_buffer := snd (copy n) @ drop n (proc_buffer s)\<rparr>
      in if fst (copy n) \<noteq> 0 then (Inl EFAULT, off, s1)
         else (Inr n, off, s1\<lparr>proc_buffer := (proc_buffer s1)[n := CHR 0x00]\<rparr>))"

definition pr_init :: "bool \<Rightarrow> procfile \<Rightarrow> int \<times> procfile" where
  "pr_init created s =
     (let s1 = s\<lparr>held := (if created then Proc_entry # held s else held s)\<rparr>
      in if \<not> created then (- errno_code ENOMEM, s1)
         else (0, pr_info ''procfs: /proc/mymodule created'' s1))"

definition pr_exit :: "procfile \<Rightarrow> procfile" where
  "pr_exit s = pr_info ''procfs: /proc/mymodule removed'' (s\<lparr>held := remove1 Proc_entry (held s)\<rparr>)"

subsection \<open>\<^verbatim>\<open>04_sysfs.c\<close>\<close>

record sysfile = kmod +
  sysfs_value :: "char list"

definition sys_image :: sysfile where
  "sys_image = \<lparr>klog = [], held = [], sysfs_value = zero_padded 256 (''hello from sysfs'' @ [CHR 0x0A])\<rparr>"

definition v_show :: "sysfile \<Rightarrow> string \<times> nat" where
  "v_show s = (until_nul (sysfs_value s), length (until_nul (sysfs_value s)))"

text \<open>\<^verbatim>\<open>strncpy(value, buf, 255)\<close> fills up with NULs; \<open>buf\<close> are the \<open>n\<close> bytes and a NUL.\<close>

definition v_store :: "char list \<Rightarrow> nat \<Rightarrow> sysfile \<Rightarrow> nat \<times> sysfile" where
  "v_store buf n s =
     (let v = zero_padded 255 (take 255 (until_nul buf)) @ drop 255 (sysfs_value s)
      in (n, s\<lparr>sysfs_value := v[255 := CHR 0x00]\<rparr>))"

text \<open>\<^verbatim>\<open>kobject_put\<close> of the last reference removes the directory with its files.\<close>

definition kobject_put :: "sysfile \<Rightarrow> sysfile" where
  "kobject_put s = s\<lparr>held := filter (\<lambda>x. x \<noteq> Kobject \<and> x \<noteq> Sysfs_file) (held s)\<rparr>"

definition s_init :: "bool \<Rightarrow> int \<Rightarrow> sysfile \<Rightarrow> int \<times> sysfile" where
  "s_init created filed s =
     (if \<not> created then (- errno_code ENOMEM, s)
      else let s1 = s\<lparr>held := Kobject # held s\<rparr>
           in if filed \<noteq> 0 then (- errno_code ENOMEM, kobject_put s1)
              else (0, pr_info ''sysfs: /sys/kernel/mymodule/myvalue created''
                     (s1\<lparr>held := Sysfs_file # held s1\<rparr>)))"

definition s_exit :: "sysfile \<Rightarrow> sysfile" where
  "s_exit s = pr_info ''sysfs: removed'' (kobject_put s)"

subsection \<open>What the buffers always are\<close>

definition chardev_ok :: "chardev \<Rightarrow> bool" where
  "chardev_ok s \<longleftrightarrow> length (dev_buffer s) = BUFSZ \<and> dlen s \<le> BUFSZ"

text \<open>256 bytes of which the last is always NUL.\<close>

definition text_buffer :: "char list \<Rightarrow> bool" where
  "text_buffer b \<longleftrightarrow> length b = 256 \<and> b ! 255 = CHR 0x00"

lemma until_nul_inside:
  assumes "i < length b" "b ! i = CHR 0x00"
  shows "length (until_nul b) \<le> i"
proof (rule ccontr)
  assume "\<not> length (until_nul b) \<le> i"
  then have i: "i < length (until_nul b)" by simp
  have "until_nul b ! i = b ! i" using i unfolding until_nul_def by (rule takeWhile_nth)
  moreover have "CHR 0x00 \<notin> set (until_nul b)" by (auto simp: until_nul_def dest: set_takeWhileD)
  ultimately show False using i assms(2) nth_mem by metis
qed

lemma text_buffer_inside: "text_buffer b \<Longrightarrow> length (until_nul b) \<le> 255"
  unfolding text_buffer_def by (rule until_nul_inside) auto

lemma until_nul_append [simp]: "until_nul (w @ r) = (if c_string w then w @ until_nul r else until_nul w)"
  by (induction w) (auto simp: until_nul_def c_string_def)

lemma until_nul_Cons_nul [simp]: "until_nul (CHR 0x00 # r) = []" "until_nul [] = []"
  by (simp_all add: until_nul_def)

lemma until_nul_id: "c_string w \<Longrightarrow> until_nul w = w"
  by (auto simp: until_nul_def c_string_def intro: takeWhile_eq_all_conv [THEN iffD2])

lemma until_nul_replicate [simp]: "until_nul (replicate k (CHR 0x00)) = []"
  by (cases k) simp_all

lemma c_string_nuls [simp]: "c_string (replicate k (CHR 0x00)) \<longleftrightarrow> k = 0"
  by (simp add: c_string_def)

lemma length_zero_padded [simp]: "length w \<le> n \<Longrightarrow> length (zero_padded n w) = n"
  by (simp add: zero_padded_def)

lemma copied_ok_copies [simp]: "copied_ok (copies data)"
  by (simp add: copied_ok_def copies_def)

lemma copies_all [simp]: "n \<le> length data \<Longrightarrow> copies data n = (0, take n data)"
  by (simp add: copies_def zero_padded_def)

lemma until_nul_zero_padded: "c_string w \<Longrightarrow> until_nul (zero_padded n w) = w"
  by (cases "n - length w") (simp_all add: zero_padded_def until_nul_id)

lemma chardev_ok_write:
  "chardev_ok s \<Longrightarrow> copied_ok copy \<Longrightarrow> chardev_ok (snd (snd (dev_write copy len off s)))"
  by (auto simp: chardev_ok_def copied_ok_def dev_write_def pr_info_def Let_def)

lemma text_buffer_overwrite:
  "text_buffer b \<Longrightarrow> length got = n \<Longrightarrow> n \<le> 255 \<Longrightarrow> text_buffer (got @ drop n b)"
  by (simp add: text_buffer_def nth_append)

lemma text_buffer_write:
  assumes "text_buffer (proc_buffer s)" "copied_ok copy"
  shows "text_buffer (proc_buffer (snd (snd (p_write copy len off s))))"
proof -
  define n where "n = (if 255 < len then 255 else len)"
  have b: "text_buffer (snd (copy n) @ drop n (proc_buffer s))"
    using assms by (intro text_buffer_overwrite) (auto simp: copied_ok_def n_def)
  moreover have "text_buffer (b[n := CHR 0x00])" if "text_buffer b" for b
    using that by (cases "n = 255") (simp_all add: text_buffer_def)
  ultimately have "text_buffer ((snd (copy n) @ drop n (proc_buffer s))[n := CHR 0x00])" by blast
  with b show ?thesis by (simp add: p_write_def Let_def n_def [symmetric])
qed

lemma text_buffer_store: "text_buffer (sysfs_value s) \<Longrightarrow> text_buffer (sysfs_value (snd (v_store buf n s)))"
  by (simp add: text_buffer_def v_store_def Let_def)

lemma image_ok:
  "chardev_ok chardev_image" "text_buffer (proc_buffer proc_image)" "text_buffer (sysfs_value sys_image)"
  by (simp_all add: chardev_ok_def chardev_image_def text_buffer_def proc_image_def sys_image_def
      zero_padded_def nth_append)

definition dev_writes :: "(copied \<times> nat \<times> nat) list \<Rightarrow> chardev \<Rightarrow> chardev" where
  "dev_writes = fold (\<lambda>(copy, len, off) s. snd (snd (dev_write copy len off s)))"

definition p_writes :: "(copied \<times> nat \<times> nat) list \<Rightarrow> procfile \<Rightarrow> procfile" where
  "p_writes = fold (\<lambda>(copy, len, off) s. snd (snd (p_write copy len off s)))"

definition v_stores :: "(char list \<times> nat) list \<Rightarrow> sysfile \<Rightarrow> sysfile" where
  "v_stores = fold (\<lambda>(buf, n) s. snd (v_store buf n s))"

lemma dev_read_inside:
  "chardev_ok s \<Longrightarrow> dev_read False len off s =
     (let b = take len (drop off (take (dlen s) (dev_buffer s))) in (Inr b, off + length b))"
  by (auto simp: dev_read_def chardev_ok_def Let_def drop_take min_def)

lemma fold_keeps:
  assumes "\<And>x s. P s \<Longrightarrow> x \<in> set xs \<Longrightarrow> P (f x s)"
  shows "P s \<Longrightarrow> P (fold f xs s)"
  using assms by (induction xs arbitrary: s) auto

text \<open>
  Property C32.  The types of the three buffers are kept.  After any writes, of any lengths and at any
  offsets, also failing ones, the buffer of the device still has 256 bytes and \<open>dlen\<close> does not exceed
  them, so a read takes its bytes from inside the first \<open>dlen\<close> of them and advances by as many as it
  delivers; the buffers of procfs and sysfs still have 256 bytes and end in a NUL, so \<^verbatim>\<open>strlen\<close> and
  \<^verbatim>\<open>sprintf\<close> stop inside, after at most 255 characters.
\<close>

theorem kernel_buffers_typed:
  assumes "list_all (\<lambda>(copy, len, off). copied_ok copy) ws"
  shows "chardev_ok (dev_writes ws chardev_image) \<and>
    (\<forall>len off. dev_read False len off (dev_writes ws chardev_image) =
      (let b = take len (drop off (take (dlen (dev_writes ws chardev_image))
                 (dev_buffer (dev_writes ws chardev_image))))
       in (Inr b, off + length b))) \<and>
    text_buffer (proc_buffer (p_writes ws proc_image)) \<and>
    length (until_nul (proc_buffer (p_writes ws proc_image))) \<le> 255 \<and>
    text_buffer (sysfs_value (v_stores bs sys_image)) \<and> snd (v_show (v_stores bs sys_image)) \<le> 255"
proof -
  have ws: "copied_ok copy" if "(copy, len, off) \<in> set ws" for copy len off
    using assms that by (auto simp: list_all_iff)
  have "chardev_ok (dev_writes ws chardev_image)"
    unfolding dev_writes_def
    by (rule fold_keeps [where P = chardev_ok]) (auto intro: chardev_ok_write ws image_ok)
  moreover have "text_buffer (proc_buffer (p_writes ws proc_image))"
    unfolding p_writes_def
    by (rule fold_keeps [where P = "\<lambda>s. text_buffer (proc_buffer s)"]) (auto intro: text_buffer_write ws image_ok)
  moreover have "text_buffer (sysfs_value (v_stores bs sys_image))"
    unfolding v_stores_def
    by (rule fold_keeps [where P = "\<lambda>s. text_buffer (sysfs_value s)"]) (auto intro: text_buffer_store image_ok)
  ultimately show ?thesis by (simp add: dev_read_inside text_buffer_inside v_show_def)
qed

lemma kernel_buffers_typed_witness:
  "text_buffer (proc_buffer (p_writes [(copies ''abc'', 3, 0), (copies ''x'', 5, 3)] proc_image))"
  by (rule kernel_buffers_typed [of "[(copies ''abc'', 3, 0), (copies ''x'', 5, 3)]" "[]",
        THEN conjunct2, THEN conjunct2, THEN conjunct1]) simp

subsection \<open>The files\<close>

text \<open>What one reads and writes at the offset \<open>off\<close> when no memory access fails; the documented
  behaviour of \<^verbatim>\<open>simple_read_from_buffer\<close>.\<close>

definition dev_bytes :: "chardev \<Rightarrow> nat \<Rightarrow> nat \<Rightarrow> char list" where
  "dev_bytes s n off = (case fst (dev_read False n off s) of Inr b \<Rightarrow> b | Inl _ \<Rightarrow> [])"

definition dev_put :: "char list \<Rightarrow> chardev \<Rightarrow> nat \<times> chardev" where
  "dev_put data s =
     (case dev_write (copies data) (length data) 0 s of
        (Inr n, _, s') \<Rightarrow> (n, s') | (Inl _, _, s') \<Rightarrow> (0, s'))"

definition dev_content :: "chardev \<Rightarrow> char list" where
  "dev_content s = take (dlen s) (dev_buffer s)"

definition simple_read :: buffer_reader where
  "simple_read len off b n = (let r = take len (drop off (take n b)) in (Inr r, off + length r))"

definition p_bytes :: "buffer_reader \<Rightarrow> procfile \<Rightarrow> nat \<Rightarrow> nat \<Rightarrow> char list" where
  "p_bytes srfb s n off = (case fst (p_read srfb n off s) of Inr b \<Rightarrow> b | Inl _ \<Rightarrow> [])"

definition p_put :: "char list \<Rightarrow> procfile \<Rightarrow> nat \<times> procfile" where
  "p_put data s =
     (case p_write (copies data) (length data) 0 s of
        (Inr n, _, s') \<Rightarrow> (n, s') | (Inl _, _, s') \<Rightarrow> (0, s'))"

definition p_content :: "procfile \<Rightarrow> char list" where
  "p_content s = until_nul (proc_buffer s)"

lemma dev_put_eq:
  "dev_put data s = (min BUFSZ (length data),
     pr_info (''mychardev: wrote '' @ show_nat (min BUFSZ (length data)) @ '' bytes'')
       (s\<lparr>dev_buffer := take BUFSZ data @ drop (min BUFSZ (length data)) (dev_buffer s),
          dlen := min BUFSZ (length data)\<rparr>))"
  by (simp add: dev_put_def dev_write_def Let_def min_def)

lemma p_put_eq:
  "p_put data s = (min 255 (length data),
     s\<lparr>proc_buffer := (take 255 data @ drop (min 255 (length data)) (proc_buffer s))
        [min 255 (length data) := CHR 0x00]\<rparr>)"
  by (simp add: p_put_def p_write_def Let_def min_def)

interpretation chr_file: byte_file dev_content chardev_ok dev_bytes dev_put "\<lambda>b. b" BUFSZ
proof (unfold_locales, goal_cases)
  case (2 s n off)
  then show ?case by (simp add: dev_bytes_def dev_read_inside dev_content_def Let_def)
next
  case (4 s data)
  then show ?case by (auto simp: dev_put_eq chardev_ok_def pr_info_def)
qed (auto simp: BUFSZ_def dev_put_eq dev_content_def pr_info_def chardev_ok_def min_def)

interpretation proc_file: byte_file p_content "\<lambda>s. text_buffer (proc_buffer s)" "p_bytes simple_read" p_put until_nul 255
proof (unfold_locales, goal_cases)
  case (2 s n off)
  have "take (length (until_nul b)) b = until_nul b" for b
    unfolding until_nul_def by (rule takeWhile_eq_take [symmetric])
  then show ?case by (simp add: p_bytes_def p_read_def simple_read_def p_content_def Let_def)
next
  case (4 s data)
  have "snd (p_put data s) = snd (snd (p_write (copies data) (length data) 0 s))"
    by (simp add: p_put_def p_write_def Let_def)
  with 4 show ?case by (simp add: text_buffer_write)
next
  case (5 s data)
  let ?n = "min 255 (length data)"
  have "?n < length (take 255 data @ drop ?n (proc_buffer s))" "length (take 255 data) = ?n"
    using 5 by (auto simp: text_buffer_def)
  then have "proc_buffer (snd (p_put data s)) = take 255 data @ CHR 0x00 # drop (Suc ?n) (proc_buffer s)"
    by (simp add: p_put_eq list_update_append upd_conv_take_nth_drop del: length_take) 
  then show ?case by (simp add: p_content_def until_nul_id)
qed (simp_all add: p_put_eq)

lemma v_store_show:
  assumes "text_buffer (sysfs_value v)"
  shows "v_show (snd (v_store (data @ [CHR 0x00]) n v)) =
    (take 255 (until_nul data), length (take 255 (until_nul data)))"
proof -
  have "until_nul (data @ [CHR 0x00]) = until_nul data" by (simp add: until_nul_id)
  moreover have "sysfs_value (snd (v_store buf n v)) = zero_padded 255 (take 255 (until_nul buf)) @ [CHR 0x00]" for buf
  proof -
    have "drop 255 (sysfs_value v) = [CHR 0x00]"
      using assms by (auto simp: text_buffer_def intro: nth_equalityI)
    then show ?thesis by (simp add: v_store_def list_update_append)
  qed
  moreover have "c_string (take 255 (until_nul data))"
    using c_string_until_nul [of data] by (auto simp: c_string_def dest: in_set_takeD)
  ultimately show ?thesis
    by (auto simp: v_show_def zero_padded_def)
qed

text \<open>
  Property C33.  What is written is what is read, as far as it fits.  For every text, written until all
  of it has been accepted, the writing ends; reading from the start, with any buffer of at least
  one byte, ends and gives, from the character device, the text itself when it has at most 256
  bytes, and otherwise only its last piece, because every write starts at the beginning of the buffer;
  from procfs the same with pieces of 255 bytes, up to the first NUL; and sysfs accepts the whole
  text at once and shows the first 255 characters of it.
\<close>

theorem kernel_files_round_trip:
  assumes reads: "\<forall>len off b k. srfb len off b k = (Inr (take len (drop off (take k b))), off + length (take len (drop off (take k b))))"
    and "chardev_ok s" "text_buffer (proc_buffer p)" "text_buffer (sysfs_value v)" "data \<noteq> []" "0 < n"
  shows "(\<exists>s'. put_all dev_put data s = Some s' \<and>
      read_all dev_bytes s' n 0 = Some (last_piece BUFSZ data)) \<and>
    (\<exists>p'. put_all p_put data p = Some p' \<and>
      read_all (p_bytes srfb) p' n 0 = Some (until_nul (last_piece 255 data))) \<and>
    fst (v_store (data @ [CHR 0x00]) (length data) v) = length data \<and>
    fst (v_show (snd (v_store (data @ [CHR 0x00]) (length data) v))) = take 255 (until_nul data)"
proof -
  have "srfb = simple_read" using reads by (intro ext) (simp add: simple_read_def Let_def)
  with assms(2-) show ?thesis
    using chr_file.write_read [OF assms(2,5,6)] proc_file.write_read [OF assms(3,5,6)]
    by (simp add: v_store_show [OF assms(4)]) (simp add: v_store_def Let_def)
qed

lemma kernel_files_round_trip_witness:
  "\<exists>s'. put_all dev_put ''Eltex'' chardev_image = Some s' \<and> read_all dev_bytes s' 2 0 = Some ''Eltex''"
proof -
  have "last_piece BUFSZ ''Eltex'' = ''Eltex''" by (simp add: last_piece_short BUFSZ_def)
  then show ?thesis
    using kernel_files_round_trip [of simple_read, OF _ image_ok, of "''Eltex''" 2, THEN conjunct1]
    by (simp add: simple_read_def Let_def)
qed

text \<open>A write that fails has already changed the buffer, and the length stays: what is read
  afterwards is neither the old text nor the new one.\<close>

lemma failed_write_damages:
  assumes "chardev_ok s" "fst (copy (min BUFSZ len)) \<noteq> 0" "copied_ok copy"
  shows "fst (dev_write copy len off s) = Inl EFAULT \<and>
    dev_content (snd (snd (dev_write copy len off s))) =
      take (dlen s) (snd (copy (min BUFSZ len)) @ drop (min BUFSZ len) (dev_buffer s))"
proof -
  have "(if BUFSZ < len then BUFSZ else len) = min BUFSZ len" by auto
  with assms(2) show ?thesis by (simp add: dev_write_def dev_content_def Let_def)
qed

lemma failed_write_damages_example:
  "dev_content (snd (snd (dev_write (copies ''ab'') 4 0 (snd (dev_put ''hello'' chardev_image))))) =
   ''ab'' @ [CHR 0x00, CHR 0x00] @ ''o''"
  by (simp add: dev_put_eq dev_content_def dev_write_def pr_info_def chardev_image_def copies_def
      zero_padded_def BUFSZ_def numeral_eq_Suc)

subsection \<open>Loading and unloading\<close>

text \<open>A module that loads gives back everything when it is unloaded, and one that cannot be loaded
  holds nothing: whatever the kernel answers and whatever was written in between.\<close>

lemma held_writes:
  "held (dev_writes ws s) = held s" "major (dev_writes ws s) = major s"
  "held (p_writes ws p) = held p" "held (v_stores bs v) = held v"
proof -
  show "held (dev_writes ws s) = held s" "major (dev_writes ws s) = major s"
    unfolding dev_writes_def
    by (induction ws arbitrary: s) (auto simp: dev_write_def pr_info_def Let_def)
  show "held (p_writes ws p) = held p"
    unfolding p_writes_def by (induction ws arbitrary: p) (auto simp: p_write_def Let_def)
  show "held (v_stores bs v) = held v"
    unfolding v_stores_def by (induction bs arbitrary: v) (auto simp: v_store_def Let_def)
qed

lemma modules_release:
  "fst (cd_init a chardev_image) = 0 \<Longrightarrow> held (cd_exit (dev_writes ws (snd (cd_init a chardev_image)))) = []"
  "fst (cd_init a chardev_image) \<noteq> 0 \<Longrightarrow> held (snd (cd_init a chardev_image)) = []"
  "fst (pr_init c proc_image) = 0 \<Longrightarrow> held (pr_exit (p_writes ws (snd (pr_init c proc_image)))) = []"
  "fst (pr_init c proc_image) \<noteq> 0 \<Longrightarrow> held (snd (pr_init c proc_image)) = []"
  "fst (s_init c f sys_image) = 0 \<Longrightarrow> held (s_exit (v_stores bs (snd (s_init c f sys_image)))) = []"
  "fst (s_init c f sys_image) \<noteq> 0 \<Longrightarrow> held (snd (s_init c f sys_image)) = []"
  by (auto simp: cd_init_def cd_exit_def pr_init_def pr_exit_def s_init_def s_exit_def kobject_put_def
      pr_info_def held_writes chardev_image_def proc_image_def sys_image_def Let_def split: if_splits)

end
