(* ===== verification/Signals.thy ===== *)
theory Signals
  imports C_Text
begin

text \<open>
  The signal programs of \<^verbatim>\<open>labs/lab-15\<close>: \<^verbatim>\<open>1_receiver.c\<close> catches SIGUSR1, \<^verbatim>\<open>1_sender.c\<close> sends
  it, \<^verbatim>\<open>2.c\<close> blocks SIGINT, \<^verbatim>\<open>3.c\<close> takes SIGUSR1 with \<^verbatim>\<open>sigwait\<close>.  A process is its signal
  mask, its pending signals, what it does with each signal, the place it waits at and its output;
  the three waiting programs differ in the process their \<open>main\<close> makes.  A standard signal that is
  pending already is not queued again, and a signal may arrive between any two steps.  The runs begin
  when the lines of the start are printed; a signal that comes before that is not modelled.
\<close>

datatype signal = SIGINT | SIGUSR1 | SIGTERM

fun signo :: "signal \<Rightarrow> int" where
  "signo SIGINT = 2" | "signo SIGUSR1 = 10" | "signo SIGTERM = 15"

text \<open>\<open>Call info once\<close>: the handler is called with its three arguments (\<^verbatim>\<open>SA_SIGINFO\<close>), and is
  removed when it is called (\<^verbatim>\<open>SA_RESETHAND\<close>).\<close>

datatype disposition = Terminate | Call (with_info: bool) (only_once: bool)

datatype place = Pausing | Sigwaiting | Got signal

datatype status = Running | Killed signal | Exited nat | Undefined

record sproc =
  blocked :: "signal set"
  pending :: "signal set"
  disp :: "signal \<Rightarrow> disposition"
  pc :: place
  status :: status
  lines_out :: "string list"

definition fresh_process :: sproc where
  "fresh_process = \<lparr>blocked = {}, pending = {}, disp = (\<lambda>_. Terminate), pc = Pausing,
     status = Running, lines_out = []\<rparr>"

subsection \<open>The programs\<close>

text \<open>\<^verbatim>\<open>*param\<close> is what stands at the begin of the context the kernel passes as third argument.\<close>

definition sig_handler :: "int \<Rightarrow> int \<Rightarrow> int \<Rightarrow> string" where
  "sig_handler sig_num param info_signo =
     ''Signal SIGUSR1! - '' @ show_int sig_num @ '' '' @ show_int param @ '' '' @ show_int info_signo"

text \<open>
  The two flags are those that stand in the structure \<open>handler\<close> on the stack: the code sets
  \<^verbatim>\<open>sa_mask\<close> and \<^verbatim>\<open>sa_sigaction\<close> only.  \<open>ret\<close> is the answer of \<^verbatim>\<open>sigaction\<close>, \<^verbatim>\<open>sigprocmask\<close>.
  A program that fails is its lines and its exit code.
\<close>

definition receiver_main :: "bool \<Rightarrow> bool \<Rightarrow> int \<Rightarrow> int \<Rightarrow> (string list \<times> nat) + sproc" where
  "receiver_main siginfo resethand ret pid =
     (if ret < 0 then Inl ([''Can't set signal handler!''], 1)
      else Inr (fresh_process\<lparr>disp := (\<lambda>_. Terminate)(SIGUSR1 := Call siginfo resethand),
             lines_out := [''Waiting for signal... PID: '' @ show_int pid]\<rparr>))"

definition blocker_main :: "int \<Rightarrow> int \<Rightarrow> (string list \<times> nat) + sproc" where
  "blocker_main ret pid =
     (if ret = -1 then Inl ([''sigprocmask''], 1)
      else Inr (fresh_process\<lparr>blocked := {SIGINT},
             lines_out := [''SIGINT blocker PID: '' @ show_int pid, ''SIGINT is blocked. Waiting...'']\<rparr>))"

definition sigwait_main :: "int \<Rightarrow> int \<Rightarrow> (string list \<times> nat) + sproc" where
  "sigwait_main ret pid =
     (if ret = -1 then Inl ([''sigprocmask''], 1)
      else Inr (fresh_process\<lparr>blocked := {SIGUSR1}, pc := Sigwaiting,
             lines_out := [''sigwait loop PID: '' @ show_int pid, ''Waiting for SIGUSR1...'']\<rparr>))"

text \<open>The body of the loop of \<^verbatim>\<open>3.c\<close> after \<^verbatim>\<open>sigwait\<close>.\<close>

definition sigwait_got :: "signal \<Rightarrow> sproc \<Rightarrow> sproc" where
  "sigwait_got sg p =
     p\<lparr>pc := Sigwaiting,
       lines_out := (if sg = SIGUSR1 then lines_out p @ [''Received SIGUSR1''] else lines_out p)\<rparr>"

subsection \<open>Steps\<close>

text \<open>Without \<^verbatim>\<open>SA_SIGINFO\<close> the second and third argument of the handler are not defined: it prints
  whatever it reads through them, or the process is lost.\<close>

datatype sig_event = Sent signal | Accepted signal | Fatal signal | Printed | Failed

inductive sig_step :: "sproc \<Rightarrow> sig_event \<Rightarrow> sproc \<Rightarrow> bool" where
  send: "status p = Running \<Longrightarrow> sig_step p (Sent sg) (p\<lparr>pending := insert sg (pending p)\<rparr>)"
| handle: "status p = Running \<Longrightarrow> sg \<in> pending p - blocked p \<Longrightarrow> disp p sg = Call info once \<Longrightarrow>
    (info \<longrightarrow> info_signo = signo sg) \<Longrightarrow>
    sig_step p (Accepted sg)
      (p\<lparr>pending := pending p - {sg}, disp := (if once then (disp p)(sg := Terminate) else disp p),
         lines_out := lines_out p @ [sig_handler (signo sg) param info_signo]\<rparr>)"
| no_arguments: "status p = Running \<Longrightarrow> sg \<in> pending p - blocked p \<Longrightarrow> disp p sg = Call False once \<Longrightarrow>
    sig_step p (Fatal sg) (p\<lparr>status := Undefined\<rparr>)"
| kill: "status p = Running \<Longrightarrow> sg \<in> pending p - blocked p \<Longrightarrow> disp p sg = Terminate \<Longrightarrow>
    sig_step p (Fatal sg) (p\<lparr>status := Killed sg\<rparr>)"
| take: "status p = Running \<Longrightarrow> pc p = Sigwaiting \<Longrightarrow> SIGUSR1 \<in> pending p \<Longrightarrow>
    sig_step p (Accepted SIGUSR1) (p\<lparr>pending := pending p - {SIGUSR1}, pc := Got SIGUSR1\<rparr>)"
| sigwait_fails: "status p = Running \<Longrightarrow> pc p = Sigwaiting \<Longrightarrow>
    sig_step p Failed (p\<lparr>status := Exited 1, lines_out := lines_out p @ [''sigwait'']\<rparr>)"
| print: "status p = Running \<Longrightarrow> pc p = Got sg \<Longrightarrow> sig_step p Printed (sigwait_got sg p)"

inductive sig_runs :: "sproc \<Rightarrow> sig_event list \<Rightarrow> sproc \<Rightarrow> bool" for p0 where
  start: "sig_runs p0 [] p0"
| more: "sig_runs p0 es p \<Longrightarrow> sig_step p e p' \<Longrightarrow> sig_runs p0 (es @ [e]) p'"

text \<open>The process can do nothing but wait for signals.\<close>

definition idle :: "sproc \<Rightarrow> bool" where
  "idle p \<longleftrightarrow> status p = Running \<and>
     (\<forall>e p'. sig_step p e p' \<longrightarrow> (\<exists>sg. e = Sent sg) \<or> e = Failed)"

subsection \<open>Standard signals\<close>

definition arrivals :: "sig_event list \<Rightarrow> nat" where
  "arrivals es = length (filter (\<lambda>e. e = Sent SIGUSR1) es)"

definition accepts :: "sig_event list \<Rightarrow> nat" where
  "accepts es = length (filter (\<lambda>e. e = Accepted SIGUSR1) es)"

text \<open>A SIGUSR1 that arrived after the last one that was accepted.\<close>

definition unaccepted :: "sig_event list \<Rightarrow> bool" where
  "unaccepted es \<longleftrightarrow> Sent SIGUSR1 \<in> set (takeWhile (\<lambda>e. e \<noteq> Accepted SIGUSR1) (rev es))"

lemma event_counts [simp]:
  "arrivals [] = 0" "accepts [] = 0" "\<not> unaccepted []"
  "arrivals (es @ [e]) = arrivals es + (if e = Sent SIGUSR1 then 1 else 0)"
  "accepts (es @ [e]) = accepts es + (if e = Accepted SIGUSR1 then 1 else 0)"
  "unaccepted (es @ [e]) \<longleftrightarrow> e \<noteq> Accepted SIGUSR1 \<and> (e = Sent SIGUSR1 \<or> unaccepted es)"
  by (auto simp: arrivals_def accepts_def unaccepted_def)

text \<open>Whatever the process does with it: SIGUSR1 is accepted at most once per arrival, and one that
  came after the last acceptance is pending.\<close>

lemma standard_signal:
  "sig_runs p0 es p \<Longrightarrow> pending p0 = {} \<Longrightarrow>
   accepts es + (if SIGUSR1 \<in> pending p then 1 else 0) \<le> arrivals es \<and>
   (unaccepted es \<longrightarrow> SIGUSR1 \<in> pending p)"
proof (induction rule: sig_runs.induct)
  case (more es p e p')
  from more.hyps(2) more.IH [OF more.prems] show ?case
    by (cases rule: sig_step.cases) (auto simp: sigwait_got_def split: if_splits)
qed simp

lemma accepted_if_arrived: "0 < arrivals es \<Longrightarrow> \<not> unaccepted es \<Longrightarrow> 0 < accepts es"
proof (induction es rule: rev_induct)
  case (snoc e es)
  then show ?case by (auto split: if_splits)
qed simp

subsection \<open>The receiver and the loop over \<^verbatim>\<open>sigwait\<close>\<close>

text \<open>A line printed for a SIGUSR1: of the three numbers the second is never certain, the third only
  with \<^verbatim>\<open>SA_SIGINFO\<close>.\<close>

definition answer_line :: "bool \<Rightarrow> string \<Rightarrow> bool" where
  "answer_line siginfo l \<longleftrightarrow> l = ''Received SIGUSR1'' \<or>
     (\<exists>param info_signo. (siginfo \<longrightarrow> info_signo = 10) \<and> l = sig_handler 10 param info_signo)"

text \<open>The states of the two programs while they run.  \<open>n\<close> signals were accepted so far.\<close>

definition receiving :: "bool \<Rightarrow> bool \<Rightarrow> nat \<Rightarrow> sproc \<Rightarrow> bool" where
  "receiving siginfo once n p \<longleftrightarrow> blocked p = {} \<and> pc p = Pausing \<and>
     disp p SIGUSR1 = (if once \<and> n \<noteq> 0 then Terminate else Call siginfo once) \<and> (once \<longrightarrow> n \<le> 1) \<and>
     (\<forall>sg. sg \<noteq> SIGUSR1 \<longrightarrow> disp p sg = Terminate)"

definition taking :: "sproc \<Rightarrow> bool" where
  "taking p \<longleftrightarrow> blocked p = {SIGUSR1} \<and> (pc p = Sigwaiting \<or> pc p = Got SIGUSR1) \<and>
     (\<forall>sg. sg \<noteq> SIGUSR1 \<longrightarrow> disp p sg = Terminate)"

text \<open>Why a process that was to answer SIGUSR1 may have ended.\<close>

definition excused :: "bool \<Rightarrow> bool \<Rightarrow> sig_event list \<Rightarrow> status \<Rightarrow> bool" where
  "excused siginfo once es st \<longleftrightarrow>
     (\<exists>sg. sg \<noteq> SIGUSR1 \<and> Sent sg \<in> set es \<and> st = Killed sg) \<or>
     Failed \<in> set es \<and> st = Exited 1 \<or>
     \<not> siginfo \<and> st = Undefined \<or>
     once \<and> st = Killed SIGUSR1 \<and> 2 \<le> arrivals es"

definition answered :: "bool \<Rightarrow> bool \<Rightarrow> sproc \<Rightarrow> sig_event list \<Rightarrow> sproc \<Rightarrow> bool" where
  "answered siginfo once p0 es p \<longleftrightarrow>
     (status p = Running \<and> (receiving siginfo once (accepts es) p \<or> taking p) \<or>
      excused siginfo once es (status p)) \<and>
     (\<forall>sg \<in> pending p. Sent sg \<in> set es) \<and>
     (\<exists>ls. lines_out p = lines_out p0 @ ls @ (if status p = Exited 1 then [''sigwait''] else []) \<and>
        list_all (answer_line siginfo) ls \<and>
        length ls + (if pc p = Got SIGUSR1 then 1 else 0) = accepts es)"

lemma answered_append:
  "lines_out p = lines_out p0 @ ls \<Longrightarrow> list_all f ls \<Longrightarrow> f l \<Longrightarrow>
   \<exists>ls'. lines_out p @ [l] = lines_out p0 @ ls' \<and> list_all f ls' \<and> length ls' = Suc (length ls)"
  by (intro exI [of _ "ls @ [l]"]) simp

lemma called_handler:
  assumes "receiving siginfo once n p \<or> taking p" "sg \<in> pending p - blocked p" "disp p sg = Call info one"
  shows "sg = SIGUSR1 \<and> receiving siginfo once n p \<and> info = siginfo \<and> one = once \<and> (once \<longrightarrow> n = 0)"
proof -
  have "\<forall>x. x \<noteq> SIGUSR1 \<longrightarrow> disp p x = Terminate" using assms(1) by (auto simp: receiving_def taking_def)
  then have sg: "sg = SIGUSR1" using assms(3) by force
  then have "\<not> taking p" using assms(2) by (auto simp: taking_def)
  then have rec: "receiving siginfo once n p" using assms(1) by simp
  then have "disp p sg = (if once \<and> n \<noteq> 0 then Terminate else Call siginfo once)"
    by (simp add: receiving_def sg)
  with assms(3) have call: "Call info one = (if once \<and> n \<noteq> 0 then Terminate else Call siginfo once)"
    by (simp only:)
  then have "\<not> (once \<and> n \<noteq> 0)" by (cases "once \<and> n \<noteq> 0") simp_all
  moreover from this call have "Call info one = Call siginfo once" by (simp only: if_False)
  ultimately show ?thesis using sg rec by simp
qed

lemma answered_step:
  assumes "answered siginfo once p0 es p" "sig_step p e p'"
    and std: "accepts es + (if SIGUSR1 \<in> pending p then 1 else 0) \<le> arrivals es"
  shows "answered siginfo once p0 (es @ [e]) p'"
proof -
  have run: "status p = Running" using assms(2) by cases
  then have "\<not> excused siginfo once es (status p)" by (auto simp: excused_def)
  with run assms(1) obtain ls where ls: "lines_out p = lines_out p0 @ ls" "list_all (answer_line siginfo) ls"
      "length ls + (if pc p = Got SIGUSR1 then 1 else 0) = accepts es"
    and st: "receiving siginfo once (accepts es) p \<or> taking p" and pend: "\<forall>sg \<in> pending p. Sent sg \<in> set es"
    by (auto simp: answered_def)
  show ?thesis
    using assms(2)
  proof cases
    case (send sg)
    with ls st pend show ?thesis by (auto simp: answered_def receiving_def taking_def)
  next
    case (handle sg info one info_signo param)
    note called = called_handler [OF st handle(4,5)]
    then have sg: "sg = SIGUSR1" and rec: "receiving siginfo once (accepts es) p"
      and fl: "info = siginfo" "one = once" "once \<longrightarrow> accepts es = 0"
      by blast+
    have "answer_line siginfo (sig_handler 10 param info_signo)"
      using handle(6) sg fl(1) by (simp add: answer_line_def) blast
    from answered_append [OF ls(1,2) this] obtain ls' where
      ls': "lines_out p @ [sig_handler 10 param info_signo] = lines_out p0 @ ls'"
        "list_all (answer_line siginfo) ls'" "length ls' = Suc (length ls)" by blast
    have "receiving siginfo once (Suc (accepts es)) p'"
      using rec fl by (simp add: handle(2) sg receiving_def)
    moreover have "pc p = Pausing" using rec by (simp add: receiving_def)
    ultimately show ?thesis
      using ls ls' pend run by (auto simp: answered_def handle(1,2) sg)
  next
    case (print sg)
    with st have "taking p" "sg = SIGUSR1" by (auto simp: receiving_def taking_def)
    moreover have "answer_line siginfo ''Received SIGUSR1''" by (simp add: answer_line_def)
    ultimately show ?thesis
      using print ls pend answered_append [OF ls(1,2)] by (auto simp: answered_def taking_def sigwait_got_def)
  next
    case take
    with st ls pend show ?thesis by (auto simp: answered_def receiving_def taking_def)
  next
    case (no_arguments sg one)
    from called_handler [OF st no_arguments(4,5)] have "\<not> siginfo" "pc p = Pausing"
      by (auto simp: receiving_def)
    with no_arguments ls pend show ?thesis by (auto simp: answered_def excused_def)
  next
    case (kill sg)
    show ?thesis
    proof (cases "sg = SIGUSR1")
      case True
      with kill st std have "receiving siginfo once (accepts es) p" "once" "2 \<le> arrivals es"
        by (auto simp: receiving_def taking_def split: if_splits)
      with kill True ls pend show ?thesis by (auto simp: answered_def receiving_def excused_def)
    next
      case False
      with kill pend have "Sent sg \<in> set es" by auto
      with kill False st ls pend show ?thesis
        by (auto simp: answered_def receiving_def taking_def excused_def)
    qed
  next
    case sigwait_fails
    with st ls pend show ?thesis by (auto simp: answered_def receiving_def taking_def excused_def)
  qed
qed

lemma answered_runs:
  "sig_runs p0 es p \<Longrightarrow> pending p0 = {} \<Longrightarrow> answered siginfo once p0 [] p0 \<Longrightarrow> answered siginfo once p0 es p"
proof (induction rule: sig_runs.induct)
  case (more es p e p')
  then show ?case using answered_step [of siginfo once p0 es p e p'] standard_signal [OF more.hyps(1)] by blast
qed

lemma idle_accepted:
  assumes "receiving siginfo once n p \<or> taking p" "idle p"
  shows "SIGUSR1 \<notin> pending p \<and> pc p \<noteq> Got SIGUSR1"
proof -
  have run: "status p = Running" and
    no: "\<not> sig_step p (Accepted sg) p'" "\<not> sig_step p Printed p'" "\<not> sig_step p (Fatal sg) p'" for sg p'
    using assms(2) by (auto simp: idle_def)
  have "pc p \<noteq> Got SIGUSR1" using print [OF run] no(2) by blast
  moreover have "SIGUSR1 \<notin> pending p"
  proof
    assume pend: "SIGUSR1 \<in> pending p"
    show False
    proof (cases "receiving siginfo once n p")
      case True
      then have open1: "SIGUSR1 \<in> pending p - blocked p" using pend by (simp add: receiving_def)
      show False
      proof (cases "disp p SIGUSR1")
        case Terminate
        with kill [OF run open1] no(3) show False by blast
      next
        case (Call info one)
        with handle [OF run open1 Call, of "signo SIGUSR1"] no(1) show False by blast
      qed
    next
      case False
      with assms(1) \<open>pc p \<noteq> Got SIGUSR1\<close> have "pc p = Sigwaiting" by (auto simp: taking_def)
      with pend show False using take [OF run] no(1) by blast
    qed
  qed
  ultimately show ?thesis by simp
qed

text \<open>
  Property C34.  How the programs that catch SIGUSR1 and that take it with \<^verbatim>\<open>sigwait\<close> answer it, once
  their start has succeeded and its lines are printed, and whatever stands in the flags \<^verbatim>\<open>1_receiver.c\<close> does not set, in every
  order of any signals and steps.  Each line they print after the start answers one accepted
  SIGUSR1 (with the number 10; with \<^verbatim>\<open>SA_SIGINFO\<close> also as last number), so there is at most one per
  arrival.  They run for ever, except that another signal that was sent kills them, that a \<^verbatim>\<open>sigwait\<close>
  fails (exit 1, reported), and that the receiver without \<^verbatim>\<open>SA_SIGINFO\<close> is lost in its handler, or
  with \<^verbatim>\<open>SA_RESETHAND\<close> is killed by a second SIGUSR1.  Whenever they are idle, every SIGUSR1
  accepted has its line, none arrived after the last one accepted, and if any arrived a line was printed.
\<close>

theorem sigusr1_answered:
  assumes main: "receiver_main siginfo once ret pid = Inr p0 \<or> siginfo \<and> \<not> once \<and> sigwait_main ret pid = Inr p0"
    and run: "sig_runs p0 es p"
  shows "\<exists>ls. lines_out p = lines_out p0 @ ls @ (if status p = Exited 1 then [''sigwait''] else []) \<and>
    list_all (answer_line siginfo) ls \<and> length ls \<le> arrivals es \<and>
    (status p = Running \<or> excused siginfo once es (status p)) \<and>
    (idle p \<longrightarrow> length ls = accepts es \<and> \<not> unaccepted es \<and> (0 < arrivals es \<longrightarrow> ls \<noteq> []))"
proof -
  have start: "answered siginfo once p0 [] p0" "pending p0 = {}"
    using main by (auto simp: receiver_main_def sigwait_main_def fresh_process_def answered_def
        receiving_def taking_def split: if_splits)
  from answered_runs [OF run start(2,1)] have inv: "answered siginfo once p0 es p" .
  then obtain ls where
    ls: "lines_out p = lines_out p0 @ ls @ (if status p = Exited 1 then [''sigwait''] else [])"
      "list_all (answer_line siginfo) ls" "length ls + (if pc p = Got SIGUSR1 then 1 else 0) = accepts es"
    by (auto simp: answered_def)
  have st: "status p = Running \<or> excused siginfo once es (status p)" using inv by (auto simp: answered_def)
  note std = standard_signal [OF run start(2)]
  have "length ls \<le> arrivals es" using std ls(3) by linarith
  moreover have "length ls = accepts es \<and> \<not> unaccepted es \<and> (0 < arrivals es \<longrightarrow> ls \<noteq> [])" if "idle p"
  proof -
    have "status p = Running" using that by (simp add: idle_def)
    with inv have "receiving siginfo once (accepts es) p \<or> taking p" by (auto simp: answered_def excused_def)
    from idle_accepted [OF this that] ls(3) std accepted_if_arrived [of es] show ?thesis by auto
  qed
  ultimately show ?thesis using st ls(1,2) by (intro exI [of _ ls] conjI impI) simp_all
qed

text \<open>The run of the README: without \<^verbatim>\<open>SA_SIGINFO\<close> the last number is 1.\<close>

definition readme_start :: sproc where
  "readme_start = fresh_process\<lparr>disp := (\<lambda>_. Terminate)(SIGUSR1 := Call False False),
     lines_out := [''Waiting for signal... PID: 27447'']\<rparr>"

lemma readme_run:
  "sig_runs readme_start [Sent SIGUSR1, Accepted SIGUSR1]
     (readme_start\<lparr>lines_out := lines_out readme_start @ [''Signal SIGUSR1! - 10 7 1'']\<rparr>)"
proof -
  let ?p1 = "readme_start\<lparr>pending := {SIGUSR1}\<rparr>"
  let ?p2 = "readme_start\<lparr>lines_out := lines_out readme_start @ [''Signal SIGUSR1! - 10 7 1'']\<rparr>"
  have line: "sig_handler 10 7 1 = ''Signal SIGUSR1! - 10 7 1''" by code_simp
  have "sig_step readme_start (Sent SIGUSR1) ?p1"
    using send [of readme_start SIGUSR1] by (simp add: readme_start_def fresh_process_def)
  moreover have "sig_step ?p1 (Accepted SIGUSR1) ?p2"
    using handle [of ?p1 SIGUSR1 False False 1 7] by (simp add: readme_start_def fresh_process_def line)
  ultimately have "sig_runs readme_start (([] @ [Sent SIGUSR1]) @ [Accepted SIGUSR1]) ?p2"
    by (blast intro: sig_runs.intros)
  then show ?thesis by simp
qed

lemma sigusr1_answered_witness:
  "\<exists>p. sig_runs readme_start [Sent SIGUSR1, Accepted SIGUSR1] p \<and>
     lines_out p = lines_out readme_start @ [''Signal SIGUSR1! - 10 7 1''] \<and>
     list_all (answer_line False) [''Signal SIGUSR1! - 10 7 1''] \<and> arrivals [Sent SIGUSR1, Accepted SIGUSR1] = 1"
proof -
  let ?p = "readme_start\<lparr>lines_out := lines_out readme_start @ [''Signal SIGUSR1! - 10 7 1'']\<rparr>"
  have pid: "show_int 27447 = ''27447''" by (simp add: show_int_def show_nat.simps digit_def) code_simp
  have "receiver_main False False 0 27447 = Inr readme_start"
    by (simp add: receiver_main_def readme_start_def pid)
  then have "\<exists>ls. lines_out ?p = lines_out readme_start @ ls @ (if status ?p = Exited 1 then [''sigwait''] else []) \<and>
      list_all (answer_line False) ls"
    using sigusr1_answered [OF _ readme_run, of False False 0 27447] by blast
  moreover have "status ?p = Running" by (simp add: readme_start_def fresh_process_def)
  ultimately have "list_all (answer_line False) [''Signal SIGUSR1! - 10 7 1'']" by simp
  then show ?thesis using readme_run by (intro exI [of _ ?p]) (simp add: arrivals_def)
qed

text \<open>Without \<^verbatim>\<open>SA_SIGINFO\<close> the first SIGUSR1 makes the handler read arguments it was not given;
  with \<^verbatim>\<open>SA_RESETHAND\<close> the second one kills the process.\<close>

lemma receiver_without_siginfo:
  assumes "receiver_main False once 0 pid = Inr p0"
  shows "\<exists>p. sig_runs p0 [Sent SIGUSR1, Fatal SIGUSR1] p \<and> status p = Undefined"
proof -
  let ?p1 = "p0\<lparr>pending := {SIGUSR1}\<rparr>"
  have p0: "status p0 = Running" "pending p0 = {}" "blocked p0 = {}" "disp p0 SIGUSR1 = Call False once"
    using assms by (auto simp: receiver_main_def fresh_process_def)
  have "sig_step p0 (Sent SIGUSR1) ?p1" using send [of p0 SIGUSR1] p0 by simp
  moreover have "sig_step ?p1 (Fatal SIGUSR1) (?p1\<lparr>status := Undefined\<rparr>)"
    using no_arguments [of ?p1 SIGUSR1 once] p0 by simp
  ultimately have "sig_runs p0 (([] @ [Sent SIGUSR1]) @ [Fatal SIGUSR1]) (?p1\<lparr>status := Undefined\<rparr>)"
    by (blast intro: sig_runs.intros)
  then show ?thesis by (intro exI conjI) (simp, simp)
qed

subsection \<open>The process that blocks SIGINT\<close>

text \<open>
  However often SIGINT is sent, the process runs on, prints nothing and keeps the signal pending; any
  other signal may end it.
\<close>

lemma blocker_step:
  assumes "sig_step p e p'" "status p = Running" "blocked p = {SIGINT}" "pending p \<subseteq> {SIGINT}" "pc p = Pausing"
    and "e \<noteq> Sent SIGUSR1" "e \<noteq> Sent SIGTERM"
  shows "e = Sent SIGINT \<and> p' = p\<lparr>pending := {SIGINT}\<rparr>"
  using assms(1)
proof cases
  case (send sg)
  with assms(4,6,7) show ?thesis by (cases sg) auto
qed (use assms in auto)

text \<open>
  The program that blocks SIGINT cannot be stopped by it: in every run in which no
  other signal is sent, all steps are arrivals, the process runs and its output is the two lines of the
  start; and it is SIGINT that it blocks only, so a SIGUSR1 can end it.
\<close>

theorem sigint_blocked:
  assumes main: "blocker_main ret pid = Inr p0"
  shows "(sig_runs p0 es p \<longrightarrow> Sent SIGUSR1 \<notin> set es \<longrightarrow> Sent SIGTERM \<notin> set es \<longrightarrow>
      set es \<subseteq> {Sent SIGINT} \<and> status p = Running \<and> lines_out p = lines_out p0) \<and>
    (\<exists>p'. sig_runs p0 [Sent SIGUSR1, Fatal SIGUSR1] p' \<and> status p' = Killed SIGUSR1)"
proof (intro conjI impI)
  have p0: "status p0 = Running" "blocked p0 = {SIGINT}" "pending p0 = {}" "pc p0 = Pausing" "disp p0 SIGUSR1 = Terminate"
    using main by (auto simp: blocker_main_def fresh_process_def split: if_splits)
  assume "sig_runs p0 es p" "Sent SIGUSR1 \<notin> set es" "Sent SIGTERM \<notin> set es"
  then have "set es \<subseteq> {Sent SIGINT} \<and> status p = Running \<and> lines_out p = lines_out p0 \<and>
      blocked p = {SIGINT} \<and> pending p \<subseteq> {SIGINT} \<and> pc p = Pausing"
  proof (induction rule: sig_runs.induct)
    case (more es p e p')
    then show ?case using blocker_step [OF more.hyps(2)] by auto
  qed (use p0 in auto)
  then show "set es \<subseteq> {Sent SIGINT}" "status p = Running" "lines_out p = lines_out p0" by auto
next
  have p0: "status p0 = Running" "blocked p0 = {SIGINT}" "pending p0 = {}" "disp p0 SIGUSR1 = Terminate"
    using main by (auto simp: blocker_main_def fresh_process_def split: if_splits)
  let ?p1 = "p0\<lparr>pending := {SIGUSR1}\<rparr>"
  have "sig_step p0 (Sent SIGUSR1) ?p1" using send [of p0 SIGUSR1] p0 by simp
  moreover have "sig_step ?p1 (Fatal SIGUSR1) (?p1\<lparr>status := Killed SIGUSR1\<rparr>)"
    using kill [of ?p1 SIGUSR1] p0 by simp
  ultimately have "sig_runs p0 (([] @ [Sent SIGUSR1]) @ [Fatal SIGUSR1]) (?p1\<lparr>status := Killed SIGUSR1\<rparr>)"
    by (blast intro: sig_runs.intros)
  then show "\<exists>p'. sig_runs p0 [Sent SIGUSR1, Fatal SIGUSR1] p' \<and> status p' = Killed SIGUSR1"
    by (intro exI conjI) (simp, simp)
qed

lemma sigint_blocked_witness:
  "\<exists>p0 p'. blocker_main 0 7 = Inr p0 \<and> sig_runs p0 [Sent SIGUSR1, Fatal SIGUSR1] p' \<and> status p' = Killed SIGUSR1"
proof -
  obtain p0 where p0: "blocker_main 0 7 = Inr p0" by (simp add: blocker_main_def)
  with sigint_blocked [OF p0, THEN conjunct2] show ?thesis by blast
qed

subsection \<open>The sender\<close>

text \<open>\<^verbatim>\<open>strtol(s, NULL, 10)\<close>: 0 without a number, the nearest \<^verbatim>\<open>long\<close> outside its range.\<close>

definition strtol_10 :: "string \<Rightarrow> int" where
  "strtol_10 s = (case scan_d s of None \<Rightarrow> 0 | Some (v, _) \<Rightarrow> max (- (2 ^ 63)) (min (2 ^ 63 - 1) v))"

definition to_pid :: "int \<Rightarrow> int" where
  "to_pid v = sint (word_of_int v :: 32 word)"

text \<open>Exit code, error output, and the processes that get SIGUSR1.\<close>

definition sender_main :: "int \<Rightarrow> string list \<Rightarrow> nat \<times> string list \<times> int list" where
  "sender_main killed argv =
     (if length argv \<noteq> 2 then (1, [''Usage: '' @ argv ! 0 @ '' <integer>''], [])
      else let pid = to_pid (strtol_10 (argv ! 1))
           in if pid \<le> 0 then (1, [''Invalid PID: '' @ argv ! 1], [])
              else if killed = -1 then (1, [''Failed to send signal''], [pid])
              else (0, [], [pid]))"

lemma to_pid_id: "- (2 ^ 31) \<le> v \<Longrightarrow> v < 2 ^ 31 \<Longrightarrow> to_pid v = v"
  by (simp add: to_pid_def sint_sbintrunc' signed_take_bit_int_eq_self)

lemma to_pid_range: "- (2 ^ 31) \<le> to_pid v \<and> to_pid v < 2 ^ 31"
  unfolding to_pid_def using sint_ge [of "word_of_int v :: 32 word"] sint_lt [of "word_of_int v :: 32 word"] by simp

lemma strtol_show_int: "- (2 ^ 63) \<le> i \<Longrightarrow> i < 2 ^ 63 \<Longrightarrow> strtol_10 (show_int i) = i"
  using scan_d_show_int [of "[]" i] by (simp add: strtol_10_def)

text \<open>
  The sender reaches the receiver: the process id that a waiting program prints, given
  to the sender as its argument, is the one the signal goes to.  For any arguments at most one signal
  is sent, to a positive id, so never to a group of processes or to all of them.
\<close>

theorem sender_reaches_receiver:
  assumes "0 < pid" "pid < 2 ^ 31"
    and "receiver_main info once ret pid = Inr p0" "killed \<noteq> -1"
  shows "\<exists>text. lines_out p0 = [''Waiting for signal... PID: '' @ text] \<and>
      sender_main killed [name, text] = (0, [], [pid]) \<and>
    (\<forall>k argv. length (snd (snd (sender_main k argv))) \<le> 1 \<and>
      set (snd (snd (sender_main k argv))) \<subseteq> {1..<2 ^ 31})"
proof (intro exI conjI)
  show "lines_out p0 = [''Waiting for signal... PID: '' @ show_int pid]"
    using assms(3) by (auto simp: receiver_main_def split: if_splits)
  have "strtol_10 (show_int pid) = pid" using assms(1,2) by (intro strtol_show_int) simp_all
  with assms show "sender_main killed [name, show_int pid] = (0, [], [pid])"
    by (simp add: sender_main_def to_pid_id)
  show "\<forall>k argv. length (snd (snd (sender_main k argv))) \<le> 1 \<and> set (snd (snd (sender_main k argv))) \<subseteq> {1..<2 ^ 31}"
    using to_pid_range by (auto simp: sender_main_def Let_def not_le)
qed

lemma sender_reaches_receiver_witness:
  "\<exists>p0 text. receiver_main True False 0 27447 = Inr p0 \<and>
     lines_out p0 = [''Waiting for signal... PID: '' @ text] \<and> sender_main 0 [''1_sender'', text] = (0, [], [27447])"
proof -
  obtain p0 where p0: "receiver_main True False 0 27447 = Inr p0" by (simp add: receiver_main_def)
  from sender_reaches_receiver [OF _ _ this, of 0 "''1_sender''"] p0 show ?thesis by auto
qed

text \<open>A number beyond 32 bits is cut before it is checked: the signal goes to the process 1.\<close>

lemma sender_wraps: "sender_main 0 [''1_sender'', ''4294967297''] = (0, [], [1])"
proof -
  have "scan_d ''4294967297'' = Some (4294967297, [])" 
    by (simp add: scan_d_def is_space_def is_digit_def read_digits_def digit_val_def)
  moreover have "to_pid 4294967297 = 1" unfolding to_pid_def by simp
  ultimately show ?thesis by (simp add: sender_main_def strtol_10_def)
qed

end
