(* ===== verification/Calculator.thy ===== *)
theory Calculator
  imports C_Text "HOL-Library.Signed_Division"
begin

text \<open>
  The calculators of \<^verbatim>\<open>labs/lab-7\<close> (with a static library) and \<^verbatim>\<open>labs/lab-8\<close> (the same sources
  with a shared library): \<^verbatim>\<open>add.c\<close>, \<^verbatim>\<open>sub.c\<close>, \<^verbatim>\<open>mul.c\<close>, \<^verbatim>\<open>div.c\<close> and the menu in \<^verbatim>\<open>main.c\<close>.
  A result outside \<^verbatim>\<open>int\<close> is undefined behaviour and has the value \<open>None\<close>; so has a number
  outside \<^verbatim>\<open>int\<close> that \<^verbatim>\<open>scanf\<close> reads.  What is printed is the list of the calls of
  \<^verbatim>\<open>printf\<close>.
\<close>

definition in_int :: "int \<Rightarrow> bool" where
  "in_int i \<longleftrightarrow> - (2 ^ 31) \<le> i \<and> i < 2 ^ 31"

definition c_int :: "int \<Rightarrow> int option" where
  "c_int i = (if in_int i then Some i else None)"

subsection \<open>The library\<close>

definition calc_add :: "int \<Rightarrow> int \<Rightarrow> int option" where "calc_add a b = c_int (a + b)"

definition calc_sub :: "int \<Rightarrow> int \<Rightarrow> int option" where "calc_sub a b = c_int (a - b)"

definition calc_mul :: "int \<Rightarrow> int \<Rightarrow> int option" where "calc_mul a b = c_int (a * b)"

definition calc_div :: "int \<Rightarrow> int \<Rightarrow> int option" where
  "calc_div a b = (if b = 0 then Some 0 else c_int (a sdiv b))"

subsection \<open>The menu\<close>

text \<open>
  \<^verbatim>\<open>scanf("%d", &x)\<close>: without a number \<open>x\<close> keeps its value; white space, and a sign that no digit
  follows, are consumed all the same.  The last component tells whether a number was read.
\<close>

definition scanf_rest :: "string \<Rightarrow> string" where
  "scanf_rest s =
     (let s1 = dropWhile is_space s
      in if s1 \<noteq> [] \<and> (hd s1 = CHR 0x2D \<or> hd s1 = CHR 0x2B) then tl s1 else s1)"

definition scanf_d :: "int \<Rightarrow> string \<Rightarrow> (int \<times> string \<times> bool) option" where
  "scanf_d x s =
     (case scan_d s of
        None \<Rightarrow> Some (x, scanf_rest s, False)
      | Some (v, r) \<Rightarrow> if in_int v then Some (v, r, True) else None)"

definition scanf_d_d :: "int \<Rightarrow> int \<Rightarrow> string \<Rightarrow> (int \<times> int \<times> string) option" where
  "scanf_d_d a b s =
     (case scanf_d a s of
        None \<Rightarrow> None
      | Some (a', r, False) \<Rightarrow> Some (a', b, r)
      | Some (a', r, True) \<Rightarrow> (case scanf_d b r of None \<Rightarrow> None | Some (b', r', _) \<Rightarrow> Some (a', b', r')))"

datatype calc_print = Menu | Bad_item | Ask_numbers | Answer int

record calc =
  choice :: int
  num_a :: int
  num_b :: int

definition calc_apply :: "calc \<Rightarrow> int option" where
  "calc_apply c =
     (if choice c = 1 then calc_add (num_a c) (num_b c)
      else if choice c = 2 then calc_sub (num_a c) (num_b c)
      else if choice c = 3 then calc_mul (num_a c) (num_b c)
      else calc_div (num_a c) (num_b c))"

text \<open>One round of the loop: \<open>None\<close> is undefined behaviour, \<open>Inl\<close> leaves the loop.\<close>

definition calc_round :: "calc \<Rightarrow> string \<Rightarrow> (calc_print list + (calc \<times> string \<times> calc_print list)) option" where
  "calc_round c s =
     (case scanf_d (choice c) s of
        None \<Rightarrow> None
      | Some (ch, s1, _) \<Rightarrow>
          let c1 = c\<lparr>choice := ch\<rparr>
          in if ch = 5 then Some (Inl [Menu])
             else if ch < 1 \<or> 4 < ch then Some (Inr (c1, s1, [Menu, Bad_item]))
             else (case scanf_d_d (num_a c) (num_b c) s1 of
                     None \<Rightarrow> None
                   | Some (a, b, s2) \<Rightarrow>
                       let c2 = c1\<lparr>num_a := a, num_b := b\<rparr>
                       in (case calc_apply c2 of
                             None \<Rightarrow> None
                           | Some r \<Rightarrow> Some (Inr (c2, s2, [Menu, Ask_numbers, Answer r])))))"

text \<open>The loop: the outer \<open>None\<close> is a run without end, the inner one undefined behaviour.  The first
  argument has the values of the uninitialised variables.\<close>

partial_function (option) calc_main :: "calc \<Rightarrow> string \<Rightarrow> calc_print list \<Rightarrow> calc_print list option option" where
  "calc_main c s out =
     (case calc_round c s of
        None \<Rightarrow> Some None
      | Some (Inl o1) \<Rightarrow> Some (Some (out @ o1))
      | Some (Inr (c1, s1, o1)) \<Rightarrow> calc_main c1 s1 (out @ o1))"

declare calc_main.simps [simp del]

subsection \<open>Sessions\<close>

datatype calc_op = Plus | Minus | Times | Divide

fun item :: "calc_op \<Rightarrow> int" where
  "item Plus = 1" | "item Minus = 2" | "item Times = 3" | "item Divide = 4"

fun meaning :: "calc_op \<Rightarrow> int \<Rightarrow> int \<Rightarrow> int" where
  "meaning Plus a b = a + b"
| "meaning Minus a b = a - b"
| "meaning Times a b = a * b"
| "meaning Divide a b = (if b = 0 then 0 else sgn a * sgn b * (\<bar>a\<bar> div \<bar>b\<bar>))"

type_synonym task = "calc_op \<times> int \<times> int"

definition typed :: "task list \<Rightarrow> string" where
  "typed ts = concat (map (\<lambda>(f, a, b).
     show_int (item f) @ CHR 0x0A # show_int a @ CHR 0x20 # show_int b @ [CHR 0x0A]) ts)"

definition answers :: "task list \<Rightarrow> calc_print list" where
  "answers ts = concat (map (\<lambda>(f, a, b). [Menu, Ask_numbers, Answer (meaning f a b)]) ts)"

definition fits :: "task \<Rightarrow> bool" where
  "fits t \<longleftrightarrow> (case t of (f, a, b) \<Rightarrow> in_int a \<and> in_int b \<and> in_int (meaning f a b))"

lemma scanf_d_typed:
  "in_int i \<Longrightarrow> r = [] \<or> \<not> is_digit (hd r) \<Longrightarrow> \<forall>c \<in> set w. is_space c \<Longrightarrow>
   scanf_d x (w @ show_int i @ r) = Some (i, r, True)"
  by (simp add: scanf_d_def scan_d_spaces scan_d_show_int)

lemma item_in_int: "in_int (item f)" "in_int 5" "1 \<le> item f" "item f \<le> 4"
  by (cases f; simp add: in_int_def)+

lemma calc_apply_item:
  "choice c = item f \<Longrightarrow> in_int (meaning f (num_a c) (num_b c)) \<Longrightarrow>
   calc_apply c = Some (meaning f (num_a c) (num_b c))"
  by (cases f) (auto simp: calc_apply_def calc_add_def calc_sub_def calc_mul_def calc_div_def c_int_def
      signed_divide_int_def split: if_splits)

lemma calc_round_task:
  assumes "fits (f, a, b)" "\<forall>c \<in> set w. is_space c"
  shows "calc_round c (w @ show_int (item f) @ CHR 0x0A # show_int a @ CHR 0x20 # show_int b @ CHR 0x0A # r) =
    Some (Inr (\<lparr>choice = item f, num_a = a, num_b = b\<rparr>, CHR 0x0A # r, [Menu, Ask_numbers, Answer (meaning f a b)]))"
proof -
  have ints: "in_int a" "in_int b" "in_int (meaning f a b)" using assms(1) by (auto simp: fits_def)
  have sp: "\<not> is_digit (CHR 0x0A)" "\<not> is_digit (CHR 0x20)" "is_space (CHR 0x0A)" "is_space (CHR 0x20)"
    by (simp_all add: is_digit_def is_space_def)
  have "scanf_d (choice c) (w @ show_int (item f) @ CHR 0x0A # show_int a @ CHR 0x20 # show_int b @ CHR 0x0A # r) =
      Some (item f, CHR 0x0A # show_int a @ CHR 0x20 # show_int b @ CHR 0x0A # r, True)"
    using assms(2) sp by (intro scanf_d_typed item_in_int) auto
  moreover have "scanf_d x (CHR 0x0A # show_int a @ CHR 0x20 # show_int b @ CHR 0x0A # r) =
      Some (a, CHR 0x20 # show_int b @ CHR 0x0A # r, True)" for x
    using scanf_d_typed [OF ints(1), of "CHR 0x20 # show_int b @ CHR 0x0A # r" "[CHR 0x0A]" x] sp by simp
  moreover have "scanf_d x (CHR 0x20 # show_int b @ CHR 0x0A # r) = Some (b, CHR 0x0A # r, True)" for x
    using scanf_d_typed [OF ints(2), of "CHR 0x0A # r" "[CHR 0x20]" x] sp by simp
  moreover have "calc_apply (c\<lparr>choice := item f, num_a := a, num_b := b\<rparr>) = Some (meaning f a b)"
    using calc_apply_item [of "c\<lparr>choice := item f, num_a := a, num_b := b\<rparr>" f] ints(3) by simp
  ultimately show ?thesis
    using item_in_int(3,4) [of f] by (simp add: calc_round_def scanf_d_d_def Let_def)
qed

text \<open>At the end of the input nothing changes any more: the loop goes on for ever.\<close>

definition stuck :: "calc \<Rightarrow> string \<Rightarrow> bool" where
  "stuck c s \<longleftrightarrow> (\<forall>ch \<in> set s. is_space ch) \<and> choice c \<noteq> 5 \<and>
     (1 \<le> choice c \<and> choice c \<le> 4 \<longrightarrow> calc_apply c \<noteq> None)"

lemma scanf_blank: "\<forall>ch \<in> set s. is_space ch \<Longrightarrow> scanf_d x s = Some (x, [], False)"
proof -
  assume "\<forall>ch \<in> set s. is_space ch"
  then have drop: "dropWhile is_space s = []" by simp
  show ?thesis by (simp add: scanf_d_def scan_d_def scanf_rest_def Let_def drop del: dropWhile_eq_Nil_conv)
qed

lemma stuck_round:
  "stuck c s \<Longrightarrow> \<exists>o1. calc_round c s = Some (Inr (c, [], o1)) \<and> stuck c []"
  by (auto simp: stuck_def calc_round_def scanf_blank scanf_d_d_def Let_def)

lemma calc_main_returns:
  assumes "calc_main c s out = Some r"
  shows "\<not> stuck c s"
proof (induction rule: calc_main.raw_induct [OF _ assms])
  case (1 loop c s out r)
  show ?case
  proof
    assume "stuck c s"
    from stuck_round [OF this] obtain o1 where o1: "calc_round c s = Some (Inr (c, [], o1))" "stuck c []" by blast
    with 1 show False by auto
  qed
qed

lemma calc_main_stuck: "stuck c s \<Longrightarrow> calc_main c s out = None"
  using calc_main_returns by (cases "calc_main c s out") auto

lemma calc_main_tasks:
  assumes "list_all fits ts" "\<forall>ch \<in> set w. is_space ch"
  shows "\<exists>c' w'. calc_main c (w @ typed ts @ r) out = calc_main c' (w' @ r) (out @ answers ts) \<and>
    (\<forall>ch \<in> set w'. is_space ch) \<and> (if ts = [] then c' = c else stuck c' [])"
  using assms
proof (induction ts arbitrary: c w out)
  case Nil
  then show ?case by (auto simp: typed_def answers_def)
next
  case (Cons t ts)
  obtain f a b where t: "t = (f, a, b)" by (cases t)
  let ?c = "\<lparr>choice = item f, num_a = a, num_b = b\<rparr>"
  have nl: "\<forall>ch \<in> set [CHR 0x0A]. is_space ch" by (simp add: is_space_def)
  have "fits (f, a, b)" using Cons.prems by (simp add: t)
  then have st: "stuck ?c []"
    using calc_apply_item [of ?c f] item_in_int(3,4) [of f] by (auto simp: stuck_def fits_def)
  have "calc_main c (w @ typed (t # ts) @ r) out =
      calc_main ?c ([CHR 0x0A] @ typed ts @ r) (out @ [Menu, Ask_numbers, Answer (meaning f a b)])"
    using calc_round_task [OF \<open>fits (f, a, b)\<close> Cons.prems(2), of c "typed ts @ r"]
    by (subst calc_main.simps) (simp add: t typed_def)
  moreover have "answers (t # ts) = [Menu, Ask_numbers, Answer (meaning f a b)] @ answers ts"
    by (simp add: t answers_def)
  moreover obtain c' w' where
    "calc_main ?c ([CHR 0x0A] @ typed ts @ r) (out @ [Menu, Ask_numbers, Answer (meaning f a b)]) =
       calc_main c' (w' @ r) ((out @ [Menu, Ask_numbers, Answer (meaning f a b)]) @ answers ts)"
    "\<forall>ch \<in> set w'. is_space ch" "if ts = [] then c' = ?c else stuck c' []"
    using Cons.IH [OF _ nl, of ?c] Cons.prems(1) by (metis list.pred_inject(2))
  ultimately show ?case using st by (intro exI [of _ c'] exI [of _ w']) (auto split: if_splits)
qed

lemma calc_main_quit:
  assumes "\<forall>ch \<in> set w. is_space ch" "r = [] \<or> \<not> is_digit (hd r)"
  shows "calc_main c (w @ show_int 5 @ r) out = Some (Some (out @ [Menu]))"
  using scanf_d_typed [OF item_in_int(2) assms(2,1), of "choice c"]
  by (subst calc_main.simps) (simp add: calc_round_def)

text \<open>
  Property C35.  The calculator calculates.  Any tasks, typed as a person types them, with numbers and
  results inside \<^verbatim>\<open>int\<close>, are answered in order, each by the sum, difference, product, or quotient
  rounded towards zero (0 for a division by 0), whatever the uninitialised variables hold; item 5 ends
  the program.  When the input ends without item 5 the program never ends.
\<close>

theorem calculator_session:
  assumes "list_all fits ts"
  shows "calc_main c (typed ts @ show_int 5 @ [CHR 0x0A]) [] = Some (Some (answers ts @ [Menu])) \<and>
    (ts \<noteq> [] \<longrightarrow> calc_main c (typed ts) [] = None)"
proof (intro conjI impI)
  have nl: "\<not> is_digit (CHR 0x0A)" by (simp add: is_digit_def)
  from calc_main_tasks [OF assms, of "[]" c "show_int 5 @ [CHR 0x0A]" "[]"] obtain c' w' where
    "calc_main c (typed ts @ show_int 5 @ [CHR 0x0A]) [] = calc_main c' (w' @ show_int 5 @ [CHR 0x0A]) (answers ts)"
    "\<forall>ch \<in> set w'. is_space ch" by auto
  then show "calc_main c (typed ts @ show_int 5 @ [CHR 0x0A]) [] = Some (Some (answers ts @ [Menu]))"
    using nl by (simp add: calc_main_quit)
  assume "ts \<noteq> []"
  with calc_main_tasks [OF assms, of "[]" c "[]" "[]"] obtain c' w' where
    "calc_main c (typed ts) [] = calc_main c' w' (answers ts)" "\<forall>ch \<in> set w'. is_space ch" "stuck c' []" by auto
  moreover have "stuck c' w'" using calculation(2,3) by (simp add: stuck_def)
  ultimately show "calc_main c (typed ts) [] = None" by (simp add: calc_main_stuck)
qed

definition three_tasks :: "task list" where
  "three_tasks = [(Minus, 2, 5), (Divide, -7, 2), (Divide, 1, 0)]"

lemma calculator_session_witness:
  "calc_main \<lparr>choice = 0, num_a = 0, num_b = 0\<rparr> (typed three_tasks @ show_int 5 @ [CHR 0x0A]) [] =
   Some (Some ([Menu, Ask_numbers, Answer (-3), Menu, Ask_numbers, Answer (-3), Menu, Ask_numbers, Answer 0] @ [Menu]))"
  using calculator_session [of three_tasks "\<lparr>choice = 0, num_a = 0, num_b = 0\<rparr>", THEN conjunct1]
  by (simp add: three_tasks_def fits_def in_int_def answers_def)

text \<open>The quotient that does not fit.\<close>

lemma calc_div_overflow: "calc_div (- (2 ^ 31)) (- 1) = None"
  by (simp add: calc_div_def c_int_def in_int_def signed_divide_int_def)

end
