(* ===== verification/Small_Programs.thy ===== *)
theory Small_Programs
  imports C_Text Interfaces
begin

text \<open>
  Three small programs: parent and child on a pipe (\<^verbatim>\<open>labs/lab-12/src/1.c\<close>), a file that is written
  and read back from its end (\<^verbatim>\<open>labs/lab-9/src/part1.c\<close>), and the check of a password read by
  \<^verbatim>\<open>gets\<close> (\<^verbatim>\<open>labs/lab-5/main.c\<close>).
\<close>

subsection \<open>Parent and child on a pipe\<close>

text \<open>
  After \<^verbatim>\<open>fork\<close> both processes hold both ends.  \<open>at_p\<close> and \<open>at_c\<close> are the places the two are at;
  a step is \<open>None\<close> where the process waits: the child for a character while a write end is open
  somewhere, the parent for the end of the child.  \<^verbatim>\<open>fdopen\<close> succeeds.
\<close>

datatype parent_at = Close_read | Write_pipe | Wait_child | Parent_ended nat

datatype child_at = Close_write | Read_pipe | Child_ended nat

record pipe_sys =
  channel :: string
  parent_reads :: bool
  parent_writes :: bool
  child_reads :: bool
  child_writes :: bool
  at_p :: parent_at
  at_c :: child_at
  shown :: string

text \<open>\<open>for (c = fgetc(stream); c != EOF; ...) putchar(c)\<close>, one character per step.\<close>

definition read_from_pipe :: "pipe_sys \<Rightarrow> pipe_sys option" where
  "read_from_pipe s =
     (case channel s of
        c # cs \<Rightarrow> Some (s\<lparr>channel := cs, shown := shown s @ [c]\<rparr>)
      | [] \<Rightarrow> if parent_writes s \<or> child_writes s then None
              else Some (s\<lparr>child_reads := False, at_c := Child_ended 0\<rparr>))"

text \<open>The line, and the close of the write end in \<^verbatim>\<open>fclose\<close>, are one step.\<close>

definition write_to_pipe :: "pipe_sys \<Rightarrow> pipe_sys option" where
  "write_to_pipe s =
     (if child_reads s \<or> parent_reads s
      then Some (s\<lparr>channel := channel s @ ''Hi!'' @ [CHR 0x0A], parent_writes := False, at_p := Wait_child\<rparr>)
      else None)"

definition parent_step :: "pipe_sys \<Rightarrow> pipe_sys option" where
  "parent_step s =
     (case at_p s of
        Close_read \<Rightarrow> Some (s\<lparr>parent_reads := False, at_p := Write_pipe\<rparr>)
      | Write_pipe \<Rightarrow> write_to_pipe s
      | Wait_child \<Rightarrow> (case at_c s of Child_ended _ \<Rightarrow> Some (s\<lparr>at_p := Parent_ended 0\<rparr>) | _ \<Rightarrow> None)
      | Parent_ended _ \<Rightarrow> None)"

definition child_step :: "pipe_sys \<Rightarrow> pipe_sys option" where
  "child_step s =
     (case at_c s of
        Close_write \<Rightarrow> Some (s\<lparr>child_writes := False, at_c := Read_pipe\<rparr>)
      | Read_pipe \<Rightarrow> read_from_pipe s
      | Child_ended _ \<Rightarrow> None)"

definition pipe_main :: "int \<Rightarrow> int \<Rightarrow> (string \<times> nat) + pipe_sys" where
  "pipe_main piped forked =
     (if piped = -1 then Inl (''pipe failed'', 1)
      else if forked < 0 then Inl (''Fork failed.'', 1)
      else Inr \<lparr>channel = [], parent_reads = True, parent_writes = True, child_reads = True, child_writes = True,
             at_p = Close_read, at_c = Close_write, shown = []\<rparr>)"

text \<open>What is in the pipe and on the screen, and which ends are open, at each place; and how many
  steps are left.\<close>

definition hi :: string where "hi = ''Hi!'' @ [CHR 0x0A]"

definition pipe_inv :: "pipe_sys \<Rightarrow> bool" where
  "pipe_inv s \<longleftrightarrow>
     (parent_writes s \<longleftrightarrow> at_p s = Close_read \<or> at_p s = Write_pipe) \<and>
     (child_writes s \<longleftrightarrow> at_c s = Close_write) \<and>
     (child_reads s \<longleftrightarrow> (\<forall>n. at_c s \<noteq> Child_ended n)) \<and>
     (if parent_writes s then channel s = [] \<and> shown s = [] else shown s @ channel s = hi) \<and>
     (at_c s = Close_write \<longrightarrow> shown s = []) \<and>
     (\<forall>n. at_c s = Child_ended n \<longrightarrow> n = 0 \<and> \<not> parent_writes s \<and> channel s = []) \<and>
     (\<forall>n. at_p s = Parent_ended n \<longrightarrow> n = 0 \<and> at_c s = Child_ended 0)"

definition pipe_left :: "pipe_sys \<Rightarrow> nat" where
  "pipe_left s =
     (case at_p s of Close_read \<Rightarrow> 3 | Write_pipe \<Rightarrow> 2 | Wait_child \<Rightarrow> 1 | Parent_ended _ \<Rightarrow> 0) +
     (case at_c s of Close_write \<Rightarrow> 2 | Read_pipe \<Rightarrow> 1 | Child_ended _ \<Rightarrow> 0) +
     (length hi - length (shown s))"

lemma pipe_step_inv:
  assumes "pipe_inv s" "parent_step s = Some s' \<or> child_step s = Some s'"
  shows "pipe_inv s' \<and> pipe_left s = Suc (pipe_left s')"
  using assms(2)
proof
  assume "parent_step s = Some s'"
  then show ?thesis using assms(1)
    by (cases "at_p s"; cases "at_c s")
      (auto simp: parent_step_def write_to_pipe_def pipe_inv_def pipe_left_def hi_def split: if_splits)
next
  assume c: "child_step s = Some s'"
  show ?thesis
  proof (cases "at_c s")
    case Read_pipe
    show ?thesis
    proof (cases "channel s")
      case Nil
      with c Read_pipe assms(1) show ?thesis
        by (auto simp: child_step_def read_from_pipe_def pipe_inv_def pipe_left_def split: if_splits)
    next
      case (Cons ch cs)
      then have "s' = s\<lparr>channel := cs, shown := shown s @ [ch]\<rparr>"
        using c Read_pipe by (simp add: child_step_def read_from_pipe_def)
      moreover have hi: "shown s @ channel s = hi" "\<not> parent_writes s"
        using assms(1) Cons by (auto simp: pipe_inv_def split: if_splits)
      moreover have "length (shown s) < length hi" using hi(1) Cons by (metis length_append less_add_same_cancel1 length_greater_0_conv list.distinct(1))
      ultimately show ?thesis
        using assms(1) Cons Read_pipe by (auto simp: pipe_inv_def pipe_left_def)
    qed
  qed (use c assms(1) in \<open>auto simp: child_step_def pipe_inv_def pipe_left_def\<close>)
qed

definition pipe_done :: "pipe_sys \<Rightarrow> bool" where
  "pipe_done s \<longleftrightarrow> at_p s = Parent_ended 0 \<and> at_c s = Child_ended 0 \<and> shown s = hi"

lemma pipe_stops: "pipe_inv s \<Longrightarrow> stopped parent_step child_step s \<Longrightarrow> pipe_done s"
  by (cases "at_p s"; cases "at_c s"; cases "channel s")
    (auto simp: stopped_def parent_step_def child_step_def write_to_pipe_def read_from_pipe_def pipe_inv_def pipe_done_def)

interpretation pipe: two_processes parent_step child_step pipe_inv pipe_left pipe_done
proof (unfold_locales, goal_cases)
  case (1 s s')
  then show ?case using pipe_step_inv [of s s'] by simp
next
  case (2 s s')
  then show ?case using pipe_step_inv [of s s'] by simp
next
  case (3 s)
  then show ?case by (rule pipe_stops)
qed

text \<open>
  Property C36.  Parent and child on a pipe, in every order of their steps: there are at most nine
  steps; as long as not both have ended one of them can go on, so the child sees the end of the input
  and the parent the end of the child; and in the end both have returned 0 and the child has printed
  exactly the line that the parent wrote.
\<close>

theorem pipe_programs_end:
  assumes "pipe_main piped forked = Inr s0" "interleaved parent_step child_step s0 n s"
  shows "n \<le> 9 \<and> (stopped parent_step child_step s \<longrightarrow>
    at_p s = Parent_ended 0 \<and> at_c s = Child_ended 0 \<and> shown s = ''Hi!'' @ [CHR 0x0A])"
proof -
  have s0: "pipe_inv s0" "pipe_left s0 = 9"
    using assms(1) by (auto simp: pipe_main_def pipe_inv_def pipe_left_def hi_def split: if_splits)
  from pipe.runs_to_final [OF assms(2) s0(1)] s0(2) show ?thesis by (auto simp: pipe_done_def hi_def)
qed

definition pipe_start :: pipe_sys where
  "pipe_start = \<lparr>channel = [], parent_reads = True, parent_writes = True, child_reads = True, child_writes = True,
     at_p = Close_read, at_c = Close_write, shown = []\<rparr>"

definition pipe_order :: "bool list" where
  "pipe_order = [False, True, True] @ replicate 5 False @ [True]"

lemma pipe_order_stops:
  "case scheduled parent_step child_step pipe_order pipe_start of
     None \<Rightarrow> False | Some s \<Rightarrow> stopped parent_step child_step s"
  unfolding pipe_order_def stopped_def by code_simp

lemma pipe_programs_end_witness:
  "map_option shown (scheduled parent_step child_step pipe_order pipe_start) = Some (''Hi!'' @ [CHR 0x0A])"
proof -
  obtain s where s: "scheduled parent_step child_step pipe_order pipe_start = Some s"
    "stopped parent_step child_step s"
    using pipe_order_stops by (auto split: option.splits)
  moreover have "pipe_main 0 7 = Inr pipe_start" by (simp add: pipe_main_def pipe_start_def)
  ultimately show ?thesis using pipe_programs_end [of 0 7 pipe_start] schedule_runs [OF s(1)] by simp
qed

subsection \<open>A file read from its end\<close>

definition part1_text :: string where "part1_text = ''String from file''"

function print_backwards :: "nat \<Rightarrow> string \<Rightarrow> string" where
  "print_backwards i file =
     (if i < length file then file ! (length file - i - 1) # print_backwards (Suc i) file else [])"
  by pat_completeness auto
termination by (relation "measure (\<lambda>(i, file). length file - i)") auto

declare print_backwards.simps [simp del]

text \<open>The results of the two \<^verbatim>\<open>fopen\<close>; exit code, error, output and the file afterwards.\<close>

definition part1_main :: "bool \<Rightarrow> bool \<Rightarrow> string option \<Rightarrow> nat \<times> string list \<times> string \<times> string option" where
  "part1_main opened_w opened_r old =
     (if \<not> opened_w then (1, [''fopen write''], [], old)
      else let file = part1_text
           in if \<not> opened_r then (1, [''fopen read''], [], Some file)
              else (0, [], print_backwards 0 file @ [CHR 0x0A], Some file))"

lemma print_backwards_rev: "i \<le> length f \<Longrightarrow> print_backwards i f = rev (take (length f - i) f)"
proof (induction i f rule: print_backwards.induct)
  case (1 i f)
  show ?case
  proof (cases "i < length f")
    case True
    then obtain k where k: "length f - i = Suc k" "length f - Suc i = k" by (cases "length f - i") auto
    with True have "take (Suc k) f = take k f @ [f ! k]" by (intro take_Suc_conv_app_nth) simp
    with 1 True k show ?thesis by (subst print_backwards.simps) simp
  qed (subst print_backwards.simps, simp)
qed

lemma part1_prints_reversed:
  "part1_main True True old = (0, [], rev part1_text @ [CHR 0x0A], Some part1_text)"
  using print_backwards_rev [of 0 part1_text] by (simp add: part1_main_def)

subsection \<open>A password\<close>

text \<open>
  \<^verbatim>\<open>gets\<close> into 12 bytes: \<open>None\<close> when the line and its NUL do not fit; at the end of the input the
  array \<open>old\<close> keeps what it held.
\<close>

definition gets12 :: "char list \<Rightarrow> string \<Rightarrow> char list option" where
  "gets12 old input =
     (if input = [] then Some old
      else let l = takeWhile (\<lambda>c. c \<noteq> CHR 0x0A) input
           in if 12 \<le> length l then None else Some (l @ CHR 0x00 # drop (Suc (length l)) old))"

definition IsPassOk :: "char list \<Rightarrow> string \<Rightarrow> bool option" where
  "IsPassOk old input = map_option (\<lambda>pass. until_nul pass = ''test'') (gets12 old input)"

definition password_main :: "char list \<Rightarrow> string \<Rightarrow> (string list \<times> nat) option" where
  "password_main old input =
     (case IsPassOk old input of
        None \<Rightarrow> None
      | Some False \<Rightarrow> Some ([''Enter password:'', ''Bad password!''], 1)
      | Some True \<Rightarrow> Some ([''Enter password:'', ''Access granted!''], 0))"

text \<open>For a line that fits, access is granted exactly for the password; a longer one overruns the
  array.\<close>

lemma password_checked:
  assumes "CHR 0x0A \<notin> set w" "c_string w"
  shows "password_main old (w @ [CHR 0x0A]) =
    (if 12 \<le> length w then None
     else if w = ''test'' then Some ([''Enter password:'', ''Access granted!''], 0)
     else Some ([''Enter password:'', ''Bad password!''], 1))"
proof -
  have "takeWhile (\<lambda>c. c \<noteq> CHR 0x0A) (w @ [CHR 0x0A]) = w"
    using assms(1) by (subst takeWhile_append2) auto
  then show ?thesis
    using assms(2) by (auto simp: password_main_def IsPassOk_def gets12_def)
qed

end
