(* ===== verification/Shm_Exchange.thy ===== *)
theory Shm_Exchange
  imports C_Text Interfaces
begin

text \<open>
  The two exchanges over shared memory of \<^verbatim>\<open>labs/lab-14\<close>, server and client together: the System V pair
  (\<^verbatim>\<open>src/sysv_server.c\<close>, \<^verbatim>\<open>src/sysv_client.c\<close>) and the POSIX pair (\<^verbatim>\<open>src/posix_server.c\<close>,
  \<^verbatim>\<open>src/posix_client.c\<close>), one system call or one access to the memory per step, in every order.  What
  each program does when a call fails, and that it releases what it has taken, is in
  \<open>Socket_Programs\<close>; here the calls succeed unless what they ask for is not there, and nothing is left
  of an earlier run.  New memory and new semaphore sets are zero.
\<close>

definition hello_line :: string where "hello_line = ''Client message: Hello!'' @ [CHR 0x0A]"

definition hi_line :: string where "hi_line = ''Server message: Hi!'' @ [CHR 0x0A]"

subsection \<open>System V\<close>

datatype sysv_server_at =
  Sv_shmget | Sv_semget | Sv_setall | Sv_attach | Sv_text | Sv_post | Sv_wait | Sv_print |
  Sv_remove_set | Sv_remove_segment | Sv_ended nat

datatype sysv_client_at =
  Cl_shmget | Cl_semget | Cl_attach | Cl_wait | Cl_print | Cl_text | Cl_post | Cl_ended nat

record sysv_pair =
  segment :: bool
  sem_set :: bool
  sv_text :: string
  cl_text :: string
  sv_ready :: nat
  cl_ready :: nat
  at_sv :: sysv_server_at
  at_cl :: sysv_client_at
  sv_shown :: string
  cl_shown :: string

definition sysv_start :: sysv_pair where
  "sysv_start = \<lparr>segment = False, sem_set = False, sv_text = [], cl_text = [], sv_ready = 0, cl_ready = 0,
     at_sv = Sv_shmget, at_cl = Cl_shmget, sv_shown = [], cl_shown = []\<rparr>"

text \<open>
  \<^verbatim>\<open>semaphore_wait\<close> takes one from the value or sleeps, \<^verbatim>\<open>semaphore_post\<close> adds one.  A step is \<open>None\<close>
  where the process sleeps or has ended.
\<close>

definition semop_wait :: "nat \<Rightarrow> nat option" where
  "semop_wait v = (if v = 0 then None else Some (v - 1))"

definition semop_post :: "nat \<Rightarrow> nat" where
  "semop_post v = v + 1"

definition sysv_server_step :: "sysv_pair \<Rightarrow> sysv_pair option" where
  "sysv_server_step s =
     (case at_sv s of
        Sv_shmget \<Rightarrow> Some (s\<lparr>segment := True, at_sv := Sv_semget\<rparr>)
      | Sv_semget \<Rightarrow> Some (s\<lparr>sem_set := True, at_sv := Sv_setall\<rparr>)
      | Sv_setall \<Rightarrow> Some (s\<lparr>sv_ready := 0, cl_ready := 0, at_sv := Sv_attach\<rparr>)
      | Sv_attach \<Rightarrow> Some (s\<lparr>at_sv := Sv_text\<rparr>)
      | Sv_text \<Rightarrow> Some (s\<lparr>sv_text := ''Hi!'', cl_text := [], at_sv := Sv_post\<rparr>)
      | Sv_post \<Rightarrow> Some (s\<lparr>sv_ready := semop_post (sv_ready s), at_sv := Sv_wait\<rparr>)
      | Sv_wait \<Rightarrow> (case semop_wait (cl_ready s) of None \<Rightarrow> None | Some n \<Rightarrow> Some (s\<lparr>cl_ready := n, at_sv := Sv_print\<rparr>))
      | Sv_print \<Rightarrow> Some (s\<lparr>sv_shown := sv_shown s @ ''Client message: '' @ cl_text s @ [CHR 0x0A], at_sv := Sv_remove_set\<rparr>)
      | Sv_remove_set \<Rightarrow> Some (s\<lparr>sem_set := False, at_sv := Sv_remove_segment\<rparr>)
      | Sv_remove_segment \<Rightarrow> Some (s\<lparr>segment := False, at_sv := Sv_ended 0\<rparr>)
      | Sv_ended _ \<Rightarrow> None)"

definition sysv_client_step :: "sysv_pair \<Rightarrow> sysv_pair option" where
  "sysv_client_step s =
     (case at_cl s of
        Cl_shmget \<Rightarrow> Some (s\<lparr>at_cl := if segment s then Cl_semget else Cl_ended 1\<rparr>)
      | Cl_semget \<Rightarrow> Some (s\<lparr>at_cl := if sem_set s then Cl_attach else Cl_ended 1\<rparr>)
      | Cl_attach \<Rightarrow> Some (s\<lparr>at_cl := if segment s then Cl_wait else Cl_ended 1\<rparr>)
      | Cl_wait \<Rightarrow>
          (if \<not> sem_set s then Some (s\<lparr>at_cl := Cl_ended 1\<rparr>)
           else case semop_wait (sv_ready s) of None \<Rightarrow> None | Some n \<Rightarrow> Some (s\<lparr>sv_ready := n, at_cl := Cl_print\<rparr>))
      | Cl_print \<Rightarrow> Some (s\<lparr>cl_shown := cl_shown s @ ''Server message: '' @ sv_text s @ [CHR 0x0A], at_cl := Cl_text\<rparr>)
      | Cl_text \<Rightarrow> Some (s\<lparr>cl_text := ''Hello!'', at_cl := Cl_post\<rparr>)
      | Cl_post \<Rightarrow>
          Some (if sem_set s then s\<lparr>cl_ready := semop_post (cl_ready s), at_cl := Cl_ended 0\<rparr> else s\<lparr>at_cl := Cl_ended 1\<rparr>)
      | Cl_ended _ \<Rightarrow> None)"

text \<open>How far each of the two is, and what holds there.\<close>

primrec sv_place :: "sysv_server_at \<Rightarrow> nat" where
  "sv_place Sv_shmget = 0"
| "sv_place Sv_semget = 1"
| "sv_place Sv_setall = 2"
| "sv_place Sv_attach = 3"
| "sv_place Sv_text = 4"
| "sv_place Sv_post = 5"
| "sv_place Sv_wait = 6"
| "sv_place Sv_print = 7"
| "sv_place Sv_remove_set = 8"
| "sv_place Sv_remove_segment = 9"
| "sv_place (Sv_ended _) = 10"

primrec cl_place :: "sysv_client_at \<Rightarrow> nat" where
  "cl_place Cl_shmget = 0"
| "cl_place Cl_semget = 1"
| "cl_place Cl_attach = 2"
| "cl_place Cl_wait = 3"
| "cl_place Cl_print = 4"
| "cl_place Cl_text = 5"
| "cl_place Cl_post = 6"
| "cl_place (Cl_ended _) = 7"

text \<open>The rest of the state follows from the two places; not all pairs of places are met.
  \<open>late\<close> is a client that starts when the set of semaphores is there.\<close>

definition met :: "sysv_client_at \<Rightarrow> bool" where
  "met c \<longleftrightarrow> 4 \<le> cl_place c \<and> c \<noteq> Cl_ended 1"

definition sysv_at :: "sysv_server_at \<Rightarrow> sysv_client_at \<Rightarrow> sysv_pair" where
  "sysv_at p c =
     \<lparr>segment = (1 \<le> sv_place p \<and> sv_place p \<le> 9),
      sem_set = (2 \<le> sv_place p \<and> sv_place p \<le> 8),
      sv_text = (if 5 \<le> sv_place p then ''Hi!'' else []),
      cl_text = (if met c \<and> 6 \<le> cl_place c then ''Hello!'' else []),
      sv_ready = (if 6 \<le> sv_place p \<and> \<not> met c then 1 else 0),
      cl_ready = (if c = Cl_ended 0 \<and> sv_place p \<le> 6 then 1 else 0),
      at_sv = p, at_cl = c,
      sv_shown = (if 8 \<le> sv_place p then hello_line else []),
      cl_shown = (if met c \<and> 5 \<le> cl_place c then hi_line else [])\<rparr>"

definition sysv_places :: "bool \<Rightarrow> sysv_server_at \<Rightarrow> sysv_client_at \<Rightarrow> bool" where
  "sysv_places late p c \<longleftrightarrow>
     (late \<longrightarrow> 2 \<le> sv_place p \<and> c \<noteq> Cl_ended 1) \<and>
     (case c of Cl_shmget \<Rightarrow> True | Cl_semget \<Rightarrow> 1 \<le> sv_place p | Cl_attach \<Rightarrow> 2 \<le> sv_place p | Cl_wait \<Rightarrow> 2 \<le> sv_place p
      | Cl_ended n \<Rightarrow> n = 1 \<or> n = 0 \<and> 6 \<le> sv_place p | _ \<Rightarrow> 6 \<le> sv_place p) \<and>
     (7 \<le> sv_place p \<longrightarrow> c = Cl_ended 0) \<and>
     (case p of Sv_ended n \<Rightarrow> n = 0 | _ \<Rightarrow> True)"

definition sysv_inv :: "bool \<Rightarrow> sysv_pair \<Rightarrow> bool" where
  "sysv_inv late s \<longleftrightarrow> s = sysv_at (at_sv s) (at_cl s) \<and> sysv_places late (at_sv s) (at_cl s)"

definition sysv_left :: "sysv_pair \<Rightarrow> nat" where
  "sysv_left s = (10 - sv_place (at_sv s)) + (7 - cl_place (at_cl s))"

text \<open>Both have said and read what they were to; or the client came too early and the server waits for it.\<close>

definition sysv_final :: "bool \<Rightarrow> sysv_pair \<Rightarrow> bool" where
  "sysv_final late s \<longleftrightarrow>
     at_sv s = Sv_ended 0 \<and> at_cl s = Cl_ended 0 \<and> sv_shown s = hello_line \<and> cl_shown s = hi_line \<and>
       \<not> segment s \<and> \<not> sem_set s \<or>
     \<not> late \<and> at_sv s = Sv_wait \<and> at_cl s = Cl_ended 1 \<and> sv_shown s = [] \<and> cl_shown s = []"

lemmas sysv_defs = sysv_inv_def sysv_left_def sysv_at_def sysv_places_def met_def hello_line_def hi_line_def
  semop_wait_def semop_post_def

lemma sysv_server_keeps:
  assumes "sysv_places late p c"
  shows "case sysv_server_step (sysv_at p c) of None \<Rightarrow> True
    | Some s' \<Rightarrow> sysv_inv late s' \<and> sysv_left s' < sysv_left (sysv_at p c)"
  using assms by (cases p; cases c) (auto simp: sysv_server_step_def sysv_defs)

lemma sysv_client_keeps:
  assumes "sysv_places late p c"
  shows "case sysv_client_step (sysv_at p c) of None \<Rightarrow> True
    | Some s' \<Rightarrow> sysv_inv late s' \<and> sysv_left s' < sysv_left (sysv_at p c)"
  using assms by (cases c; cases p) (auto simp: sysv_client_step_def sysv_defs)

lemma sysv_stops:
  assumes "sysv_places late p c" "stopped sysv_server_step sysv_client_step (sysv_at p c)"
  shows "sysv_final late (sysv_at p c)"
  using assms by (cases p; cases c)
    (auto simp: stopped_def sysv_server_step_def sysv_client_step_def sysv_final_def sysv_defs)

interpretation sysv: two_processes sysv_server_step sysv_client_step "sysv_inv late" sysv_left "sysv_final late" for late
proof (unfold_locales, goal_cases)
  case (1 s s')
  then show ?case using sysv_server_keeps [of late "at_sv s" "at_cl s"] by (simp add: sysv_inv_def [of _ s])
next
  case (2 s s')
  then show ?case using sysv_client_keeps [of late "at_sv s" "at_cl s"] by (simp add: sysv_inv_def [of _ s])
next
  case (3 s)
  then show ?case using sysv_stops [of late "at_sv s" "at_cl s"] by (simp add: sysv_inv_def)
qed

text \<open>Only a whole text is ever shown.\<close>

lemma sysv_shown_whole: "sysv_inv late s \<Longrightarrow> cl_shown s \<in> {[], hi_line} \<and> sv_shown s \<in> {[], hello_line}"
proof -
  assume "sysv_inv late s"
  then have "cl_shown s = cl_shown (sysv_at (at_sv s) (at_cl s))" "sv_shown s = sv_shown (sysv_at (at_sv s) (at_cl s))"
    by (metis sysv_inv_def)+
  then show ?thesis by (auto simp: sysv_at_def)
qed

lemma sysv_start_at: "sysv_start = sysv_at Sv_shmget Cl_shmget"
  by (simp add: sysv_start_def sysv_at_def met_def)

text \<open>
  Property C38.  Server and client of the System V pair, in every order of their calls, the client
  started when the server is at any place up to its wait: there are at most 17 steps; nothing but the
  whole texts is ever printed; and when neither can go on, both have returned 0, the client has
  printed the server's text, the server the client's, and segment and semaphores are gone; or, only
  if the client started before the server had its semaphores, the client has given up with 1 and the
  server waits for one.
\<close>

theorem sysv_exchange_ends:
  assumes "sv_place p \<le> 6" "interleaved sysv_server_step sysv_client_step (sysv_at p Cl_shmget) n s"
  shows "n \<le> 17 \<and> cl_shown s \<in> {[], hi_line} \<and> sv_shown s \<in> {[], hello_line} \<and>
    (stopped sysv_server_step sysv_client_step s \<longrightarrow>
       at_sv s = Sv_ended 0 \<and> at_cl s = Cl_ended 0 \<and> sv_shown s = hello_line \<and> cl_shown s = hi_line \<and>
         \<not> segment s \<and> \<not> sem_set s \<or>
       sv_place p < 2 \<and> at_sv s = Sv_wait \<and> at_cl s = Cl_ended 1)"
proof -
  have i: "sysv_inv (2 \<le> sv_place p) (sysv_at p Cl_shmget)"
    using assms(1) by (cases p) (auto simp: sysv_inv_def sysv_at_def sysv_places_def)
  have l: "sysv_left (sysv_at p Cl_shmget) \<le> 17" by (simp add: sysv_left_def sysv_at_def)
  have r: "sysv_inv (2 \<le> sv_place p) s" "n \<le> sysv_left (sysv_at p Cl_shmget)"
    "stopped sysv_server_step sysv_client_step s \<longrightarrow> sysv_final (2 \<le> sv_place p) s"
    using sysv.runs_to_final [OF assms(2) i] by blast+
  show ?thesis using sysv_shown_whole [OF r(1)] l r(2,3) by (auto simp: sysv_final_def)
qed

lemma sysv_exchange_ends_witness:
  "case scheduled sysv_server_step sysv_client_step
     (replicate 3 True @ replicate 3 False @ replicate 3 True @ replicate 4 False @ replicate 4 True) sysv_start of
     None \<Rightarrow> False
   | Some s \<Rightarrow> stopped sysv_server_step sysv_client_step s \<and> cl_shown s = hi_line"
proof -
  define bs where "bs = replicate 3 True @ replicate 3 False @ replicate 3 True @ replicate 4 False @ replicate 4 True"
  obtain s where s: "scheduled sysv_server_step sysv_client_step bs sysv_start = Some s"
    "stopped sysv_server_step sysv_client_step s" "at_sv s \<noteq> Sv_wait"
  proof -
    have "case scheduled sysv_server_step sysv_client_step bs sysv_start of None \<Rightarrow> False
      | Some s \<Rightarrow> stopped sysv_server_step sysv_client_step s \<and> at_sv s \<noteq> Sv_wait"
      unfolding bs_def stopped_def by code_simp
    then show thesis using that by (auto split: option.splits)
  qed
  have "interleaved sysv_server_step sysv_client_step (sysv_at Sv_shmget Cl_shmget) (length bs) s"
    using schedule_runs [OF s(1)] by (simp add: sysv_start_at)
  from sysv_exchange_ends [OF _ this] s show ?thesis unfolding bs_def by simp
qed

subsection \<open>POSIX\<close>

text \<open>
  The two semaphores are in the memory: \<open>None\<close> is a semaphore that \<^verbatim>\<open>sem_init\<close> has not made (the
  object may not even have its size yet), and to wait for it or to post it is \<open>Pc_undefined\<close>.
  \<^verbatim>\<open>munmap\<close> and \<^verbatim>\<open>close\<close>, which only the process itself notices, are left to \<open>Socket_Programs\<close>.
\<close>

datatype posix_server_at =
  Ps_unlink | Ps_open | Ps_truncate | Ps_map | Ps_clear | Ps_init_server | Ps_init_client | Ps_text |
  Ps_post | Ps_wait | Ps_print | Ps_destroy_server | Ps_destroy_client | Ps_unlink_again | Ps_ended nat

datatype posix_client_at =
  Pc_open | Pc_map | Pc_wait | Pc_print | Pc_text | Pc_post | Pc_ended nat | Pc_undefined

record posix_pair =
  named :: bool
  server_ready :: "nat option"
  client_ready :: "nat option"
  ps_text :: string
  pc_text :: string
  at_ps :: posix_server_at
  at_pc :: posix_client_at
  ps_shown :: string
  pc_shown :: string

definition posix_start :: posix_pair where
  "posix_start = \<lparr>named = False, server_ready = None, client_ready = None, ps_text = [], pc_text = [],
     at_ps = Ps_unlink, at_pc = Pc_open, ps_shown = [], pc_shown = []\<rparr>"

definition posix_server_step :: "posix_pair \<Rightarrow> posix_pair option" where
  "posix_server_step s =
     (case at_ps s of
        Ps_unlink \<Rightarrow> Some (s\<lparr>named := False, at_ps := Ps_open\<rparr>)
      | Ps_open \<Rightarrow> Some (s\<lparr>named := True, at_ps := Ps_truncate\<rparr>)
      | Ps_truncate \<Rightarrow> Some (s\<lparr>at_ps := Ps_map\<rparr>)
      | Ps_map \<Rightarrow> Some (s\<lparr>at_ps := Ps_clear\<rparr>)
      | Ps_clear \<Rightarrow> Some (s\<lparr>ps_text := [], pc_text := [], at_ps := Ps_init_server\<rparr>)
      | Ps_init_server \<Rightarrow> Some (s\<lparr>server_ready := Some 0, at_ps := Ps_init_client\<rparr>)
      | Ps_init_client \<Rightarrow> Some (s\<lparr>client_ready := Some 0, at_ps := Ps_text\<rparr>)
      | Ps_text \<Rightarrow> Some (s\<lparr>ps_text := ''Hi!'', at_ps := Ps_post\<rparr>)
      | Ps_post \<Rightarrow> Some (s\<lparr>client_ready := map_option Suc (client_ready s), at_ps := Ps_wait\<rparr>)
      | Ps_wait \<Rightarrow>
          (case server_ready s of Some (Suc n) \<Rightarrow> Some (s\<lparr>server_ready := Some n, at_ps := Ps_print\<rparr>) | _ \<Rightarrow> None)
      | Ps_print \<Rightarrow> Some (s\<lparr>ps_shown := ps_shown s @ ''Client message: '' @ pc_text s @ [CHR 0x0A], at_ps := Ps_destroy_server\<rparr>)
      | Ps_destroy_server \<Rightarrow> Some (s\<lparr>server_ready := None, at_ps := Ps_destroy_client\<rparr>)
      | Ps_destroy_client \<Rightarrow> Some (s\<lparr>client_ready := None, at_ps := Ps_unlink_again\<rparr>)
      | Ps_unlink_again \<Rightarrow> Some (s\<lparr>named := False, at_ps := Ps_ended 0\<rparr>)
      | Ps_ended _ \<Rightarrow> None)"

definition posix_client_step :: "posix_pair \<Rightarrow> posix_pair option" where
  "posix_client_step s =
     (case at_pc s of
        Pc_open \<Rightarrow> Some (s\<lparr>at_pc := if named s then Pc_map else Pc_ended 1\<rparr>)
      | Pc_map \<Rightarrow> Some (s\<lparr>at_pc := Pc_wait\<rparr>)
      | Pc_wait \<Rightarrow>
          (case client_ready s of
             None \<Rightarrow> Some (s\<lparr>at_pc := Pc_undefined\<rparr>)
           | Some 0 \<Rightarrow> None
           | Some (Suc n) \<Rightarrow> Some (s\<lparr>client_ready := Some n, at_pc := Pc_print\<rparr>))
      | Pc_print \<Rightarrow> Some (s\<lparr>pc_shown := pc_shown s @ ''Server message: '' @ ps_text s @ [CHR 0x0A], at_pc := Pc_text\<rparr>)
      | Pc_text \<Rightarrow> Some (s\<lparr>pc_text := ''Hello!'', at_pc := Pc_post\<rparr>)
      | Pc_post \<Rightarrow>
          (case server_ready s of
             None \<Rightarrow> Some (s\<lparr>at_pc := Pc_undefined\<rparr>)
           | Some n \<Rightarrow> Some (s\<lparr>server_ready := Some (Suc n), at_pc := Pc_ended 0\<rparr>))
      | Pc_ended _ \<Rightarrow> None
      | Pc_undefined \<Rightarrow> None)"

primrec ps_place :: "posix_server_at \<Rightarrow> nat" where
  "ps_place Ps_unlink = 0"
| "ps_place Ps_open = 1"
| "ps_place Ps_truncate = 2"
| "ps_place Ps_map = 3"
| "ps_place Ps_clear = 4"
| "ps_place Ps_init_server = 5"
| "ps_place Ps_init_client = 6"
| "ps_place Ps_text = 7"
| "ps_place Ps_post = 8"
| "ps_place Ps_wait = 9"
| "ps_place Ps_print = 10"
| "ps_place Ps_destroy_server = 11"
| "ps_place Ps_destroy_client = 12"
| "ps_place Ps_unlink_again = 13"
| "ps_place (Ps_ended _) = 14"

primrec pc_place :: "posix_client_at \<Rightarrow> nat" where
  "pc_place Pc_open = 0"
| "pc_place Pc_map = 1"
| "pc_place Pc_wait = 2"
| "pc_place Pc_print = 3"
| "pc_place Pc_text = 4"
| "pc_place Pc_post = 5"
| "pc_place (Pc_ended _) = 6"
| "pc_place Pc_undefined = 6"

definition heard :: "posix_client_at \<Rightarrow> bool" where
  "heard c \<longleftrightarrow> 3 \<le> pc_place c \<and> c \<noteq> Pc_ended 1 \<and> c \<noteq> Pc_undefined"

definition posix_at :: "posix_server_at \<Rightarrow> posix_client_at \<Rightarrow> posix_pair" where
  "posix_at p c =
     \<lparr>named = (2 \<le> ps_place p \<and> ps_place p \<le> 13),
      server_ready = (if 6 \<le> ps_place p \<and> ps_place p \<le> 11
        then Some (if c = Pc_ended 0 \<and> ps_place p \<le> 9 then 1 else 0) else None),
      client_ready = (if 7 \<le> ps_place p \<and> ps_place p \<le> 12
        then Some (if 9 \<le> ps_place p \<and> \<not> heard c then 1 else 0) else None),
      ps_text = (if 8 \<le> ps_place p then ''Hi!'' else []),
      pc_text = (if heard c \<and> 5 \<le> pc_place c then ''Hello!'' else []),
      at_ps = p, at_pc = c,
      ps_shown = (if 11 \<le> ps_place p then hello_line else []),
      pc_shown = (if heard c \<and> 4 \<le> pc_place c then hi_line else [])\<rparr>"

text \<open>\<open>late\<close> is a client that starts when both semaphores are made.\<close>

definition posix_places :: "bool \<Rightarrow> posix_server_at \<Rightarrow> posix_client_at \<Rightarrow> bool" where
  "posix_places late p c \<longleftrightarrow>
     (late \<longrightarrow> 7 \<le> ps_place p \<and> c \<noteq> Pc_ended 1 \<and> c \<noteq> Pc_undefined) \<and>
     (case c of Pc_open \<Rightarrow> True | Pc_map \<Rightarrow> 2 \<le> ps_place p | Pc_wait \<Rightarrow> 2 \<le> ps_place p | Pc_undefined \<Rightarrow> 2 \<le> ps_place p
      | Pc_ended n \<Rightarrow> n = 1 \<or> n = 0 \<and> 9 \<le> ps_place p | _ \<Rightarrow> 9 \<le> ps_place p) \<and>
     (10 \<le> ps_place p \<longrightarrow> c = Pc_ended 0) \<and>
     (case p of Ps_ended n \<Rightarrow> n = 0 | _ \<Rightarrow> True)"

definition posix_inv :: "bool \<Rightarrow> posix_pair \<Rightarrow> bool" where
  "posix_inv late s \<longleftrightarrow> s = posix_at (at_ps s) (at_pc s) \<and> posix_places late (at_ps s) (at_pc s)"

definition posix_left :: "posix_pair \<Rightarrow> nat" where
  "posix_left s = (14 - ps_place (at_ps s)) + (6 - pc_place (at_pc s))"

definition posix_final :: "bool \<Rightarrow> posix_pair \<Rightarrow> bool" where
  "posix_final late s \<longleftrightarrow>
     at_ps s = Ps_ended 0 \<and> at_pc s = Pc_ended 0 \<and> ps_shown s = hello_line \<and> pc_shown s = hi_line \<and> \<not> named s \<or>
     \<not> late \<and> at_ps s = Ps_wait \<and> (at_pc s = Pc_ended 1 \<or> at_pc s = Pc_undefined) \<and> ps_shown s = [] \<and> pc_shown s = []"

lemmas posix_defs = posix_inv_def posix_left_def posix_at_def posix_places_def heard_def hello_line_def hi_line_def

lemma posix_server_keeps:
  assumes "posix_places late p c"
  shows "case posix_server_step (posix_at p c) of None \<Rightarrow> True
    | Some s' \<Rightarrow> posix_inv late s' \<and> posix_left s' < posix_left (posix_at p c)"
  using assms by (cases p; cases c) (auto simp: posix_server_step_def posix_defs)

lemma posix_client_keeps:
  assumes "posix_places late p c"
  shows "case posix_client_step (posix_at p c) of None \<Rightarrow> True
    | Some s' \<Rightarrow> posix_inv late s' \<and> posix_left s' < posix_left (posix_at p c)"
  using assms by (cases c; cases p) (auto simp: posix_client_step_def posix_defs)

lemma posix_stops:
  assumes "posix_places late p c" "stopped posix_server_step posix_client_step (posix_at p c)"
  shows "posix_final late (posix_at p c)"
  using assms by (cases p; cases c)
    (auto simp: stopped_def posix_server_step_def posix_client_step_def posix_final_def posix_defs)

interpretation posix: two_processes posix_server_step posix_client_step "posix_inv late" posix_left "posix_final late" for late
proof (unfold_locales, goal_cases)
  case (1 s s')
  then show ?case using posix_server_keeps [of late "at_ps s" "at_pc s"] by (simp add: posix_inv_def [of _ s])
next
  case (2 s s')
  then show ?case using posix_client_keeps [of late "at_ps s" "at_pc s"] by (simp add: posix_inv_def [of _ s])
next
  case (3 s)
  then show ?case using posix_stops [of late "at_ps s" "at_pc s"] by (simp add: posix_inv_def)
qed

lemma posix_shown_whole: "posix_inv late s \<Longrightarrow> pc_shown s \<in> {[], hi_line} \<and> ps_shown s \<in> {[], hello_line}"
proof -
  assume "posix_inv late s"
  then have "pc_shown s = pc_shown (posix_at (at_ps s) (at_pc s))" "ps_shown s = ps_shown (posix_at (at_ps s) (at_pc s))"
    by (metis posix_inv_def)+
  then show ?thesis by (auto simp: posix_at_def)
qed

lemma posix_start_at: "posix_start = posix_at Ps_unlink Pc_open"
  by (simp add: posix_start_def posix_at_def heard_def)

text \<open>
  Property C37.  The POSIX pair, in every order of calls, the client started when the server is at any
  place up to its wait: there are at most 20 steps and only whole texts are printed.  A client that
  starts when the server has made its semaphores always gets the text, and both return 0 with each
  other's text printed and the name removed.  An earlier one may also give up with 1, or use a
  semaphore that is not made yet; then the server waits for ever.
\<close>

theorem posix_exchange_ends:
  assumes "ps_place p \<le> 9" "interleaved posix_server_step posix_client_step (posix_at p Pc_open) n s"
  shows "n \<le> 20 \<and> pc_shown s \<in> {[], hi_line} \<and> ps_shown s \<in> {[], hello_line} \<and>
    (7 \<le> ps_place p \<longrightarrow> at_pc s \<noteq> Pc_undefined) \<and>
    (stopped posix_server_step posix_client_step s \<longrightarrow>
       at_ps s = Ps_ended 0 \<and> at_pc s = Pc_ended 0 \<and> ps_shown s = hello_line \<and> pc_shown s = hi_line \<and> \<not> named s \<or>
       ps_place p < 7 \<and> at_ps s = Ps_wait \<and> (at_pc s = Pc_ended 1 \<or> at_pc s = Pc_undefined))"
proof -
  have i: "posix_inv (7 \<le> ps_place p) (posix_at p Pc_open)"
    using assms(1) by (cases p) (auto simp: posix_inv_def posix_at_def posix_places_def)
  have l: "posix_left (posix_at p Pc_open) \<le> 20" by (simp add: posix_left_def posix_at_def)
  have r: "posix_inv (7 \<le> ps_place p) s" "n \<le> posix_left (posix_at p Pc_open)"
    "stopped posix_server_step posix_client_step s \<longrightarrow> posix_final (7 \<le> ps_place p) s"
    using posix.runs_to_final [OF assms(2) i] by blast+
  have "7 \<le> ps_place p \<longrightarrow> at_pc s \<noteq> Pc_undefined" using r(1) by (auto simp: posix_inv_def posix_places_def)
  then show ?thesis using posix_shown_whole [OF r(1)] l r(2,3) by (auto simp: posix_final_def)
qed

text \<open>A client between \<^verbatim>\<open>shm_open\<close> and \<^verbatim>\<open>sem_init\<close> of the server.\<close>

definition posix_race :: "bool list" where
  "posix_race = replicate 2 True @ replicate 3 False @ replicate 7 True"

lemma posix_race_stops:
  "case scheduled posix_server_step posix_client_step posix_race posix_start of
     None \<Rightarrow> False | Some s \<Rightarrow> stopped posix_server_step posix_client_step s \<and> at_pc s = Pc_undefined"
  unfolding posix_race_def stopped_def by code_simp

lemma posix_exchange_ends_witness:
  "case scheduled posix_server_step posix_client_step posix_race posix_start of
     None \<Rightarrow> False | Some s \<Rightarrow> at_ps s = Ps_wait \<and> at_pc s = Pc_undefined"
proof -
  obtain s where s: "scheduled posix_server_step posix_client_step posix_race posix_start = Some s"
    "stopped posix_server_step posix_client_step s" "at_pc s = Pc_undefined"
    using posix_race_stops by (auto split: option.splits)
  have "interleaved posix_server_step posix_client_step (posix_at Ps_unlink Pc_open) (length posix_race) s"
    using schedule_runs [OF s(1)] by (simp add: posix_start_at)
  from posix_exchange_ends [OF _ this] s show ?thesis by simp
qed

end
