(* ===== verification/Exercises.thy ===== *)
theory Exercises
  imports C_Text "HOL-Library.Word" "HOL-Library.Monad_Syntax"
begin

text \<open>
  The first exercises of the course: bits of numbers (\<^verbatim>\<open>labs/lab-1\<close>), arrays (\<^verbatim>\<open>labs/lab-2\<close>) and
  pointers (\<^verbatim>\<open>labs/lab-3\<close>).  The programs that ask for the input and print the result are in theory
  \<open>Exercise_Menus\<close>.
\<close>

unbundle bit_operations_syntax

subsection \<open>Bits (lab-1)\<close>

type_synonym uint = "32 word"

definition MAX_BITS :: nat where "MAX_BITS = 32"

definition bit_char :: "bool \<Rightarrow> char" where
  "bit_char b = (if b then CHR ''1'' else CHR ''0'')"

text \<open>The two loops of \<^verbatim>\<open>task1\<close>; the first one does not end when \<open>num\<close> is 0.\<close>

partial_function (option) skip_zeros :: "uint \<Rightarrow> uint \<Rightarrow> uint option" where
  "skip_zeros num m = (if m AND num = 0 then skip_zeros num (drop_bit 1 m) else Some m)"

function write_bits :: "uint \<Rightarrow> uint \<Rightarrow> string" where
  "write_bits num m = (if m \<noteq> 0 then bit_char (num AND m \<noteq> 0) # write_bits num (drop_bit 1 m) else [])"
  by pat_completeness auto
termination
proof (relation "measure (\<lambda>(_, m). unat m)", goal_cases)
  case (2 num m)
  then show ?case unfolding in_measure prod.case unat_drop_bit_eq
    by (simp add: drop_bit_eq_div unat_gt_0)
qed simp

declare write_bits.simps [simp del]

definition task1 :: "uint \<Rightarrow> string option" where
  "task1 num =
     (if num = 0 then Some ''0''
      else do { m \<leftarrow> skip_zeros num (push_bit (MAX_BITS - 1) 1); Some (write_bits num m) })"

text \<open>\<^verbatim>\<open>task2\<close>; its signed argument is the word of its bits.\<close>

function write_all :: "nat \<Rightarrow> uint \<Rightarrow> uint \<Rightarrow> string" where
  "write_all i num m =
     (if i < MAX_BITS then bit_char (num AND m \<noteq> 0) # write_all (i + 1) num (drop_bit 1 m) else [])"
  by pat_completeness auto
termination by (relation "measure (\<lambda>(i, _, _). MAX_BITS - i)") auto

declare write_all.simps [simp del]

definition task2 :: "uint \<Rightarrow> string" where
  "task2 num = (if num = 0 then ''0'' else write_all 0 num (push_bit (MAX_BITS - 1) 1))"

function task3_from :: "nat \<Rightarrow> uint \<Rightarrow> nat" where
  "task3_from k num =
     (if num \<noteq> 0 then task3_from (k + (if num AND 1 \<noteq> 0 then 1 else 0)) (drop_bit 1 num) else k)"
  by pat_completeness auto
termination
proof (relation "measure (\<lambda>(_, num). unat num)", goal_cases)
  case (2 k num)
  then show ?case unfolding in_measure prod.case unat_drop_bit_eq
    by (simp add: drop_bit_eq_div unat_gt_0)
qed simp

declare task3_from.simps [simp del]

definition task3 :: "uint \<Rightarrow> nat" where
  "task3 num = task3_from 0 num"

definition task4 :: "uint \<Rightarrow> 8 word \<Rightarrow> uint" where
  "task4 num byte = (num AND 0xFF00FFFF) OR push_bit (2 * 8) (ucast byte)"

subsection \<open>Binary numerals\<close>

definition bits_text :: "uint \<Rightarrow> nat \<Rightarrow> string" where
  "bits_text num n = map (\<lambda>i. bit_char (bit num i)) (rev [0..<n])"

fun binary_from :: "nat \<Rightarrow> string \<Rightarrow> nat" where
  "binary_from a [] = a"
| "binary_from a (c # s) = binary_from (2 * a + of_bool (c = CHR ''1'')) s"

definition binary :: "string \<Rightarrow> nat" where "binary s = binary_from 0 s"

lemma bits_text_Suc: "bits_text num (Suc n) = bit_char (bit num n) # bits_text num n"
  by (simp add: bits_text_def)

lemma binary_bits_text: "binary_from a (bits_text num n) = a * 2 ^ n + take_bit n (unat num)"
proof (induction n arbitrary: a)
  case (Suc n)
  have "take_bit (Suc n) (unat num) = 2 ^ n * of_bool (bit num n) + take_bit n (unat num)"
    by (simp add: take_bit_Suc_from_most bit_unsigned_iff)
  with Suc show ?case by (simp add: bits_text_Suc bit_char_def algebra_simps)
qed (simp add: bits_text_def)

lemma mask_bit: "k < 32 \<Longrightarrow> num AND push_bit k 1 \<noteq> 0 \<longleftrightarrow> bit num k" for num :: uint
  by (simp add: push_bit_eq_mult and_exp_eq_0_iff_not_bit)

lemma mask_down: "k < 31 \<Longrightarrow> drop_bit 1 (push_bit (Suc k) 1 :: uint) = push_bit k 1"
  by (rule bit_word_eqI) (auto simp: bit_simps)

lemma mask_nonzero: "k < 32 \<Longrightarrow> push_bit k 1 \<noteq> (0 :: uint)"
  by (simp add: push_bit_eq_mult)

lemma write_bits_text: "k < 32 \<Longrightarrow> write_bits num (push_bit k 1) = bits_text num (Suc k)"
proof (induction k)
  case 0
  have "drop_bit 1 (1 :: uint) = 0" by (simp add: drop_bit_eq_div)
  with mask_bit [of 0 num] show ?case
    by (simp add: write_bits.simps [of num 1] write_bits.simps [of num 0] bits_text_Suc) (simp add: bits_text_def)
next
  case (Suc k)
  then show ?case
    using mask_bit [of "Suc k" num] mask_nonzero [of "Suc k"] mask_down [of k]
    by (subst write_bits.simps) (simp add: bits_text_Suc [of num "Suc k"])
qed

lemma skip_zeros_bit:
  "k < 32 \<Longrightarrow> bit num j \<Longrightarrow> j \<le> k \<Longrightarrow> \<forall>i > k. \<not> bit num i \<Longrightarrow>
   \<exists>h \<le> k. skip_zeros num (push_bit k 1) = Some (push_bit h 1) \<and> bit num h \<and> (\<forall>i > h. \<not> bit num i)"
proof (induction k)
  case 0
  then show ?case using mask_bit [of 0 num] by (subst skip_zeros.simps) (simp add: and.commute)
next
  case (Suc k)
  show ?case
  proof (cases "bit num (Suc k)")
    case True
    with Suc.prems mask_bit [of "Suc k" num] show ?thesis
      by (subst skip_zeros.simps) (auto simp: and.commute intro: exI [of _ "Suc k"])
  next
    case False
    then have "j \<le> k" "\<forall>i > k. \<not> bit num i" using Suc.prems by (auto simp: le_Suc_eq) (metis Suc_lessI)
    with Suc obtain h where "h \<le> k" "skip_zeros num (push_bit k 1) = Some (push_bit h 1)"
      "bit num h" "\<forall>i > h. \<not> bit num i" by auto
    moreover have "skip_zeros num (push_bit (Suc k) 1) = skip_zeros num (push_bit k 1)"
      using False Suc.prems(1) mask_bit [of "Suc k" num] mask_down [of k]
      by (subst skip_zeros.simps) (simp add: and.commute)
    ultimately show ?thesis by (auto intro: le_SucI)
  qed
qed

lemma top_bit: "\<forall>i > h. \<not> bit num i \<Longrightarrow> take_bit (Suc h) (unat num) = unat num" for num :: uint
  by (rule bit_eqI) (metis bit_take_bit_iff bit_unsigned_iff not_less_eq)

lemma task3_from_sum: "unat num < 2 ^ n \<Longrightarrow> task3_from k num = k + (\<Sum>i<n. of_bool (bit num i))"
proof (induction n arbitrary: num k)
  case 0
  then show ?case by (simp add: unat_eq_0 task3_from.simps [of k 0])
next
  case (Suc n)
  have half: "unat (drop_bit 1 num) < 2 ^ n"
    unfolding unat_drop_bit_eq using Suc.prems by (simp add: drop_bit_eq_div less_mult_imp_div_less mult.commute)
  have low: "(num AND 1 \<noteq> 0) = bit num 0" using mask_bit [of 0 num] by simp
  have bits: "(\<Sum>i<Suc n. of_bool (bit num i)) = of_bool (bit num 0) + (\<Sum>i<n. of_bool (bit (drop_bit 1 num) i) :: nat)"
    by (subst sum.lessThan_Suc_shift) (simp add: bit_drop_bit_eq)
  have "task3_from k num = task3_from (k + of_bool (bit num 0)) (drop_bit 1 num)"
  proof (cases "num = 0")
    case True
    then show ?thesis by (simp add: task3_from.simps [of _ 0])
  next
    case False
    then show ?thesis by (subst task3_from.simps) (simp add: low)
  qed
  then show ?case by (simp only: bits Suc.IH [OF half] add.assoc)
qed

lemma count_bits_text: "count_list (bits_text num n) (CHR ''1'') = (\<Sum>i<n. of_bool (bit num i))"
  by (induction n) (simp_all add: bits_text_Suc bit_char_def, simp add: bits_text_def)

lemma bits_text_top: "\<forall>i > h. \<not> bit num i \<Longrightarrow> h < n \<Longrightarrow>
  (\<Sum>i<n. of_bool (bit num i)) = (\<Sum>i<Suc h. of_bool (bit num i) :: nat)"
  by (rule sum.mono_neutral_right) auto

lemma task1_digits:
  assumes "num \<noteq> 0"
  shows "\<exists>h < 32. task1 num = Some (bits_text num (Suc h)) \<and> bit num h \<and> (\<forall>i > h. \<not> bit num i)"
proof -
  obtain j where j: "bit num j" using assms by (metis bit_eq_iff bit_0_eq bot_apply bot_bool_def)
  then have "j < 32" using bit_imp_le_length [of num j] by simp
  moreover have "\<forall>i > 31. \<not> bit num i" using bit_imp_le_length [of num] by fastforce
  ultimately obtain h where h: "h \<le> 31" "skip_zeros num (push_bit 31 1) = Some (push_bit h 1)"
    "bit num h" "\<forall>i > h. \<not> bit num i"
    using skip_zeros_bit [of 31 num j] j by auto
  then have "task1 num = Some (bits_text num (Suc h))"
    using assms write_bits_text [of h num] by (simp add: task1_def MAX_BITS_def)
  with h show ?thesis by (intro exI [of _ h]) simp
qed

lemma write_all_text: "k < 32 \<Longrightarrow> write_all (31 - k) num (push_bit k 1) = bits_text num (Suc k)"
proof (induction k)
  case 0
  then show ?case using mask_bit [of 0 num]
    by (simp add: write_all.simps [of 31] write_all.simps [of 32] MAX_BITS_def bits_text_Suc) (simp add: bits_text_def)
next
  case (Suc k)
  have "31 - Suc k + 1 = 31 - k" using Suc.prems by simp
  with Suc show ?case
    using mask_bit [of "Suc k" num] mask_down [of k]
    by (subst write_all.simps) (simp add: MAX_BITS_def bits_text_Suc [of num "Suc k"])
qed

text \<open>The numerals read back.\<close>

lemma numerals_read_back:
  "(\<exists>s. task1 num = Some s \<and> binary s = unat num \<and> set s \<subseteq> {CHR ''0'', CHR ''1''} \<and> length s < 33 \<and>
      (hd s = CHR ''0'') = (num = 0) \<and> task3 num = count_list s (CHR ''1'')) \<and>
   binary (task2 num) = unat num \<and> length (task2 num) = (if num = 0 then 1 else 32)"
proof -
  have chars: "set (bits_text num n) \<subseteq> {CHR ''0'', CHR ''1''}" for n
    by (auto simp: bits_text_def bit_char_def)
  have all: "task2 num = bits_text num 32" if "num \<noteq> 0"
    using that write_all_text [of 31 num] by (simp add: task2_def MAX_BITS_def)
  have size: "unat num < 2 ^ 32" using unsigned_less [of num] by simp
  show ?thesis
  proof (cases "num = 0")
    case True
    then show ?thesis by (simp add: task1_def task2_def task3_def task3_from.simps [of _ 0] binary_def)
  next
    case False
    then obtain h where h: "h < 32" "task1 num = Some (bits_text num (Suc h))" "bit num h" "\<forall>i > h. \<not> bit num i"
      using task1_digits by blast
    moreover have "binary (bits_text num (Suc h)) = unat num"
      unfolding binary_def binary_bits_text using top_bit [OF h(4)] by simp
    moreover have "task3 num = count_list (bits_text num (Suc h)) (CHR ''1'')"
      unfolding task3_def task3_from_sum [OF size] count_bits_text bits_text_top [OF h(4,1)] by simp
    moreover have "hd (bits_text num (Suc h)) \<noteq> CHR ''0''" "length (bits_text num (Suc h)) < 33"
      using h(1,3) by (simp_all add: bits_text_Suc bit_char_def) (simp add: bits_text_def)
    moreover have "binary (task2 num) = unat num"
      unfolding all [OF False] binary_def binary_bits_text using size
      by (simp add: take_bit_nat_eq_self_iff)
    moreover have "length (task2 num) = 32" unfolding all [OF False] by (simp add: bits_text_def)
    ultimately show ?thesis using chars False by (intro conjI exI [of _ "bits_text num (Suc h)"]) auto
  qed
qed

text \<open>
  Property C31.  Numbers in binary.  For every number the first program ends and writes its binary
  numeral, without leading zeros and within the 33 bytes of its buffer; the second one writes all 32
  bits of the two's complement, but for 0; and the third one counts the ones of that numeral.
\<close>

theorem binary_numerals:
  "(\<exists>s. task1 num = Some s \<and> binary s = unat num \<and> set s \<subseteq> {CHR ''0'', CHR ''1''} \<and> length s < 33 \<and>
      (hd s = CHR ''0'') = (num = 0) \<and> task3 num = count_list s (CHR ''1'')) \<and>
   binary (task2 num) = unat num \<and> length (task2 num) = (if num = 0 then 1 else 32)"
  by (rule numerals_read_back)

subsection \<open>Replacing a byte (lab-1 and lab-3)\<close>

text \<open>
  \<^verbatim>\<open>lab-3/src/1.c\<close> writes through a \<^verbatim>\<open>char *\<close>: a number in memory is its four bytes, the low one
  first.
\<close>

definition BYTE_NUM :: nat where "BYTE_NUM = 3"

definition uint_bytes :: "uint \<Rightarrow> 8 word list" where
  "uint_bytes num = map (\<lambda>i. ucast (drop_bit (8 * i) num)) [0..<4]"

definition bytes_uint :: "8 word list \<Rightarrow> uint" where
  "bytes_uint bs = foldr (\<lambda>b num. ucast b OR push_bit 8 num) bs 0"

definition replace_byte :: "uint \<Rightarrow> 8 word \<Rightarrow> uint" where
  "replace_byte num byte = bytes_uint ((uint_bytes num)[BYTE_NUM - 1 := byte])"

lemma task4_bit:
  "bit (task4 num byte) i = (if 16 \<le> i \<and> i < 24 then bit byte (i - 16) else bit num i)"
proof (cases "i < 32")
  case True
  have "(0xFF00FFFF :: uint) = NOT (push_bit 16 (mask 8))" by (simp add: mask_eq_exp_minus_1)
  then have "bit (0xFF00FFFF :: uint) i \<longleftrightarrow> \<not> (16 \<le> i \<and> i < 24)"
    using True by (simp only: bit_not_iff bit_push_bit_iff bit_mask_iff possible_bit_word) auto
  moreover have "bit byte (i - 16) \<Longrightarrow> i < 24" using bit_imp_le_length [of byte "i - 16"] by auto
  ultimately show ?thesis
    using True unfolding task4_def by (auto simp: bit_or_iff bit_and_iff bit_push_bit_iff bit_ucast_iff)
next
  case False
  then show ?thesis using bit_imp_le_length [of "task4 num byte" i] bit_imp_le_length [of num i] by auto
qed

text \<open>
  Both ways to replace the third byte of a number, by masks and through a pointer to
  its bytes, give the same number: bits 16 to 23 are those of the byte, all others are kept.
\<close>

theorem byte_replaced:
  "replace_byte num byte = task4 num byte \<and>
   bit (task4 num byte) i = (if 16 \<le> i \<and> i < 24 then bit byte (i - 16) else bit num i)"
proof -
  have "bit (replace_byte num byte) j = bit (task4 num byte) j" if "j < 32" for j
    using that bit_imp_le_length [of byte "j - 16"] unfolding task4_bit
    by (auto simp: replace_byte_def bytes_uint_def uint_bytes_def BYTE_NUM_def upt_rec bit_simps)
  then have "replace_byte num byte = task4 num byte" by (intro bit_word_eqI) simp
  then show ?thesis by (simp add: task4_bit)
qed

subsection \<open>Arrays (lab-2)\<close>

text \<open>\<^verbatim>\<open>task2_check\<close>: the loop over the first half, for an array of any length.\<close>

function invert_from :: "nat \<Rightarrow> 'a list \<Rightarrow> 'a list" where
  "invert_from i arr =
     (if i < length arr div 2
      then invert_from (i + 1) (arr[i := arr ! (length arr - 1 - i), length arr - 1 - i := arr ! i]) else arr)"
  by pat_completeness auto
termination by (relation "measure (\<lambda>(i, arr). length arr div 2 - i)") auto

declare invert_from.simps [simp del]

lemma invert_from_middle:
  "length a = i \<Longrightarrow> length b = i \<Longrightarrow> invert_from i (a @ m @ b) = a @ rev m @ b"
proof (induction m arbitrary: a b i rule: length_induct)
  case (1 m)
  show ?case
  proof (cases "length m < 2")
    case True
    then have "rev m = m" by (cases m) auto
    moreover have "\<not> i < length (a @ m @ b) div 2" using True 1(2,3) by auto
    ultimately show ?thesis by (subst invert_from.simps) simp
  next
    case False
    then obtain x m' y where m: "m = x # m' @ [y]"
      by (cases m; cases "tl m" rule: rev_cases) auto
    let ?arr = "a @ m @ b"
    have "?arr[i := ?arr ! (length ?arr - 1 - i), length ?arr - 1 - i := ?arr ! i] = (a @ [y]) @ m' @ (x # b)"
      using 1(2,3) by (simp add: m nth_append list_update_append)
    moreover have "i < length ?arr div 2" using 1(2,3) by (simp add: m)
    moreover have "invert_from (i + 1) ((a @ [y]) @ m' @ (x # b)) = (a @ [y]) @ rev m' @ (x # b)"
      using 1(2,3) m by (intro 1(1) [rule_format]) auto
    ultimately show ?thesis by (subst invert_from.simps) (simp add: m)
  qed
qed

lemma invert_rev: "invert_from 0 arr = rev arr"
  using invert_from_middle [of "[]" 0 "[]" arr] by simp

text \<open>\<^verbatim>\<open>task3_check\<close>: the entries of the \<open>n\<close> by \<open>n\<close> array.\<close>

definition triangle :: "int \<Rightarrow> int list list" where
  "triangle n = map (\<lambda>i. map (\<lambda>j. if i < n - 1 \<and> j < n - i - 1 then 0 else 1) [0..n - 1]) [0..n - 1]"

text \<open>\<^verbatim>\<open>task1_check\<close>: the counter runs through the rows.\<close>

definition counted :: "int \<Rightarrow> int list list" where
  "counted n = map (\<lambda>i. map (\<lambda>j. i * n + j + 1) [0..n - 1]) [0..n - 1]"

text \<open>\<^verbatim>\<open>task4_check\<close>: an access outside the array is \<open>None\<close>.\<close>

record spiral =
  sp_arr :: "int list list"
  sp_row :: int
  sp_col :: int
  sp_counter :: int

text \<open>\<^verbatim>\<open>arr[row][col] = counter++\<close>, then \<open>row\<close> and \<open>col\<close> move; \<open>k\<close> times.\<close>

fun spiral_side :: "nat \<Rightarrow> int \<Rightarrow> int \<Rightarrow> spiral \<Rightarrow> spiral option" where
  "spiral_side 0 dr dc s = Some s"
| "spiral_side (Suc k) dr dc s =
     (let r = sp_row s; c = sp_col s; n = int (length (sp_arr s))
      in if 0 \<le> r \<and> r < n \<and> 0 \<le> c \<and> c < n then
           spiral_side k dr dc
             \<lparr>sp_arr = (sp_arr s)[nat r := (sp_arr s ! nat r)[nat c := sp_counter s]],
              sp_row = r + dr, sp_col = c + dc, sp_counter = sp_counter s + 1\<rparr>
         else None)"

definition turn_to :: "int \<Rightarrow> int \<Rightarrow> spiral \<Rightarrow> spiral" where
  "turn_to dr dc s = s\<lparr>sp_row := sp_row s + dr, sp_col := sp_col s + dc\<rparr>"

partial_function (option) spiral_rounds :: "int \<Rightarrow> int \<Rightarrow> spiral \<Rightarrow> int list list option" where
  "spiral_rounds n steps s =
     (if sp_counter s \<le> n * n then
        do { right \<leftarrow> spiral_side (nat steps) 0 1 s;
             down \<leftarrow> spiral_side (nat (steps - 1)) 1 0 (turn_to 1 (-1) right);
             left \<leftarrow> spiral_side (nat (steps - 1)) 0 (-1) (turn_to (-1) (-1) down);
             up \<leftarrow> spiral_side (nat (steps - 2)) (-1) 0 (turn_to (-1) 1 left);
             spiral_rounds n (steps - 2) (turn_to 1 1 up) }
      else Some (sp_arr s))"

definition spiral_array :: "nat \<Rightarrow> int list list option" where
  "spiral_array n =
     spiral_rounds (int n) (int n)
       \<lparr>sp_arr = replicate n (replicate n 0), sp_row = 0, sp_col = 0, sp_counter = 1\<rparr>"

lemma spiral_5:
  "spiral_array 5 = Some
     [[1, 2, 3, 4, 5], [16, 17, 18, 19, 6], [15, 24, 25, 20, 7], [14, 23, 22, 21, 8], [13, 12, 11, 10, 9]]"
  unfolding spiral_array_def
  by (simp add: spiral_rounds.simps eval_nat_numeral turn_to_def Let_def)

subsection \<open>Substrings (lab-3)\<close>

text \<open>The inner loop of \<^verbatim>\<open>find_substr\<close>, up to the test whether the substring is used up, and the outer one.\<close>

fun match_here :: "string \<Rightarrow> string \<Rightarrow> bool" where
  "match_here (c # s) (d # t) \<longleftrightarrow> d = c \<and> match_here s t"
| "match_here s [] \<longleftrightarrow> True"
| "match_here [] (d # t) \<longleftrightarrow> False"

fun find_from :: "nat \<Rightarrow> string \<Rightarrow> string \<Rightarrow> nat option" where
  "find_from i [] sub = None"
| "find_from i (c # s) sub = (if match_here (c # s) sub then Some i else find_from (i + 1) s sub)"

definition find_substr :: "string \<Rightarrow> string \<Rightarrow> nat option" where
  "find_substr str sub = (if sub = [] then Some 0 else find_from 0 str sub)"

lemma match_here_prefix: "match_here s t \<longleftrightarrow> starts_with s t"
  by (induction s t rule: match_here.induct) (auto simp: starts_with_def)

lemma find_from_strstr: "sub \<noteq> [] \<Longrightarrow> find_from i s sub = map_option (\<lambda>k. k + i) (strstr s sub)"
  by (induction i s sub rule: find_from.induct)
    (auto simp: match_here_prefix starts_with_def option.map_comp comp_def)

lemma find_substr_strstr: "find_substr s t = strstr s t"
  by (cases s) (auto simp: find_substr_def find_from_strstr match_here_prefix starts_with_def option.map_ident)

lemma occurs_at: "(\<exists>u v. s = u @ t @ v \<and> length u = i) \<longleftrightarrow> i \<le> length s \<and> starts_with (drop i s) t"
proof
  assume "i \<le> length s \<and> starts_with (drop i s) t"
  then have "t @ drop (length t) (drop i s) = drop i s"
    unfolding starts_with_def by (metis append_take_drop_id)
  with \<open>i \<le> length s \<and> starts_with (drop i s) t\<close>
  have "s = take i s @ t @ drop (length t) (drop i s)" "length (take i s) = i" by simp_all
  then show "\<exists>u v. s = u @ t @ v \<and> length u = i" by blast
qed (auto simp: starts_with_def)

text \<open>
  \<^verbatim>\<open>find_substr\<close> finds the first occurrence of a string in another one, and NULL exactly
  when there is none; the empty string is found at the start.
\<close>

theorem find_substr_first:
  "(find_substr s t = None \<longleftrightarrow> (\<nexists>u v. s = u @ t @ v)) \<and>
   (find_substr s t = Some i \<longleftrightarrow>
      (\<exists>u v. s = u @ t @ v \<and> length u = i) \<and> (\<nexists>u v. s = u @ t @ v \<and> length u < i))"
proof -
  have occ: "(\<exists>u v. s = u @ t @ v) \<longleftrightarrow> (\<exists>j. j \<le> length s \<and> starts_with (drop j s) t)"
    unfolding occurs_at [symmetric] by blast
  have first: "(\<exists>u v. s = u @ t @ v \<and> length u < i) \<longleftrightarrow>
      (\<exists>j < i. j \<le> length s \<and> starts_with (drop j s) t)" for i
    unfolding occurs_at [symmetric] by blast
  have "starts_with (drop j s) t \<Longrightarrow> \<not> j \<le> length s \<Longrightarrow> starts_with (drop (length s) s) t" for j by simp
  then have none: "strstr s t = None \<longleftrightarrow> \<not> (\<exists>j. j \<le> length s \<and> starts_with (drop j s) t)"
    unfolding strstr_None by blast
  have some: "strstr s t = Some k \<Longrightarrow> k \<le> length s \<and> starts_with (drop k s) t \<and>
      \<not> (\<exists>j < k. j \<le> length s \<and> starts_with (drop j s) t)" for k
    using strstr_Some [of s t k] strstr_least [of s t k] by (auto simp: starts_with_def)
  have "strstr s t = Some i \<longleftrightarrow> (i \<le> length s \<and> starts_with (drop i s) t) \<and>
      \<not> (\<exists>j < i. j \<le> length s \<and> starts_with (drop j s) t)"
  proof (cases "strstr s t")
    case None
    with none show ?thesis by auto
  next
    case (Some k)
    with some [OF Some] show ?thesis by (metis linorder_neqE_nat option.inject)
  qed
  then show ?thesis unfolding find_substr_strstr occ first occurs_at none by blast
qed

end
