(* ===== verification/Exercise_Menus.thy ===== *)
theory Exercise_Menus
  imports Exercises
begin

text \<open>
  The programs around the first exercises, \<^verbatim>\<open>labs/lab-1\<close> to \<^verbatim>\<open>lab-3\<close>: each \<^verbatim>\<open>main\<close> asks for the number
  of a task, and the function \<^verbatim>\<open>task<n>_check\<close> asks for the task's input, calls what theory \<open>Exercises\<close>
  models and prints the result.  A program is a function from its input to its output; \<open>None\<close> is a
  number that \<^verbatim>\<open>scanf\<close> does not find or that does not fit, after which the variable it should have
  set is used uninitialised.  Memory is always there for \<^verbatim>\<open>malloc\<close>.
\<close>

subsection \<open>Formats\<close>

definition nl :: string where "nl = [CHR 0x0A]"
definition tab :: string where "tab = [CHR 0x09]"

text \<open>\<^verbatim>\<open>%u\<close>, \<^verbatim>\<open>%d\<close>, \<^verbatim>\<open>%hhx\<close> and \<^verbatim>\<open>%31s\<close> of \<^verbatim>\<open>scanf\<close>.\<close>

definition scanf_u :: "string \<Rightarrow> (uint \<times> string) option" where
  "scanf_u s =
     (case scan_d s of None \<Rightarrow> None
      | Some (v, r) \<Rightarrow> if \<bar>v\<bar> < 2 ^ 32 then Some (word_of_int v, r) else None)"

definition scanf_int :: "string \<Rightarrow> (int \<times> string) option" where
  "scanf_int s =
     (case scan_d s of None \<Rightarrow> None
      | Some (v, r) \<Rightarrow> if - (2 ^ 31) \<le> v \<and> v < 2 ^ 31 then Some (v, r) else None)"

definition hex_val :: "char \<Rightarrow> nat option" where
  "hex_val c =
     (let v = of_char c in
      if 48 \<le> v \<and> v \<le> 57 then Some (v - 48)
      else if 65 \<le> v \<and> v \<le> 70 then Some (v - 55)
      else if 97 \<le> v \<and> v \<le> 102 then Some (v - 87) else None)"

definition scanf_hhx :: "string \<Rightarrow> (8 word \<times> string) option" where
  "scanf_hhx s =
     (let s1 = dropWhile is_space s;
          s2 = (if starts_with s1 ''0x'' \<or> starts_with s1 ''0X'' then drop 2 s1 else s1);
          ds = takeWhile (\<lambda>c. hex_val c \<noteq> None) s2;
          v = foldl (\<lambda>a c. 16 * a + the (hex_val c)) 0 ds
      in if ds = [] \<or> 256 \<le> v then None else Some (of_nat v, drop (length ds) s2))"

definition scanf_word :: "nat \<Rightarrow> string \<Rightarrow> (string \<times> string) option" where
  "scanf_word n s =
     (let s1 = dropWhile is_space s; w = take n (takeWhile (\<lambda>c. \<not> is_space c) s1)
      in if w = [] then None else Some (w, drop (length w) s1))"

text \<open>\<^verbatim>\<open>%u\<close> and \<^verbatim>\<open>%hhx\<close> of \<^verbatim>\<open>printf\<close>.\<close>

definition show_uint :: "uint \<Rightarrow> string" where "show_uint w = show_nat (unat w)"

definition hex_digit :: "nat \<Rightarrow> char" where
  "hex_digit d = (if d < 10 then char_of (48 + d) else char_of (87 + d))"

definition show_hhx :: "8 word \<Rightarrow> string" where
  "show_hhx b = (let v = unat b in if v < 16 then [hex_digit v] else [hex_digit (v div 16), hex_digit (v mod 16)])"

definition ask_task :: "(string \<Rightarrow> string option) \<Rightarrow> (string \<Rightarrow> string option) \<Rightarrow> (string \<Rightarrow> string option) \<Rightarrow>
    (string \<Rightarrow> string option) \<Rightarrow> string \<Rightarrow> string option" where
  "ask_task t1 t2 t3 t4 s = do {
     (n, r) \<leftarrow> scanf_u s;
     out \<leftarrow> (if n = 1 then t1 r else if n = 2 then t2 r else if n = 3 then t3 r else if n = 4 then t4 r
             else Some (''Task: 1 - 4'' @ nl));
     Some (''enter task num (1-4): '' @ out) }"

subsection \<open>lab-1\<close>

definition lab1_task1_check :: "string \<Rightarrow> string option" where
  "lab1_task1_check s = do {
     (num, r) \<leftarrow> scanf_u s;
     result \<leftarrow> task1 num;
     Some (''enter num: '' @ ''result: '' @ result @ nl) }"

definition lab1_task2_check :: "string \<Rightarrow> string option" where
  "lab1_task2_check s = do {
     (num, r) \<leftarrow> scanf_int s;
     Some (''enter -num: '' @ ''result: '' @ task2 (word_of_int num) @ nl) }"

definition lab1_task3_check :: "string \<Rightarrow> string option" where
  "lab1_task3_check s = do {
     (num, r) \<leftarrow> scanf_u s;
     Some (''enter num: '' @ ''count <1>: '' @ show_nat (task3 num) @ nl) }"

definition lab1_task4_check :: "string \<Rightarrow> string option" where
  "lab1_task4_check s = do {
     (num, r) \<leftarrow> scanf_u s;
     (byte, r1) \<leftarrow> scanf_hhx r;
     let result = task4 num byte;
     Some (''enter num: '' @ ''enter byte [AF, F0, 14]: '' @ ''result: '' @ show_uint result @ nl @
           ''before: '' @ task2 num @ nl @ ''after:  '' @ task2 result @ nl) }"

definition lab1_main :: "string \<Rightarrow> string option" where
  "lab1_main = ask_task lab1_task1_check lab1_task2_check lab1_task3_check lab1_task4_check"

subsection \<open>lab-2\<close>

text \<open>The rows of an array, each number followed by \<open>sep\<close>, each row by a newline.\<close>

definition show_rows :: "string \<Rightarrow> int list list \<Rightarrow> string" where
  "show_rows sep a = concat (map (\<lambda>row. concat (map (\<lambda>x. show_int x @ sep) row) @ nl) a)"

definition lab2_task1_check :: "string \<Rightarrow> string option" where
  "lab2_task1_check s = Some (show_rows tab (counted 3))"

fun scanf_ints :: "nat \<Rightarrow> string \<Rightarrow> (int list \<times> string) option" where
  "scanf_ints 0 s = Some ([], s)"
| "scanf_ints (Suc k) s = do { (x, r) \<leftarrow> scanf_int s; (xs, r1) \<leftarrow> scanf_ints k r; Some (x # xs, r1) }"

definition lab2_task2_check :: "string \<Rightarrow> string option" where
  "lab2_task2_check s = do {
     (arr, r) \<leftarrow> scanf_ints 5 s;
     Some (''Enter Array N=[5]: '' @ ''Result -> '' @ concat (map (\<lambda>x. show_int x @ '' '') (invert_from 0 arr)) @ nl) }"

definition lab2_task3_check :: "string \<Rightarrow> string option" where
  "lab2_task3_check s = Some (''Result -> '' @ nl @ show_rows '' '' (triangle 5) @ nl)"

definition lab2_task4_check :: "string \<Rightarrow> string option" where
  "lab2_task4_check s = do {
     arr \<leftarrow> spiral_array 5;
     Some (''Result -> '' @ nl @ show_rows tab arr @ nl) }"

definition lab2_main :: "string \<Rightarrow> string option" where
  "lab2_main = ask_task lab2_task1_check lab2_task2_check lab2_task3_check lab2_task4_check"

subsection \<open>lab-3\<close>

definition lab3_task1_check :: "string \<Rightarrow> string option" where
  "lab3_task1_check s = do {
     (num, r) \<leftarrow> scanf_u s;
     (byte, r1) \<leftarrow> scanf_hhx r;
     let result = replace_byte num byte;
     Some (''enter num: '' @ ''enter byte [AF, F0, 14]: '' @ ''result: '' @ show_uint result @ nl @
           ''Debug bytes (little-endian): '' @ nl @ ''num-> '' @
           concat (map (\<lambda>b. show_hhx b @ '' '') (uint_bytes result)) @ nl) }"

text \<open>The two pointers point to \<open>y\<close>; the values are small integers, exact as \<^verbatim>\<open>float\<close>, and \<^verbatim>\<open>%f\<close> prints six
  digits after the point.  \<open>result_word\<close> is the Russian word for result in UTF-8.\<close>

definition show_f :: "int \<Rightarrow> string" where "show_f v = show_int v @ ''.000000''"

definition result_word :: string where
  "result_word = map char_of [208, 160, 208, 181, 208, 183, 209, 131, 208, 187, 209, 140, 209, 130, 208, 176, 209, 130 :: nat]"

definition lab3_task2_check :: "string \<Rightarrow> string option" where
  "lab3_task2_check s =
     (let x = 5; y = 6; xp = y; yp = y
      in Some (''x = '' @ show_f x @ '', '' @ ''y = '' @ show_f y @ nl @ result_word @ '': '' @ show_f (xp + yp) @ nl))"

definition lab3_task3_check :: "string \<Rightarrow> string option" where
  "lab3_task3_check s =
     Some (''arr -> '' @ concat (map (\<lambda>x. show_int x @ '' '') [1, 2, 3, 4, 5, 6, 7, 8, 9, 10]) @ nl)"

definition lab3_task4_check :: "string \<Rightarrow> string option" where
  "lab3_task4_check s = do {
     (str, r) \<leftarrow> scanf_word 31 s;
     (substr, r1) \<leftarrow> scanf_word 31 r;
     Some (''enter str[32]: '' @ nl @ ''enter substr[32]: '' @
           ''Found: '' @ (case find_substr str substr of None \<Rightarrow> ''(NULL)'' | Some i \<Rightarrow> drop i str) @ nl) }"

definition lab3_main :: "string \<Rightarrow> string option" where
  "lab3_main = ask_task lab3_task1_check lab3_task2_check lab3_task3_check lab3_task4_check"

subsection \<open>What the programs print\<close>

lemma not_digit_blank: "\<not> is_digit (CHR 0x0A)" "\<not> is_digit (CHR 0x20)" "is_space (CHR 0x0A)" "is_space (CHR 0x20)"
  by (simp_all add: is_digit_def is_space_def)

lemma scan_d_show_nat: "r = [] \<or> \<not> is_digit (hd r) \<Longrightarrow> scan_d (show_nat n @ r) = Some (int n, r)"
  using scan_d_show_int [of r "int n"] by (simp add: show_int_def)

lemma scan_d_line: "scan_d (CHR 0x0A # s) = scan_d s"
  using scan_d_spaces [of "[CHR 0x0A]" s] not_digit_blank by simp

lemma scanf_u_typed: "n < 2 ^ 32 \<Longrightarrow> r = [] \<or> \<not> is_digit (hd r) \<Longrightarrow>
    scanf_u (show_nat n @ r) = Some (of_nat n, r)"
  by (simp add: scanf_u_def scan_d_show_nat)

lemma ask_typed:
  assumes "k \<in> {1, 2, 3, 4}"
  shows "ask_task t1 t2 t3 t4 (show_nat k @ CHR 0x0A # s) =
    map_option (\<lambda>out. ''enter task num (1-4): '' @ out) ((if k = 1 then t1 else if k = 2 then t2 else if k = 3 then t3 else t4) (CHR 0x0A # s))"
proof -
  have "scanf_u (show_nat k @ CHR 0x0A # s) = Some (of_nat k, CHR 0x0A # s)"
    using assms by (intro scanf_u_typed) (auto simp: not_digit_blank)
  with assms show ?thesis
    by (auto simp: ask_task_def map_option_case split: option.split)
qed

text \<open>
  The first lab, as a person uses it: for every number its binary numeral is printed, and the
  number of its ones.
\<close>

theorem lab1_programs:
  assumes "n < 2 ^ 32"
  shows "\<exists>s. binary s = n \<and>
      lab1_main (''1'' @ nl @ show_nat n @ nl) = Some (''enter task num (1-4): enter num: result: '' @ s @ nl) \<and>
      lab1_main (''3'' @ nl @ show_nat n @ nl) =
        Some (''enter task num (1-4): enter num: count <1>: '' @ show_nat (count_list s (CHR ''1'')) @ nl)"
proof -
  obtain s where s: "task1 (of_nat n) = Some s" "binary s = unat (of_nat n :: uint)" "task3 (of_nat n) = count_list s (CHR ''1'')"
    using numerals_read_back [of "of_nat n"] by blast
  have n: "unat (of_nat n :: uint) = n" using assms by (simp add: unat_of_nat take_bit_nat_eq_self)
  have typed: "scanf_u (CHR 0x0A # show_nat n @ nl) = Some (of_nat n, nl)"
    using scanf_u_typed [of n nl] assms by (simp add: scanf_u_def scan_d_line nl_def not_digit_blank)
  have one: "show_nat 1 = ''1''" "show_nat 3 = ''3''" by code_simp+
  have "lab1_task1_check (CHR 0x0A # show_nat n @ nl) = Some (''enter num: result: '' @ s @ nl)"
    "lab1_task3_check (CHR 0x0A # show_nat n @ nl) = Some (''enter num: count <1>: '' @ show_nat (count_list s (CHR ''1'')) @ nl)"
    using s by (simp_all add: lab1_task1_check_def lab1_task3_check_def typed)
  then show ?thesis
    using ask_typed [of 1 _ _ _ _ "show_nat n @ nl"] ask_typed [of 3 _ _ _ _ "show_nat n @ nl"] s(2) n
    unfolding one by (intro exI [of _ s]) (simp add: lab1_main_def nl_def)
qed

text \<open>Any five numbers come back in reverse; a word is printed from the first place where the other
  one occurs.\<close>

lemma lab2_reverses:
  "scanf_ints 5 s = Some (arr, r) \<Longrightarrow> lab2_task2_check s =
     Some (''Enter Array N=[5]: Result -> '' @ concat (map (\<lambda>x. show_int x @ '' '') (rev arr)) @ nl)"
  by (simp add: lab2_task2_check_def invert_rev)

lemma lab3_finds:
  assumes "scanf_word 31 s = Some (str, r)" "scanf_word 31 r = Some (sub, r1)"
  shows "lab3_task4_check s = Some (''enter str[32]: '' @ nl @ ''enter substr[32]: Found: '' @
    (case strstr str sub of None \<Rightarrow> ''(NULL)'' | Some i \<Rightarrow> drop i str) @ nl)"
  using assms by (simp add: lab3_task4_check_def find_substr_strstr split: option.split)

end
