(* ===== verification/Spec2Isabelle.thy ===== *)
theory Spec2Isabelle
  imports Chat_Screen Taxi_System Raw_Echo_System Raw_System Time_Service
    Book_List Book_Array Bazaar File_Manager Mc_Ui Shell Processes
    Kernel_Files Signals Calculator Small_Programs Shm_Exchange Exercises Exercise_Menus
begin

text \<open>
  A verification development for the programs of the eltex course: the labs under \<^verbatim>\<open>labs\<close> and the
  final tasks under \<^verbatim>\<open>final-tasks\<close>.  They are separate C programs, most of them small systems of
  processes: chats, time servers, a taxi service, an echo service, phone books, a file manager,
  shells, kernel modules, signal programs.

  How the C code is modelled.  A structure is a record with the fields of the code, an array its list
  of elements with the counter the code keeps, a C string the characters before its NUL, a machine
  integer a word where its width matters and an integer otherwise.  A loop is a recursive function,
  over its index or over what it reads.  What the kernel or a library answers (results of system
  calls, received bytes, keys, random numbers, directories) is an argument of the definitions; what
  the code does to the outside is the list of its calls, or the record \<open>sys\<close> of the straight-line
  programs.  Threads and processes are steps on a shared state, and the theorems about them speak
  of every order of steps.

  The theories.

  \<^item> \<open>Prelude\<close>, \<open>C_Text\<close>, \<open>Bytes\<close>: arrays with a counter (search, shifting, rings, capped histories),
    the string functions of C with decimal numbers in both directions, integers in memory.
  \<^item> \<open>Interfaces\<close>: the locales \<open>bounded_fifo\<close>, \<open>session_table\<close>, \<open>line_editor\<close>, \<open>byte_file\<close> and
    \<open>two_processes\<close>, each with the lemmas its clients use, interpreted by the command ring and the user table of the shared room,
    the client table of the queue server, the table of the echo server, the socket queue of the time
    server, the input fields of both chat clients, the character device and the entry of procfs, a
    pipe and two pairs of programs on shared memory.
  \<^item> \<open>Shm_Room\<close>, \<open>Shm_Client\<close>, \<open>Shm_System\<close> (\<^verbatim>\<open>labs/lab-14/src/chat_server.c\<close>, \<^verbatim>\<open>chat_client.c\<close>,
    \<^verbatim>\<open>include/chat.h\<close>): the chat over a room in shared memory.  Every interleaving of the clients'
    requests and the server's passes refines an abstract chat; a typed line arrives uncut; a client's
    view, with its own keys and failed sends, equals the room and its notices; all resources are given back.
  \<^item> \<open>Mq_Server\<close>, \<open>Mq_Client\<close>, \<open>Mq_System\<close> (\<^verbatim>\<open>labs/lab-13\<close>): the chat over message queues.  The list of
    users that a client reads out of the texts equals the server's table, when no text looks like an
    announcement; one that does adds a user who does not exist.
  \<^item> \<open>Chat_Ui\<close>, \<open>Chat_Screen\<close>: the screen of both chats (\<^verbatim>\<open>chat_ui.c\<close>, the same code in lab-13 and
    lab-14), and what the frames that the clients draw show of the room.
  \<^item> \<open>Taxi_Driver\<close>, \<open>Taxi_Cli\<close>, \<open>Taxi_System\<close> (\<^verbatim>\<open>final-tasks/taxi-cli/src/main.c\<close>): driver processes behind
    pipes, with partial reads and writes, signals and timers, the command line that owns them, and all
    of them together: what a session prints is what an abstract fleet of drivers says.  Stop signals to a
    driver and the hang-up of its pipe are definitions of the model but no part of these refinements.
  \<^item> \<open>Raw_Echo\<close>, \<open>Raw_Echo_System\<close> (\<^verbatim>\<open>final-tasks/raw-echo\<close>): headers byte for byte, the numbering of
    messages per peer, the round trip through both programs.
  \<^item> \<open>Time_Queue\<close>, \<open>Time_Pool\<close>, \<open>Time_Poll\<close> (\<^verbatim>\<open>labs/lab-16/part-2/3\<close>, \<^verbatim>\<open>2\<close>, \<^verbatim>\<open>4\<close>): three concurrent
    servers.  Behind the ring each accepted client is served and closed exactly once, and with the condition
    variables of the ring modelled (sleeping, signalled and spuriously woken threads) no wake-up is lost; reservations are granted as
    promised, and can leak; the poll table keeps its shape and every round handles the ready clients.
  \<^item> \<open>Sockets\<close>, \<open>Raw_Headers\<close>, \<open>Socket_Programs\<close> (the other programs of \<^verbatim>\<open>labs/lab-16\<close>, the exchanges of
    \<^verbatim>\<open>lab-13\<close> and \<^verbatim>\<open>lab-14\<close>, the named pipe of \<^verbatim>\<open>lab-12\<close>): straight-line code over system calls.
    What each of thirty programs leaves behind on every path is stated, names and semaphores included: 26
    leave nothing, four leave something on named paths.  Pairs of them exchange their texts; the
    Internet checksum is the one's complement sum, and the search for an answer in raw frames finds it.
  \<^item> \<open>Raw_System\<close>, \<open>Time_Service\<close>: the raw clients against their server through the loopback interface,
    and the four time servers with their mains, handlers and clients: the line they send reads back as the
    time.  The reply frame of the raw server is taken with a zero UDP checksum, which no program reads.
  \<^item> \<open>Abonent\<close>, \<open>Book_List\<close>, \<open>Book_Array\<close> (\<^verbatim>\<open>labs/lab-6\<close>, \<^verbatim>\<open>lab-4\<close>): the phone books.  The doubly linked
    list lives in a heap of nodes with an arbitrary allocator; it behaves like a list, touches no freed
    memory and frees everything; the array behaves like a list of at most 100 entries.
  \<^item> \<open>Bazaar\<close> (\<^verbatim>\<open>labs/lab-11\<close>): customers and a loader as threads; goods are conserved.
  \<^item> \<open>File_Manager\<close>, \<open>Mc_Ui\<close> (\<^verbatim>\<open>labs/lab-9\<close>): listings, panels, keys, and the screen cell by cell: the
    selected entry is visible on a screen that never shrinks.  The comparison given to \<^verbatim>\<open>qsort\<close> is the linear order of the type
    \<open>rank\<close>.
  \<^item> \<open>Shell\<close> (\<^verbatim>\<open>labs/lab-10/src/3.c\<close>, \<^verbatim>\<open>lab-12/src/3.c\<close>), \<open>Processes\<close> (\<^verbatim>\<open>lab-10/src/1.c\<close>, \<^verbatim>\<open>2.c\<close>): pipelines
    with the descriptors of their children, children that are all waited for, process trees in every
    interleaving.
  \<^item> \<open>Kernel_Files\<close> (\<^verbatim>\<open>labs/lab-20\<close>): the kernel modules with a character device, an entry of procfs and
    an attribute of sysfs: what is written is read back by any reader, within the size of the buffers.
  \<^item> \<open>Signals\<close> (\<^verbatim>\<open>labs/lab-15\<close>): processes with masks and pending signals as a step relation; SIGUSR1 is
    answered in every order of arrivals and whatever the flags of the handler are, SIGINT is not delivered, the sender reaches the receiver.
  \<^item> \<open>Calculator\<close> (\<^verbatim>\<open>labs/lab-7\<close>, \<^verbatim>\<open>lab-8\<close>): typed tasks are answered by the exact results that fit.
  \<^item> \<open>Small_Programs\<close> (\<^verbatim>\<open>labs/lab-12/src/1.c\<close>, \<^verbatim>\<open>lab-9/src/part1.c\<close>, \<^verbatim>\<open>lab-5\<close>): parent and child on a pipe
    in every interleaving, a file read backwards, a password in an array of 12 bytes.
  \<^item> \<open>Shm_Exchange\<close> (\<^verbatim>\<open>labs/lab-14/src/sysv_*.c\<close>, \<^verbatim>\<open>posix_*.c\<close>): server and client of the two exchanges
    over shared memory together, call by call in every order; the locale \<open>two_processes\<close> of
    \<open>Interfaces\<close> serves them and the pipe of \<open>Small_Programs\<close>.
  \<^item> \<open>Exercises\<close>, \<open>Exercise_Menus\<close> (\<^verbatim>\<open>labs/lab-1\<close>, \<^verbatim>\<open>lab-2\<close>, \<^verbatim>\<open>lab-3\<close>): binary numerals, bytes of a number,
    arrays, substrings, and the programs around them from input to output.

  Bounds and fuel.  The sizes of the code are constants (16 users and 64 messages of the chats, 32
  commands in the ring of lab-14, 32 drivers, 32 peers of the echo server, 32 clients in the poll table, 100
  entries, 2048 files).  Runs of servers are over lists of events, or of the
  answers of the kernel, of any length; the end of such a list is the moment at which one looks.  Only
  \<open>abonent_handbook\<close> has fuel: \<open>book_list_ends\<close> shows that one round per character of the input, and
  one more, are enough when the program ends at all.  Loops that may not end are partial functions
  with the value \<open>None\<close>, and where they end that is proved (\<open>size_from\<close> and the other loops over a
  list of nodes, \<open>skip_zeros\<close>, the loops \<open>read_all\<close> and \<open>put_all\<close> over a file, \<open>calc_main\<close>).  All other functions terminate by their measures.

  What modelling showed.  Texts of users are parsed as control messages (lab-13).  A leave request is
  lost when the ring is full, and a full room announces users it does not admit (lab-14).  The message
  pane shows the oldest messages.  A failing second pipe leaks the first one (taxi); the POSIX queue server
  leaves its names when a message fails (lab-13).  Length fields are
  trusted: a short one makes the echo server answer with stale bytes, a long one makes the raw clients
  write outside their array.  Reservations of the worker pool leak.  Names in uninitialised buffers are
  compared beyond their end (lab-4).  A POSIX client of lab-14 may use semaphores that are not made yet.  The phone books print their menu for ever at the end of the
  input.  The path of the file manager grows with every step up, and a screen that shrinks hides its cursor.  Long lines are executed as two
  commands (shells), and a failing second fork leaves a child behind (\<open>process_tree\<close>).  Writes to the
  kernel buffers ignore the offset, so of a long text the last piece is left; the handler of lab-15 is
  installed with flags that were never set; the calculators print their menu for ever at the end of
  the input.

  Not modelled.  Filling in of address structures, thread attributes, and the results of \<^verbatim>\<open>malloc\<close> in
  the exercises.  The contents that a failing \<^verbatim>\<open>copy_to_user\<close> leaves in the reader's memory.  Concurrent
  writes to one kernel buffer.  Real-time signals and the signals other than SIGINT, SIGUSR1 and SIGTERM.
  Children that outlive their parents.  The copies of the calculator in lab-8 are those of lab-7 and have
  no definitions of their own.  Make files, documentation and the reports.
\<close>

end
